(* ===== verification/Rem6_Prelude.thy ===== *)
theory Rem6_Prelude
  imports Main "HOL-Library.Word"
begin

text \<open>
  Shared vocabulary of the development: the identifier types of the rem6 crates, the Rust
  integer and \<open>Result\<close> idioms the sources use, and the generic lemmas on results, options and
  sorted lists the component theories rely on.

  Integers that the sources only compare and combine with checked or saturating arithmetic
  (ticks, sequence numbers, counts) are \<open>nat\<close> with the bound of the machine type written into
  the operation; integers whose bits matter (addresses, identifiers, cache-line sizes) are
  words of the machine width.  A \<open>BTreeMap\<close> is a partial map, a \<open>BTreeSet\<close> a set, and iterating
  one of them is iterating \<open>sorted_list_of_set\<close> of its keys.
\<close>

section \<open>Identifier types\<close>

type_synonym u8 = "8 word"
type_synonym u32 = "32 word"
type_synonym u64 = "64 word"
type_synonym tick = nat
type_synonym address = u64
type_synonym agent_id = u32

section \<open>Results\<close>

text \<open>
  \<open>Result<T, E>\<close> is the sum \<open>'e + 'a\<close> with \<open>Inl\<close> the error.  \<open>res_bind\<close> is the operator
  \<^verbatim>\<open>?\<close> followed by the rest of the body: an error is returned at once.
\<close>

definition res_bind :: "'e + 'a \<Rightarrow> ('a \<Rightarrow> 'e + 'b) \<Rightarrow> 'e + 'b" where
  "res_bind r k = (case r of Inl e \<Rightarrow> Inl e | Inr x \<Rightarrow> k x)"

definition map_err :: "('e \<Rightarrow> 'f) \<Rightarrow> 'e + 'a \<Rightarrow> 'f + 'a" where
  "map_err f r = (case r of Inl e \<Rightarrow> Inl (f e) | Inr x \<Rightarrow> Inr x)"

definition ok_or :: "'e \<Rightarrow> 'a option \<Rightarrow> 'e + 'a" where
  "ok_or e v = (case v of None \<Rightarrow> Inl e | Some x \<Rightarrow> Inr x)"

named_theorems result_simps "rewrite rules for the result combinators"

lemma res_bind_Inl [simp]: "res_bind (Inl e) k = Inl e"
  by (simp add: res_bind_def)

lemma res_bind_Inr [simp]: "res_bind (Inr x) k = k x"
  by (simp add: res_bind_def)

lemma res_bind_eq_Inr [result_simps]:
  "res_bind r k = Inr y \<longleftrightarrow> (\<exists>x. r = Inr x \<and> k x = Inr y)"
  by (cases r) auto

lemma res_bind_eq_Inl [result_simps]:
  "res_bind r k = Inl e \<longleftrightarrow> r = Inl e \<or> (\<exists>x. r = Inr x \<and> k x = Inl e)"
  by (cases r) auto

lemma map_err_simps [simp]:
  "map_err f (Inl e) = Inl (f e)" "map_err f (Inr x) = Inr x"
  by (simp_all add: map_err_def)

lemma map_err_eq_Inr [result_simps]: "map_err f r = Inr x \<longleftrightarrow> r = Inr x"
  by (cases r) auto

lemma ok_or_simps [simp]: "ok_or e None = Inl e" "ok_or e (Some x) = Inr x"
  by (simp_all add: ok_or_def)

lemma ok_or_eq_Inr [result_simps]: "ok_or e v = Inr x \<longleftrightarrow> v = Some x"
  by (cases v) auto

lemma ok_or_eq_Inl [result_simps]: "ok_or e v = Inl e' \<longleftrightarrow> v = None \<and> e = e'"
  by (cases v) auto

text \<open>A \<open>for\<close> loop whose body may return early with an error.\<close>

fun res_foldl :: "('s \<Rightarrow> 'a \<Rightarrow> 'e + 's) \<Rightarrow> 's \<Rightarrow> 'a list \<Rightarrow> 'e + 's" where
  "res_foldl f s [] = Inr s"
| "res_foldl f s (x # xs) = res_bind (f s x) (\<lambda>s'. res_foldl f s' xs)"

lemma res_foldl_append:
  "res_foldl f s (xs @ ys) = res_bind (res_foldl f s xs) (\<lambda>s'. res_foldl f s' ys)"
proof (induction xs arbitrary: s)
  case (Cons x xs)
  then show ?case by (cases "f s x") simp_all
qed simp

lemma res_foldl_snoc:
  "res_foldl f s (xs @ [x]) = res_bind (res_foldl f s xs) (\<lambda>s'. f s' x)"
  by (simp add: res_foldl_append res_bind_def split: sum.splits)

text \<open>An invariant every successful iteration keeps holds when the loop ends.\<close>

lemma res_foldl_invariant:
  assumes "\<And>s x s'. I s \<Longrightarrow> x \<in> set xs \<Longrightarrow> f s x = Inr s' \<Longrightarrow> I s'"
    and "I s" and "res_foldl f s xs = Inr s'"
  shows "I s'"
  using assms
proof (induction xs arbitrary: s)
  case (Cons x xs)
  from Cons.prems(3) obtain s1 where s1: "f s x = Inr s1" "res_foldl f s1 xs = Inr s'"
    by (auto simp: res_bind_eq_Inr)
  have "I s1" using Cons.prems(1) [OF Cons.prems(2) _ s1(1)] by simp
  moreover have "\<And>s y s'. I s \<Longrightarrow> y \<in> set xs \<Longrightarrow> f s y = Inr s' \<Longrightarrow> I s'"
    using Cons.prems(1) by (meson list.set_intros(2))
  ultimately show ?case using Cons.IH [of s1] s1(2) by blast
qed simp

text \<open>\<open>Result::map\<close>.\<close>

definition map_ok :: "('a \<Rightarrow> 'b) \<Rightarrow> 'e + 'a \<Rightarrow> 'e + 'b" where
  "map_ok f r = (case r of Inl e \<Rightarrow> Inl e | Inr x \<Rightarrow> Inr (f x))"

lemma map_ok_simps [simp]: "map_ok f (Inl e) = Inl e" "map_ok f (Inr x) = Inr (f x)"
  by (simp_all add: map_ok_def)

lemma map_ok_eq_Inr [result_simps]: "map_ok f r = Inr y \<longleftrightarrow> (\<exists>x. r = Inr x \<and> y = f x)"
  by (cases r) auto

lemma map_ok_eq_Inl [result_simps]: "map_ok f r = Inl e \<longleftrightarrow> r = Inl e"
  by (cases r) auto

text \<open>
  A method with \<^verbatim>\<open>&mut self\<close> that returns a \<open>Result\<close> is a function to the state it leaves
  behind and the result: what it changed before an error stays changed.  \<open>st_try\<close> is \<^verbatim>\<open>?\<close> on a
  step that does not change the state, \<open>st_bind\<close> on one that may.
\<close>

type_synonym ('s, 'e, 'a) outcome = "'s \<times> ('e + 'a)"

definition st_try :: "'s \<Rightarrow> 'e + 'a \<Rightarrow> ('a \<Rightarrow> ('s, 'e, 'b) outcome) \<Rightarrow> ('s, 'e, 'b) outcome" where
  "st_try s r k = (case r of Inl e \<Rightarrow> (s, Inl e) | Inr x \<Rightarrow> k x)"

definition st_bind :: "('s, 'e, 'a) outcome \<Rightarrow> ('s \<Rightarrow> 'a \<Rightarrow> ('s, 'e, 'b) outcome) \<Rightarrow> ('s, 'e, 'b) outcome" where
  "st_bind o1 k = (case o1 of (s, Inl e) \<Rightarrow> (s, Inl e) | (s, Inr x) \<Rightarrow> k s x)"

text \<open>The state of a call whose error ends the caller, for callers that discard the state then.\<close>

definition ok_state :: "('s, 'e, 'a) outcome \<Rightarrow> 'e + 's" where
  "ok_state o1 = (case o1 of (_, Inl e) \<Rightarrow> Inl e | (s, Inr _) \<Rightarrow> Inr s)"

lemma ok_state_simps [simp]: "ok_state (s, Inl e) = Inl e" "ok_state (s, Inr x) = Inr s"
  by (simp_all add: ok_state_def)

lemma st_try_simps [simp]: "st_try s (Inl e) k = (s, Inl e)" "st_try s (Inr x) k = k x"
  by (simp_all add: st_try_def)

lemma st_bind_simps [simp]: "st_bind (s, Inl e) k = (s, Inl e)" "st_bind (s, Inr x) k = k s x"
  by (simp_all add: st_bind_def)

lemma st_try_eq_Inr [result_simps]:
  "st_try s r k = (s', Inr y) \<longleftrightarrow> (\<exists>x. r = Inr x \<and> k x = (s', Inr y))"
  by (cases r) auto

lemma st_try_eq_Inl [result_simps]:
  "st_try s r k = (s', Inl e) \<longleftrightarrow> r = Inl e \<and> s' = s \<or> (\<exists>x. r = Inr x \<and> k x = (s', Inl e))"
  by (cases r) auto

lemma st_bind_eq_Inr [result_simps]:
  "st_bind o1 k = (s', Inr y) \<longleftrightarrow> (\<exists>s x. o1 = (s, Inr x) \<and> k s x = (s', Inr y))"
  by (auto simp: st_bind_def split: prod.splits sum.splits)

section \<open>Unsigned arithmetic on \<open>u64\<close> quantities kept as naturals\<close>

abbreviation U64_RANGE :: nat where
  "U64_RANGE \<equiv> 18446744073709551616"

definition checked_add :: "nat \<Rightarrow> nat \<Rightarrow> nat option" where
  "checked_add a b = (if a + b < U64_RANGE then Some (a + b) else None)"

definition checked_mul :: "nat \<Rightarrow> nat \<Rightarrow> nat option" where
  "checked_mul a b = (if a * b < U64_RANGE then Some (a * b) else None)"

definition saturating_add :: "nat \<Rightarrow> nat \<Rightarrow> nat" where
  "saturating_add a b = min (a + b) (U64_RANGE - 1)"

lemma U64_RANGE_power: "U64_RANGE = 2 ^ 64"
  by simp

lemma checked_add_eq_Some [simp]: "checked_add a b = Some c \<longleftrightarrow> c = a + b \<and> a + b < U64_RANGE"
  by (auto simp: checked_add_def)

lemma checked_add_eq_None [simp]: "checked_add a b = None \<longleftrightarrow> U64_RANGE \<le> a + b"
  by (simp add: checked_add_def)

lemma checked_mul_eq_Some [simp]: "checked_mul a b = Some c \<longleftrightarrow> c = a * b \<and> a * b < U64_RANGE"
  by (auto simp: checked_mul_def)

lemma checked_mul_eq_None [simp]: "checked_mul a b = None \<longleftrightarrow> U64_RANGE \<le> a * b"
  by (simp add: checked_mul_def)

section \<open>Lists\<close>

text \<open>\<open>find_map\<close> and \<open>filter_map\<close> of Rust iterators.\<close>

fun find_map :: "('a \<Rightarrow> 'b option) \<Rightarrow> 'a list \<Rightarrow> 'b option" where
  "find_map f [] = None"
| "find_map f (x # xs) = (case f x of None \<Rightarrow> find_map f xs | Some y \<Rightarrow> Some y)"

lemma find_map_None_iff: "find_map f xs = None \<longleftrightarrow> (\<forall>x \<in> set xs. f x = None)"
  by (induction xs) (auto split: option.splits)

lemma find_map_SomeD: "find_map f xs = Some y \<Longrightarrow> \<exists>x \<in> set xs. f x = Some y"
  by (induction xs) (auto split: option.splits)

lemma length_filter_le_1_iff:
  "distinct xs \<Longrightarrow> length (filter P xs) \<le> 1 \<longleftrightarrow>
     (\<forall>x \<in> set xs. \<forall>y \<in> set xs. P x \<longrightarrow> P y \<longrightarrow> x = y)"
proof -
  assume d: "distinct xs"
  have "length (filter P xs) = card {x \<in> set xs. P x}"
    using d by (metis distinct_card distinct_filter set_filter)
  moreover have "card {x \<in> set xs. P x} \<le> 1 \<longleftrightarrow>
      (\<forall>x \<in> set xs. \<forall>y \<in> set xs. P x \<longrightarrow> P y \<longrightarrow> x = y)"
    by (subst One_nat_def, subst card_le_Suc0_iff_eq) auto
  ultimately show ?thesis by simp
qed

lemma find_SomeD: "List.find P xs = Some x \<Longrightarrow> x \<in> set xs \<and> P x"
  by (induction xs) (auto split: if_splits)

lemma sorted_wrt_allI: "(\<And>x y. x \<in> set xs \<Longrightarrow> y \<in> set xs \<Longrightarrow> R x y) \<Longrightarrow> sorted_wrt R xs"
  by (induction xs) simp_all

end
