(* ===== verification/Line_Protocol.thy ===== *)
theory Line_Protocol
  imports Rem6_Prelude
begin

text \<open>
  What the four cache-line protocol crates (\<open>rem6-protocol-msi\<close>, \<open>-mesi\<close>, \<open>-moesi\<close>, \<open>-chi\<close>)
  share.  Each crate declares its own transition, trace-entry, cache-line and directory-snapshot
  structs with the same fields; they are instances of the records below, with the crate's own
  state, event and action types.  The locale states the contract all four transition tables
  keep; its lemmas about replayed event sequences are proved once and reach the crates by
  interpretation.
\<close>

section \<open>The shared shape of the structs\<close>

record ('st, 'ev, 'ac) line_transition =
  t_before :: 'st
  t_event :: 'ev
  t_after :: 'st
  t_actions :: "'ac list"

record ('st, 'ev) trace_entry =
  te_agent :: agent_id
  te_line :: address
  te_before :: 'st
  te_event :: 'ev
  te_after :: 'st

record ('st, 'ev) cache_line =
  cl_agent :: agent_id
  cl_line :: address
  cl_state :: 'st
  cl_trace :: "('st, 'ev) trace_entry list"

record 'st line_snapshot =
  ls_line :: address
  ls_caches :: "(agent_id \<times> 'st) list"

text \<open>The effect of an accepted transition on the line: state and trace are updated together.\<close>

definition commit_transition ::
  "('st, 'ev) cache_line \<Rightarrow> 'ev \<Rightarrow> ('st, 'ev, 'ac) line_transition \<Rightarrow> ('st, 'ev) cache_line" where
  "commit_transition c ev t =
     c\<lparr>cl_state := t_after t,
       cl_trace := cl_trace c @
         [\<lparr>te_agent = cl_agent c, te_line = cl_line c, te_before = cl_state c,
           te_event = ev, te_after = t_after t\<rparr>]\<rparr>"

lemma commit_transition_simps [simp]:
  "cl_agent (commit_transition c ev t) = cl_agent c"
  "cl_line (commit_transition c ev t) = cl_line c"
  "cl_state (commit_transition c ev t) = t_after t"
  "cl_trace (commit_transition c ev t) = cl_trace c @
     [\<lparr>te_agent = cl_agent c, te_line = cl_line c, te_before = cl_state c,
       te_event = ev, te_after = t_after t\<rparr>]"
  by (simp_all add: commit_transition_def)

text \<open>
  A trace is a chain when every entry belongs to the given agent and line and starts in the
  state the previous one ended in.
\<close>

fun trace_chain :: "agent_id \<Rightarrow> address \<Rightarrow> 'st \<Rightarrow> ('st, 'ev) trace_entry list \<Rightarrow> 'st \<Rightarrow> bool" where
  "trace_chain a l s [] s' \<longleftrightarrow> s = s'"
| "trace_chain a l s (e # es) s' \<longleftrightarrow>
     te_agent e = a \<and> te_line e = l \<and> te_before e = s \<and> trace_chain a l (te_after e) es s'"

lemma trace_chain_append:
  "trace_chain a l s (xs @ ys) s' \<longleftrightarrow>
     (\<exists>m. trace_chain a l s xs m \<and> trace_chain a l m ys s')"
  by (induction xs arbitrary: s) auto

section \<open>The contract of a line protocol\<close>

locale line_protocol =
  fixes new_line :: "agent_id \<Rightarrow> address \<Rightarrow> ('st, 'ev) cache_line"
    and transition :: "('st, 'ev) cache_line \<Rightarrow> 'ev \<Rightarrow> 'er + ('st, 'ev, 'ac) line_transition"
    and apply_event :: "('st, 'ev) cache_line \<Rightarrow> 'ev \<Rightarrow>
          'er + ('st, 'ev) cache_line \<times> ('st, 'ev, 'ac) line_transition"
    and replay :: "agent_id \<Rightarrow> address \<Rightarrow> 'ev list \<Rightarrow> 'er + ('st, 'ev) cache_line"
    and stable :: "'st \<Rightarrow> bool"
    and cpu :: "'ev \<Rightarrow> bool"
    and data :: "'ev \<Rightarrow> bool"
    and busy :: "('st, 'ev) cache_line \<Rightarrow> 'ev \<Rightarrow> 'er"
  assumes new_line: "cl_agent (new_line a l) = a" "cl_line (new_line a l) = l"
      "stable (cl_state (new_line a l))" "cl_trace (new_line a l) = []"
    and apply_event: "apply_event c ev =
      res_bind (transition c ev) (\<lambda>t. Inr (commit_transition c ev t, t))"
    and replay_Nil: "replay a l [] = Inr (new_line a l)"
    and replay_snoc: "replay a l (evs @ [ev]) =
      res_bind (replay a l evs) (\<lambda>c. res_bind (apply_event c ev) (\<lambda>(c', t). Inr c'))"
    and transition_label: "transition c ev = Inr t \<Longrightarrow> t_before t = cl_state c \<and> t_event t = ev"
    and stable_cpu: "stable (cl_state c) \<Longrightarrow> cpu ev \<Longrightarrow> \<exists>t. transition c ev = Inr t"
    and transient_cpu: "\<not> stable (cl_state c) \<Longrightarrow> cpu ev \<Longrightarrow> transition c ev = Inl (busy c ev)"
    and data_completes: "transition c ev = Inr t \<Longrightarrow> data ev \<Longrightarrow>
      \<not> stable (cl_state c) \<and> stable (t_after t)"
    and snoop_stable: "transition c ev = Inr t \<Longrightarrow> \<not> cpu ev \<Longrightarrow> \<not> data ev \<Longrightarrow>
      stable (cl_state c) \<and> stable (t_after t)"
    and transient_progress: "\<not> stable (cl_state c) \<Longrightarrow> \<exists>ev t. data ev \<and> transition c ev = Inr t"
    and cpu_not_data: "cpu ev \<Longrightarrow> \<not> data ev"
begin

text \<open>A request that leaves the line transient is a miss.\<close>

definition miss_entry :: "('st, 'ev) trace_entry \<Rightarrow> bool" where
  "miss_entry e \<longleftrightarrow> cpu (te_event e) \<and> \<not> stable (te_after e)"

definition data_entry :: "('st, 'ev) trace_entry \<Rightarrow> bool" where
  "data_entry e \<longleftrightarrow> data (te_event e)"

definition outstanding :: "('st, 'ev) cache_line \<Rightarrow> nat" where
  "outstanding c = (if stable (cl_state c) then 0 else 1)"

lemma apply_event_Inr:
  "apply_event c ev = Inr (c', t) \<longleftrightarrow> transition c ev = Inr t \<and> c' = commit_transition c ev t"
  by (auto simp: apply_event res_bind_eq_Inr)

lemma apply_event_Inl: "apply_event c ev = Inl e \<longleftrightarrow> transition c ev = Inl e"
  by (auto simp: apply_event res_bind_eq_Inl)

lemma replay_snoc_Inr:
  "replay a l (evs @ [ev]) = Inr c' \<longleftrightarrow>
     (\<exists>c t. replay a l evs = Inr c \<and> transition c ev = Inr t \<and> c' = commit_transition c ev t)"
  by (auto simp: replay_snoc res_bind_eq_Inr apply_event_Inr)

text \<open>A successful replay records exactly its input, as a chain from the initial state.\<close>

lemma replay_records:
  "replay a l evs = Inr c \<Longrightarrow>
     cl_agent c = a \<and> cl_line c = l \<and> map te_event (cl_trace c) = evs \<and>
     trace_chain a l (cl_state (new_line a l)) (cl_trace c) (cl_state c)"
proof (induction evs arbitrary: c rule: rev_induct)
  case Nil
  then show ?case by (auto simp: replay_Nil new_line)
next
  case (snoc ev evs)
  from snoc.prems obtain c0 t where c0: "replay a l evs = Inr c0"
    and t: "transition c0 ev = Inr t" and c: "c = commit_transition c0 ev t"
    by (auto simp: replay_snoc_Inr)
  show ?case
    using snoc.IH [OF c0] by (auto simp: c trace_chain_append)
qed

text \<open>
  At most one request is outstanding: the misses of a trace are the data responses of the
  trace, plus one exactly when the line is transient at the end.
\<close>

lemma transition_outstanding:
  assumes "transition c ev = Inr t"
  shows "outstanding c + (if cpu ev \<and> \<not> stable (t_after t) then 1 else 0) =
     (if data ev then 1 else 0) + outstanding (commit_transition c ev t)"
proof (cases "cpu ev")
  case True
  then have "stable (cl_state c)"
    using assms transient_cpu by fastforce
  with True show ?thesis
    by (simp add: outstanding_def cpu_not_data)
next
  case False
  with data_completes [OF assms] snoop_stable [OF assms] show ?thesis
    by (cases "data ev") (auto simp: outstanding_def)
qed

lemma replay_outstanding:
  "replay a l evs = Inr c \<Longrightarrow>
     length (filter miss_entry (cl_trace c)) = length (filter data_entry (cl_trace c)) + outstanding c"
proof (induction evs arbitrary: c rule: rev_induct)
  case Nil
  then show ?case by (auto simp: replay_Nil new_line outstanding_def)
next
  case (snoc ev evs)
  from snoc.prems obtain c0 t where c0: "replay a l evs = Inr c0"
    and t: "transition c0 ev = Inr t" and c: "c = commit_transition c0 ev t"
    by (auto simp: replay_snoc_Inr)
  show ?case
    using snoc.IH [OF c0] transition_outstanding [OF t]
    by (auto simp: c miss_entry_def data_entry_def split: if_splits)
qed

text \<open>An outstanding request is completed by some data response, in one step.\<close>

lemma replay_completes:
  assumes "replay a l evs = Inr c" and "\<not> stable (cl_state c)"
  shows "\<exists>ev c'. data ev \<and> replay a l (evs @ [ev]) = Inr c' \<and> stable (cl_state c')"
proof -
  from transient_progress [OF assms(2)] obtain ev t where ev: "data ev" "transition c ev = Inr t"
    by blast
  then have "replay a l (evs @ [ev]) = Inr (commit_transition c ev t)"
    using assms(1) by (auto simp: replay_snoc_Inr)
  with data_completes [OF ev(2,1)] ev(1) show ?thesis by auto
qed

lemma replay_busy:
  assumes "replay a l evs = Inr c" and "\<not> stable (cl_state c)" and "cpu ev"
  shows "replay a l (evs @ [ev]) = Inl (busy c ev)"
  using assms transient_cpu [OF assms(2,3)] by (simp add: replay_snoc apply_event)

end

section \<open>Permissions: the abstract machine the protocols implement\<close>

text \<open>
  Forgetting who supplies data and which copies are dirty, every protocol manages one access
  permission per line.  The abstract machine says when an access hits, what a miss waits for,
  what a response may grant and what a snoop takes away.
\<close>

datatype perm = NoPerm | ReadPerm | WritePerm

instantiation perm :: linorder
begin

definition perm_rank :: "perm \<Rightarrow> nat" where
  "perm_rank p = (case p of NoPerm \<Rightarrow> 0 | ReadPerm \<Rightarrow> 1 | WritePerm \<Rightarrow> 2)"

definition less_eq_perm :: "perm \<Rightarrow> perm \<Rightarrow> bool" where
  "p \<le> q \<longleftrightarrow> perm_rank p \<le> perm_rank q"

definition less_perm :: "perm \<Rightarrow> perm \<Rightarrow> bool" where
  "p < q \<longleftrightarrow> perm_rank p < perm_rank q"

instance
  by standard (auto simp: less_eq_perm_def less_perm_def perm_rank_def split: perm.splits)

end

lemmas perm_order_simps = less_eq_perm_def less_perm_def perm_rank_def min_def

datatype perm_state = Stable perm | Pending perm

datatype perm_event = Load | Store | Fill perm | Demote | Revoke

inductive perm_step :: "perm_state \<Rightarrow> perm_event \<Rightarrow> perm_state \<Rightarrow> bool" where
  load_hit: "ReadPerm \<le> p \<Longrightarrow> perm_step (Stable p) Load (Stable p)"
| load_miss: "p < ReadPerm \<Longrightarrow> perm_step (Stable p) Load (Pending ReadPerm)"
| store_hit: "perm_step (Stable WritePerm) Store (Stable WritePerm)"
| store_miss: "p < WritePerm \<Longrightarrow> perm_step (Stable p) Store (Pending WritePerm)"
| fill: "w \<le> p \<Longrightarrow> perm_step (Pending w) (Fill p) (Stable p)"
| demote: "perm_step (Stable p) Demote (Stable (min p ReadPerm))"
| revoke: "perm_step (Stable p) Revoke (Stable NoPerm)"

inductive_simps perm_step_Stable [simp]: "perm_step (Stable p) ev s'"
inductive_simps perm_step_Pending [simp]: "perm_step (Pending p) ev s'"

inductive perm_run :: "perm_state \<Rightarrow> perm_event list \<Rightarrow> perm_state \<Rightarrow> bool" where
  perm_run_Nil: "perm_run s [] s"
| perm_run_snoc: "perm_run s evs s' \<Longrightarrow> perm_step s' ev s'' \<Longrightarrow> perm_run s (evs @ [ev]) s''"

text \<open>A machine starting without permission reaches write permission only through a fill.\<close>

lemma perm_run_write_needs_fill:
  "perm_run s evs s' \<Longrightarrow> s = Stable NoPerm \<Longrightarrow> s' = Stable WritePerm \<Longrightarrow>
     Fill WritePerm \<in> set evs"
proof (induction rule: perm_run.induct)
  case (perm_run_snoc s evs s' ev s'')
  from \<open>perm_step s' ev s''\<close> show ?case
    using perm_run_snoc.IH perm_run_snoc.prems
    by cases (auto simp: perm_order_simps split: if_splits)
qed simp

locale permission_protocol = line_protocol new_line transition apply_event replay stable cpu data busy
  for new_line :: "agent_id \<Rightarrow> address \<Rightarrow> ('st, 'ev) cache_line"
    and transition :: "('st, 'ev) cache_line \<Rightarrow> 'ev \<Rightarrow> 'er + ('st, 'ev, 'ac) line_transition"
    and apply_event and replay and stable and cpu and data and busy +
  fixes perm_of :: "'st \<Rightarrow> perm_state"
    and perm_event_of :: "'ev \<Rightarrow> perm_event"
  assumes perm_new: "perm_of (cl_state (new_line a l)) = Stable NoPerm"
    and perm_sim: "transition c ev = Inr t \<Longrightarrow>
      perm_step (perm_of (cl_state c)) (perm_event_of ev) (perm_of (t_after t))"
begin

lemma replay_perm_run:
  "replay a l evs = Inr c \<Longrightarrow>
     perm_run (Stable NoPerm) (map perm_event_of evs) (perm_of (cl_state c))"
proof (induction evs arbitrary: c rule: rev_induct)
  case Nil
  then show ?case
    by (auto simp: replay_Nil new_line perm_new intro: perm_run.intros)
next
  case (snoc ev evs)
  from snoc.prems obtain c0 t where c0: "replay a l evs = Inr c0"
    and t: "transition c0 ev = Inr t" and c: "c = commit_transition c0 ev t"
    by (auto simp: replay_snoc_Inr)
  show ?case
    using perm_run_snoc [OF snoc.IH [OF c0] perm_sim [OF t]] by (simp add: c)
qed

end

section \<open>Copies of one line: the compatibility matrix\<close>

text \<open>
  The snapshot checks of the crates collect owners and sharers into lists and look at the
  lengths.  The abstract reading is a compatibility matrix on pairs of copies; the lemmas below
  connect the two for any owner and sharer predicates that exclude each other.
\<close>

definition select :: "('st \<Rightarrow> bool) \<Rightarrow> (agent_id \<times> 'st) list \<Rightarrow> agent_id list" where
  "select P xs = List.map_filter (\<lambda>(a, s). if P s then Some a else None) xs"

lemma select_simps [simp]:
  "select P [] = []"
  "select P ((a, s) # xs) = (if P s then a # select P xs else select P xs)"
  by (simp_all add: select_def map_filter_simps)

lemma select_eq_Nil: "select P xs = [] \<longleftrightarrow> (\<forall>x \<in> set xs. \<not> P (snd x))"
  by (induction xs) (simp, case_tac a, simp)

lemma set_select: "set (select P xs) = {a. \<exists>s. (a, s) \<in> set xs \<and> P s}"
  by (induction xs) (simp, case_tac a, auto)

lemma length_select_le_1:
  "length (select P xs) \<le> 1 \<longleftrightarrow> sorted_wrt (\<lambda>x y. \<not> (P (snd x) \<and> P (snd y))) xs"
proof (induction xs)
  case (Cons x xs)
  show ?case
  proof (cases "P (snd x)")
    case True
    then have "length (select P (x # xs)) \<le> 1 \<longleftrightarrow> select P xs = []"
      by (cases x) simp
    moreover have "(\<forall>y \<in> set xs. \<not> P (snd y)) \<Longrightarrow>
        sorted_wrt (\<lambda>x y. \<not> (P (snd x) \<and> P (snd y))) xs"
      using Cons by (metis le0 length_0_conv select_eq_Nil)
    ultimately show ?thesis
      using True by (auto simp: select_eq_Nil)
  next
    case False
    then show ?thesis using Cons by (cases x) simp
  qed
qed simp

lemma owner_excludes_sharers:
  assumes "\<And>s. \<not> (own s \<and> shr s)"
  shows "select own xs = [] \<or> select shr xs = [] \<longleftrightarrow>
    sorted_wrt (\<lambda>x y. \<not> (own (snd x) \<and> shr (snd y)) \<and> \<not> (shr (snd x) \<and> own (snd y))) xs"
proof (induction xs)
  case (Cons x xs)
  then show ?case
    using assms [of "snd x"]
    by (cases x) (auto simp: select_eq_Nil)
qed simp

lemma sorted_wrt_conj:
  "sorted_wrt P xs \<and> sorted_wrt Q xs \<longleftrightarrow> sorted_wrt (\<lambda>x y. P x y \<and> Q x y) xs"
  by (induction xs) auto

text \<open>
  Single writer or multiple readers: no copy may write while another may read or write.  A
  transient copy holds no permission yet.
\<close>

definition held :: "perm_state \<Rightarrow> perm" where
  "held s = (case s of Stable p \<Rightarrow> p | Pending _ \<Rightarrow> NoPerm)"

lemma held_simps [simp]: "held (Stable p) = p" "held (Pending p) = NoPerm"
  by (simp_all add: held_def)

definition swmr_pair :: "perm \<Rightarrow> perm \<Rightarrow> bool" where
  "swmr_pair p q \<longleftrightarrow> (p = WritePerm \<longrightarrow> q = NoPerm) \<and> (q = WritePerm \<longrightarrow> p = NoPerm)"

definition swmr :: "('st \<Rightarrow> perm_state) \<Rightarrow> (agent_id \<times> 'st) list \<Rightarrow> bool" where
  "swmr perm_of xs \<longleftrightarrow>
     sorted_wrt (\<lambda>x y. swmr_pair (held (perm_of (snd x))) (held (perm_of (snd y)))) xs"

lemma owners_and_sharers_swmr:
  assumes own: "\<And>s. own s \<longleftrightarrow> held (perm_of s) = WritePerm"
    and shr: "\<And>s. shr s \<longleftrightarrow> held (perm_of s) = ReadPerm"
  shows "length (select own xs) \<le> 1 \<and> (select own xs = [] \<or> select shr xs = []) \<longleftrightarrow>
    swmr perm_of xs"
proof -
  have "swmr_pair (held (perm_of s)) (held (perm_of t)) \<longleftrightarrow>
      \<not> (own s \<and> own t) \<and> \<not> (own s \<and> shr t) \<and> \<not> (shr s \<and> own t)" for s t
    unfolding own shr swmr_pair_def by (cases "held (perm_of s)"; cases "held (perm_of t)") simp_all
  moreover have "select own xs = [] \<or> select shr xs = [] \<longleftrightarrow>
      sorted_wrt (\<lambda>x y. \<not> (own (snd x) \<and> shr (snd y)) \<and> \<not> (shr (snd x) \<and> own (snd y))) xs"
    by (rule owner_excludes_sharers) (simp add: own shr)
  ultimately show ?thesis
    by (simp only: swmr_def length_select_le_1 sorted_wrt_conj)
qed

lemma swmr_single_writer:
  assumes "swmr perm_of xs" and "(a, s) \<in> set xs" and "(b, t) \<in> set xs" and "a \<noteq> b"
    and "held (perm_of s) = WritePerm"
  shows "held (perm_of t) = NoPerm"
proof -
  obtain i j where ij: "i < length xs" "xs ! i = (a, s)" "j < length xs" "xs ! j = (b, t)"
    using assms(2,3) by (metis in_set_conv_nth)
  then have "i \<noteq> j" using assms(4) by auto
  then have "swmr_pair (held (perm_of s)) (held (perm_of t)) \<or>
      swmr_pair (held (perm_of t)) (held (perm_of s))"
    using assms(1) ij unfolding swmr_def sorted_wrt_iff_nth_less
    by (metis linorder_neqE_nat snd_conv)
  with assms(5) show ?thesis by (auto simp: swmr_pair_def)
qed

text \<open>The same over all agents at once.\<close>

definition single_writer :: "('st \<Rightarrow> perm_state) \<Rightarrow> (agent_id \<Rightarrow> 'st) \<Rightarrow> bool" where
  "single_writer perm_of copies \<longleftrightarrow>
     (\<forall>a b. a \<noteq> b \<and> held (perm_of (copies a)) = WritePerm \<longrightarrow> held (perm_of (copies b)) = NoPerm)"

end
