(* ===== verification/Protocol_Msi.thy ===== *)
theory Protocol_Msi
  imports Line_Protocol
begin

text \<open>
  The MSI cache-line protocol of \<^verbatim>\<open>crates/rem6-protocol-msi/src/lib.rs\<close>: states, events,
  actions and errors, the transition table of one line, its application with the trace, replay
  of an event sequence, and the check of a directory snapshot of all copies of a line.
\<close>

section \<open>Data\<close>

datatype MsiState =
    Invalid | Shared | Modified | InvalidToShared | InvalidToModified | SharedToModified

definition msi_is_stable :: "MsiState \<Rightarrow> bool" where
  "msi_is_stable s \<longleftrightarrow> s \<in> {MsiState.Invalid, MsiState.Shared, MsiState.Modified}"

definition msi_is_valid :: "MsiState \<Rightarrow> bool" where
  "msi_is_valid s \<longleftrightarrow> s \<in> {MsiState.Shared, MsiState.Modified}"

definition msi_is_modified :: "MsiState \<Rightarrow> bool" where
  "msi_is_modified s \<longleftrightarrow> s \<in> {MsiState.Modified}"

definition msi_is_transient :: "MsiState \<Rightarrow> bool" where
  "msi_is_transient s \<longleftrightarrow> \<not> msi_is_stable s"

datatype MsiEvent =
    CpuRead | CpuWrite | DataShared | DataModified | SnoopRead | SnoopWrite

definition msi_is_cpu_request :: "MsiEvent \<Rightarrow> bool" where
  "msi_is_cpu_request ev \<longleftrightarrow> ev \<in> {MsiEvent.CpuRead, MsiEvent.CpuWrite}"

definition msi_is_data_response :: "MsiEvent \<Rightarrow> bool" where
  "msi_is_data_response ev \<longleftrightarrow> ev \<in> {MsiEvent.DataShared, MsiEvent.DataModified}"

lemmas msi_state_predicates =
  msi_is_stable_def msi_is_transient_def msi_is_valid_def msi_is_modified_def

lemmas msi_event_predicates = msi_is_cpu_request_def msi_is_data_response_def

datatype MsiAction =
    ReadHit address | WriteHit address | SendGetShared address | SendGetModified address
  | InstallShared address | InstallModified address | WakeRequester address | SupplyData address
  | DowngradeToShared address | Invalidate address | Ignore address

datatype MsiError =
    Busy agent_id address MsiState MsiEvent
  | UnexpectedEvent agent_id address MsiState MsiEvent
  | ForcedTransientState agent_id address MsiState
  | MultipleModifiedOwners address "agent_id list"
  | ModifiedWithSharers address agent_id "agent_id list"

type_synonym MsiTransition = "(MsiState, MsiEvent, MsiAction) line_transition"
type_synonym MsiTraceEntry = "(MsiState, MsiEvent) trace_entry"
type_synonym MsiCacheLine = "(MsiState, MsiEvent) cache_line"
type_synonym MsiDirectoryLineSnapshot = "MsiState line_snapshot"

section \<open>Operations of a line\<close>

definition msi_new :: "agent_id \<Rightarrow> address \<Rightarrow> MsiCacheLine" where
  "msi_new agent line =
     \<lparr>cl_agent = agent, cl_line = line, cl_state = MsiState.Invalid, cl_trace = []\<rparr>"

definition msi_force_state :: "MsiCacheLine \<Rightarrow> MsiState \<Rightarrow> MsiError + MsiCacheLine" where
  "msi_force_state c s =
     (if msi_is_transient s then Inl (MsiError.ForcedTransientState (cl_agent c) (cl_line c) s)
      else Inr (c\<lparr>cl_state := s\<rparr>))"

definition msi_transition :: "MsiCacheLine \<Rightarrow> MsiEvent \<Rightarrow> MsiError + MsiTransition" where
  "msi_transition c ev =
    (let line = cl_line c;
         ok = (\<lambda>after actions. Inr \<lparr>t_before = cl_state c, t_event = ev,
                                  t_after = after, t_actions = actions\<rparr>)
     in case (cl_state c, ev) of
       (MsiState.Invalid, MsiEvent.CpuRead) \<Rightarrow>
         ok MsiState.InvalidToShared [MsiAction.SendGetShared line]
     | (MsiState.Invalid, MsiEvent.CpuWrite) \<Rightarrow>
         ok MsiState.InvalidToModified [MsiAction.SendGetModified line]
     | (MsiState.Invalid, MsiEvent.SnoopRead) \<Rightarrow>
         ok MsiState.Invalid [MsiAction.Ignore line]
     | (MsiState.Invalid, MsiEvent.SnoopWrite) \<Rightarrow>
         ok MsiState.Invalid [MsiAction.Ignore line]
     | (MsiState.Shared, MsiEvent.CpuRead) \<Rightarrow>
         ok MsiState.Shared [MsiAction.ReadHit line]
     | (MsiState.Shared, MsiEvent.CpuWrite) \<Rightarrow>
         ok MsiState.SharedToModified [MsiAction.SendGetModified line]
     | (MsiState.Shared, MsiEvent.SnoopRead) \<Rightarrow>
         ok MsiState.Shared [MsiAction.Ignore line]
     | (MsiState.Shared, MsiEvent.SnoopWrite) \<Rightarrow>
         ok MsiState.Invalid [MsiAction.Invalidate line]
     | (MsiState.Modified, MsiEvent.CpuRead) \<Rightarrow>
         ok MsiState.Modified [MsiAction.ReadHit line]
     | (MsiState.Modified, MsiEvent.CpuWrite) \<Rightarrow>
         ok MsiState.Modified [MsiAction.WriteHit line]
     | (MsiState.Modified, MsiEvent.SnoopRead) \<Rightarrow>
         ok MsiState.Shared [MsiAction.SupplyData line, MsiAction.DowngradeToShared line]
     | (MsiState.Modified, MsiEvent.SnoopWrite) \<Rightarrow>
         ok MsiState.Invalid [MsiAction.SupplyData line, MsiAction.Invalidate line]
     | (MsiState.InvalidToShared, MsiEvent.DataShared) \<Rightarrow>
         ok MsiState.Shared [MsiAction.InstallShared line, MsiAction.WakeRequester line]
     | (MsiState.InvalidToModified, MsiEvent.DataModified) \<Rightarrow>
         ok MsiState.Modified [MsiAction.InstallModified line, MsiAction.WakeRequester line]
     | (MsiState.SharedToModified, MsiEvent.DataModified) \<Rightarrow>
         ok MsiState.Modified [MsiAction.InstallModified line, MsiAction.WakeRequester line]
     | (s, e) \<Rightarrow>
         if msi_is_transient s \<and> msi_is_cpu_request e
         then Inl (MsiError.Busy (cl_agent c) line s e)
         else Inl (MsiError.UnexpectedEvent (cl_agent c) line s e))"

definition msi_apply :: "MsiCacheLine \<Rightarrow> MsiEvent \<Rightarrow> MsiError + MsiCacheLine \<times> MsiTransition" where
  "msi_apply c ev = res_bind (msi_transition c ev) (\<lambda>t. Inr (commit_transition c ev t, t))"

definition msi_replay :: "agent_id \<Rightarrow> address \<Rightarrow> MsiEvent list \<Rightarrow> MsiError + MsiCacheLine" where
  "msi_replay agent line events =
     res_foldl (\<lambda>c ev. res_bind (msi_apply c ev) (\<lambda>(c', t). Inr c')) (msi_new agent line) events"

section \<open>The check of all copies of a line\<close>

definition msi_snapshot_new :: "address \<Rightarrow> MsiDirectoryLineSnapshot" where
  "msi_snapshot_new line = \<lparr>ls_line = line, ls_caches = []\<rparr>"

definition msi_with_cache ::
  "MsiDirectoryLineSnapshot \<Rightarrow> agent_id \<Rightarrow> MsiState \<Rightarrow> MsiDirectoryLineSnapshot" where
  "msi_with_cache snap agent s = snap\<lparr>ls_caches := ls_caches snap @ [(agent, s)]\<rparr>"

definition msi_validate :: "MsiDirectoryLineSnapshot \<Rightarrow> MsiError + unit" where
  "msi_validate snap =
    (let owners = select msi_is_modified (ls_caches snap) in
     if 1 < length owners then Inl (MsiError.MultipleModifiedOwners (ls_line snap) owners)
     else case owners of
       [] \<Rightarrow> Inr ()
     | owner # _ \<Rightarrow>
         (let sharers = select (\<lambda>s. s = MsiState.Shared) (ls_caches snap) in
          if sharers \<noteq> [] then Inl (MsiError.ModifiedWithSharers (ls_line snap) owner sharers)
          else Inr ()))"

section \<open>The contract\<close>

lemma msi_transition_label:
  "msi_transition c ev = Inr t \<Longrightarrow> t_before t = cl_state c \<and> t_event t = ev"
  by (cases "cl_state c"; cases ev) (auto simp: msi_transition_def Let_def split: if_splits)

lemma msi_stable_cpu:
  "msi_is_stable (cl_state c) \<Longrightarrow> msi_is_cpu_request ev \<Longrightarrow> \<exists>t. msi_transition c ev = Inr t"
  by (cases "cl_state c"; cases ev)
     (simp_all add: msi_transition_def Let_def msi_state_predicates msi_event_predicates)

lemma msi_transient_cpu:
  "\<not> msi_is_stable (cl_state c) \<Longrightarrow> msi_is_cpu_request ev \<Longrightarrow>
     msi_transition c ev = Inl (MsiError.Busy (cl_agent c) (cl_line c) (cl_state c) ev)"
  by (cases "cl_state c"; cases ev)
     (simp_all add: msi_transition_def Let_def msi_state_predicates msi_event_predicates)

lemma msi_data_completes:
  "msi_transition c ev = Inr t \<Longrightarrow> msi_is_data_response ev \<Longrightarrow>
     \<not> msi_is_stable (cl_state c) \<and> msi_is_stable (t_after t)"
  by (cases "cl_state c"; cases ev)
     (auto simp: msi_transition_def Let_def msi_state_predicates msi_event_predicates)

lemma msi_snoop_stable:
  "msi_transition c ev = Inr t \<Longrightarrow> \<not> msi_is_cpu_request ev \<Longrightarrow> \<not> msi_is_data_response ev \<Longrightarrow>
     msi_is_stable (cl_state c) \<and> msi_is_stable (t_after t)"
  by (cases "cl_state c"; cases ev)
     (auto simp: msi_transition_def Let_def msi_state_predicates msi_event_predicates)

fun msi_response :: "MsiState \<Rightarrow> MsiEvent" where
  "msi_response MsiState.InvalidToShared = MsiEvent.DataShared"
| "msi_response _ = MsiEvent.DataModified"

lemma msi_transient_progress:
  "\<not> msi_is_stable (cl_state c) \<Longrightarrow> \<exists>ev t. msi_is_data_response ev \<and> msi_transition c ev = Inr t"
  by (rule exI [of _ "msi_response (cl_state c)"], cases "cl_state c")
     (auto simp: msi_transition_def Let_def msi_state_predicates msi_event_predicates)

text \<open>The permission a state stands for and the permission event a protocol event stands for.\<close>

fun msi_perm_of :: "MsiState \<Rightarrow> perm_state" where
  "msi_perm_of MsiState.Invalid = Stable NoPerm"
| "msi_perm_of MsiState.Shared = Stable ReadPerm"
| "msi_perm_of MsiState.Modified = Stable WritePerm"
| "msi_perm_of MsiState.InvalidToShared = Pending ReadPerm"
| "msi_perm_of MsiState.InvalidToModified = Pending WritePerm"
| "msi_perm_of MsiState.SharedToModified = Pending WritePerm"

fun msi_perm_event :: "MsiEvent \<Rightarrow> perm_event" where
  "msi_perm_event MsiEvent.CpuRead = Load"
| "msi_perm_event MsiEvent.CpuWrite = Store"
| "msi_perm_event MsiEvent.DataShared = Fill ReadPerm"
| "msi_perm_event MsiEvent.DataModified = Fill WritePerm"
| "msi_perm_event MsiEvent.SnoopRead = Demote"
| "msi_perm_event MsiEvent.SnoopWrite = Revoke"

lemma msi_perm_sim:
  "msi_transition c ev = Inr t \<Longrightarrow>
     perm_step (msi_perm_of (cl_state c)) (msi_perm_event ev) (msi_perm_of (t_after t))"
  by (cases "cl_state c"; cases ev) (auto simp: msi_transition_def Let_def perm_order_simps split: if_splits)

interpretation msi: permission_protocol msi_new msi_transition msi_apply msi_replay
  msi_is_stable msi_is_cpu_request msi_is_data_response
  "\<lambda>c ev. MsiError.Busy (cl_agent c) (cl_line c) (cl_state c) ev" msi_perm_of msi_perm_event
proof unfold_locales
  show "msi_apply c ev = res_bind (msi_transition c ev) (\<lambda>t. Inr (commit_transition c ev t, t))" for c ev
    by (fact msi_apply_def)
  show "msi_replay a l (evs @ [ev]) = res_bind (msi_replay a l evs)
      (\<lambda>c. res_bind (msi_apply c ev) (\<lambda>(c', t). Inr c'))" for a l evs ev
    by (simp add: msi_replay_def res_foldl_snoc)
  show "\<exists>ev t. msi_is_data_response ev \<and> msi_transition c ev = Inr t"
    if "\<not> msi_is_stable (cl_state c)" for c
    using that by (rule msi_transient_progress)
qed (auto simp: msi_new_def msi_replay_def msi_is_stable_def msi_event_predicates msi_transition_label
      msi_stable_cpu msi_transient_cpu msi_perm_sim
      dest: msi_data_completes msi_snoop_stable)

section \<open>The snapshot check decides single-writer/multiple-reader\<close>

lemma msi_validate_iff:
  "msi_validate snap = Inr () \<longleftrightarrow>
     length (select msi_is_modified (ls_caches snap)) \<le> 1 \<and>
     (select msi_is_modified (ls_caches snap) = [] \<or> select (\<lambda>s. s = MsiState.Shared) (ls_caches snap) = [])"
  by (auto simp: msi_validate_def Let_def split: list.splits)

lemma msi_owner_iff: "msi_is_modified s \<longleftrightarrow> held (msi_perm_of s) = WritePerm"
  by (cases s) (simp_all add: msi_state_predicates)

lemma msi_sharer_iff: "s = MsiState.Shared \<longleftrightarrow> held (msi_perm_of s) = ReadPerm"
  by (cases s) (simp_all add: msi_state_predicates)

lemma msi_validate_swmr:
  "msi_validate snap = Inr () \<longleftrightarrow> swmr msi_perm_of (ls_caches snap)"
  unfolding msi_validate_iff
  by (rule owners_and_sharers_swmr) (rule msi_owner_iff, rule msi_sharer_iff)

section \<open>Properties\<close>

text \<open>
  C23. Refinement.  Every successful replay of MSI events from a new line is a run of the abstract
  permission machine: loads and stores hit only with the permission they need, misses wait for
  it, responses grant at least what was asked, snoops demote or revoke.
\<close>

theorem msi_refines_permissions:
  assumes "msi_replay agent line events = Inr c"
  shows "perm_run (Stable NoPerm) (map msi_perm_event events) (msi_perm_of (cl_state c))"
  using assms by (rule msi.replay_perm_run)

theorem msi_refines_permissions_witness:
  "\<exists>c. msi_replay 1 64 [MsiEvent.CpuRead, MsiEvent.DataShared, MsiEvent.CpuWrite, MsiEvent.DataModified] = Inr c \<and>
     perm_run (Stable NoPerm) (map msi_perm_event [MsiEvent.CpuRead, MsiEvent.DataShared, MsiEvent.CpuWrite, MsiEvent.DataModified]) (Stable WritePerm)"
proof -
  obtain c where c: "msi_replay 1 64 [MsiEvent.CpuRead, MsiEvent.DataShared, MsiEvent.CpuWrite, MsiEvent.DataModified] = Inr c"
    and "msi_perm_of (cl_state c) = Stable WritePerm"
    by (simp add: msi_replay_def msi_new_def msi_apply_def msi_transition_def commit_transition_def)
  then show ?thesis using msi_refines_permissions [OF c] by auto
qed

end
