(* ===== verification/Protocol_Mesi.thy ===== *)
theory Protocol_Mesi
  imports Line_Protocol
begin

text \<open>
  The MESI cache-line protocol of \<^verbatim>\<open>crates/rem6-protocol-mesi/src/lib.rs\<close>: states, events,
  actions and errors, the transition table of one line, its application with the trace, replay
  of an event sequence, and the check of a directory snapshot of all copies of a line.
\<close>

section \<open>Data\<close>

datatype MesiState =
    Invalid | Shared | Exclusive | Modified | InvalidToShared | InvalidToExclusive
  | InvalidToModified | SharedToModified

definition mesi_is_stable :: "MesiState \<Rightarrow> bool" where
  "mesi_is_stable s \<longleftrightarrow> s \<in> {MesiState.Invalid, MesiState.Shared, MesiState.Exclusive, MesiState.Modified}"

definition mesi_is_valid :: "MesiState \<Rightarrow> bool" where
  "mesi_is_valid s \<longleftrightarrow> s \<in> {MesiState.Shared, MesiState.Exclusive, MesiState.Modified}"

definition mesi_is_owned :: "MesiState \<Rightarrow> bool" where
  "mesi_is_owned s \<longleftrightarrow> s \<in> {MesiState.Exclusive, MesiState.Modified}"

definition mesi_is_dirty :: "MesiState \<Rightarrow> bool" where
  "mesi_is_dirty s \<longleftrightarrow> s \<in> {MesiState.Modified}"

definition mesi_is_transient :: "MesiState \<Rightarrow> bool" where
  "mesi_is_transient s \<longleftrightarrow> \<not> mesi_is_stable s"

datatype MesiEvent =
    CpuRead | CpuWrite | DataShared | DataExclusive | DataModified | SnoopRead | SnoopWrite

definition mesi_is_cpu_request :: "MesiEvent \<Rightarrow> bool" where
  "mesi_is_cpu_request ev \<longleftrightarrow> ev \<in> {MesiEvent.CpuRead, MesiEvent.CpuWrite}"

definition mesi_is_data_response :: "MesiEvent \<Rightarrow> bool" where
  "mesi_is_data_response ev \<longleftrightarrow> ev \<in> {MesiEvent.DataShared, MesiEvent.DataExclusive, MesiEvent.DataModified}"

lemmas mesi_state_predicates =
  mesi_is_stable_def mesi_is_transient_def mesi_is_valid_def mesi_is_owned_def mesi_is_dirty_def

lemmas mesi_event_predicates = mesi_is_cpu_request_def mesi_is_data_response_def

datatype MesiAction =
    ReadHit address | WriteHit address | SendGetShared address | SendGetModified address
  | InstallShared address | InstallExclusive address | InstallModified address
  | WakeRequester address | SupplyData address | DowngradeToShared address | Invalidate address
  | SilentUpgrade address | Ignore address

datatype MesiError =
    Busy agent_id address MesiState MesiEvent
  | UnexpectedEvent agent_id address MesiState MesiEvent
  | ForcedTransientState agent_id address MesiState
  | MultipleOwnedCopies address "agent_id list"
  | OwnedWithSharers address agent_id "agent_id list"

type_synonym MesiTransition = "(MesiState, MesiEvent, MesiAction) line_transition"
type_synonym MesiTraceEntry = "(MesiState, MesiEvent) trace_entry"
type_synonym MesiCacheLine = "(MesiState, MesiEvent) cache_line"
type_synonym MesiDirectoryLineSnapshot = "MesiState line_snapshot"

section \<open>Operations of a line\<close>

definition mesi_new :: "agent_id \<Rightarrow> address \<Rightarrow> MesiCacheLine" where
  "mesi_new agent line =
     \<lparr>cl_agent = agent, cl_line = line, cl_state = MesiState.Invalid, cl_trace = []\<rparr>"

definition mesi_force_state :: "MesiCacheLine \<Rightarrow> MesiState \<Rightarrow> MesiError + MesiCacheLine" where
  "mesi_force_state c s =
     (if mesi_is_transient s then Inl (MesiError.ForcedTransientState (cl_agent c) (cl_line c) s)
      else Inr (c\<lparr>cl_state := s\<rparr>))"

definition mesi_transition :: "MesiCacheLine \<Rightarrow> MesiEvent \<Rightarrow> MesiError + MesiTransition" where
  "mesi_transition c ev =
    (let line = cl_line c;
         ok = (\<lambda>after actions. Inr \<lparr>t_before = cl_state c, t_event = ev,
                                  t_after = after, t_actions = actions\<rparr>)
     in case (cl_state c, ev) of
       (MesiState.Invalid, MesiEvent.CpuRead) \<Rightarrow>
         ok MesiState.InvalidToExclusive [MesiAction.SendGetShared line]
     | (MesiState.Invalid, MesiEvent.CpuWrite) \<Rightarrow>
         ok MesiState.InvalidToModified [MesiAction.SendGetModified line]
     | (MesiState.Invalid, MesiEvent.SnoopRead) \<Rightarrow>
         ok MesiState.Invalid [MesiAction.Ignore line]
     | (MesiState.Invalid, MesiEvent.SnoopWrite) \<Rightarrow>
         ok MesiState.Invalid [MesiAction.Ignore line]
     | (MesiState.Shared, MesiEvent.CpuRead) \<Rightarrow>
         ok MesiState.Shared [MesiAction.ReadHit line]
     | (MesiState.Shared, MesiEvent.CpuWrite) \<Rightarrow>
         ok MesiState.SharedToModified [MesiAction.SendGetModified line]
     | (MesiState.Shared, MesiEvent.SnoopRead) \<Rightarrow>
         ok MesiState.Shared [MesiAction.Ignore line]
     | (MesiState.Shared, MesiEvent.SnoopWrite) \<Rightarrow>
         ok MesiState.Invalid [MesiAction.Invalidate line]
     | (MesiState.Exclusive, MesiEvent.CpuRead) \<Rightarrow>
         ok MesiState.Exclusive [MesiAction.ReadHit line]
     | (MesiState.Exclusive, MesiEvent.CpuWrite) \<Rightarrow>
         ok MesiState.Modified [MesiAction.SilentUpgrade line, MesiAction.WriteHit line]
     | (MesiState.Exclusive, MesiEvent.SnoopRead) \<Rightarrow>
         ok MesiState.Shared [MesiAction.SupplyData line, MesiAction.DowngradeToShared line]
     | (MesiState.Exclusive, MesiEvent.SnoopWrite) \<Rightarrow>
         ok MesiState.Invalid [MesiAction.Invalidate line]
     | (MesiState.Modified, MesiEvent.CpuRead) \<Rightarrow>
         ok MesiState.Modified [MesiAction.ReadHit line]
     | (MesiState.Modified, MesiEvent.CpuWrite) \<Rightarrow>
         ok MesiState.Modified [MesiAction.WriteHit line]
     | (MesiState.Modified, MesiEvent.SnoopRead) \<Rightarrow>
         ok MesiState.Shared [MesiAction.SupplyData line, MesiAction.DowngradeToShared line]
     | (MesiState.Modified, MesiEvent.SnoopWrite) \<Rightarrow>
         ok MesiState.Invalid [MesiAction.SupplyData line, MesiAction.Invalidate line]
     | (MesiState.InvalidToShared, MesiEvent.DataShared) \<Rightarrow>
         ok MesiState.Shared [MesiAction.InstallShared line, MesiAction.WakeRequester line]
     | (MesiState.InvalidToExclusive, MesiEvent.DataShared) \<Rightarrow>
         ok MesiState.Shared [MesiAction.InstallShared line, MesiAction.WakeRequester line]
     | (MesiState.InvalidToExclusive, MesiEvent.DataExclusive) \<Rightarrow>
         ok MesiState.Exclusive [MesiAction.InstallExclusive line, MesiAction.WakeRequester line]
     | (MesiState.InvalidToModified, MesiEvent.DataModified) \<Rightarrow>
         ok MesiState.Modified [MesiAction.InstallModified line, MesiAction.WakeRequester line]
     | (MesiState.SharedToModified, MesiEvent.DataModified) \<Rightarrow>
         ok MesiState.Modified [MesiAction.InstallModified line, MesiAction.WakeRequester line]
     | (s, e) \<Rightarrow>
         if mesi_is_transient s \<and> mesi_is_cpu_request e
         then Inl (MesiError.Busy (cl_agent c) line s e)
         else Inl (MesiError.UnexpectedEvent (cl_agent c) line s e))"

definition mesi_apply :: "MesiCacheLine \<Rightarrow> MesiEvent \<Rightarrow> MesiError + MesiCacheLine \<times> MesiTransition" where
  "mesi_apply c ev = res_bind (mesi_transition c ev) (\<lambda>t. Inr (commit_transition c ev t, t))"

definition mesi_replay :: "agent_id \<Rightarrow> address \<Rightarrow> MesiEvent list \<Rightarrow> MesiError + MesiCacheLine" where
  "mesi_replay agent line events =
     res_foldl (\<lambda>c ev. res_bind (mesi_apply c ev) (\<lambda>(c', t). Inr c')) (mesi_new agent line) events"

section \<open>The check of all copies of a line\<close>

definition mesi_snapshot_new :: "address \<Rightarrow> MesiDirectoryLineSnapshot" where
  "mesi_snapshot_new line = \<lparr>ls_line = line, ls_caches = []\<rparr>"

definition mesi_with_cache ::
  "MesiDirectoryLineSnapshot \<Rightarrow> agent_id \<Rightarrow> MesiState \<Rightarrow> MesiDirectoryLineSnapshot" where
  "mesi_with_cache snap agent s = snap\<lparr>ls_caches := ls_caches snap @ [(agent, s)]\<rparr>"

definition mesi_validate :: "MesiDirectoryLineSnapshot \<Rightarrow> MesiError + unit" where
  "mesi_validate snap =
    (let owners = select mesi_is_owned (ls_caches snap) in
     if 1 < length owners then Inl (MesiError.MultipleOwnedCopies (ls_line snap) owners)
     else case owners of
       [] \<Rightarrow> Inr ()
     | owner # _ \<Rightarrow>
         (let sharers = select (\<lambda>s. s = MesiState.Shared) (ls_caches snap) in
          if sharers \<noteq> [] then Inl (MesiError.OwnedWithSharers (ls_line snap) owner sharers)
          else Inr ()))"

section \<open>The contract\<close>

lemma mesi_transition_label:
  "mesi_transition c ev = Inr t \<Longrightarrow> t_before t = cl_state c \<and> t_event t = ev"
  by (cases "cl_state c"; cases ev) (auto simp: mesi_transition_def Let_def split: if_splits)

lemma mesi_stable_cpu:
  "mesi_is_stable (cl_state c) \<Longrightarrow> mesi_is_cpu_request ev \<Longrightarrow> \<exists>t. mesi_transition c ev = Inr t"
  by (cases "cl_state c"; cases ev)
     (simp_all add: mesi_transition_def Let_def mesi_state_predicates mesi_event_predicates)

lemma mesi_transient_cpu:
  "\<not> mesi_is_stable (cl_state c) \<Longrightarrow> mesi_is_cpu_request ev \<Longrightarrow>
     mesi_transition c ev = Inl (MesiError.Busy (cl_agent c) (cl_line c) (cl_state c) ev)"
  by (cases "cl_state c"; cases ev)
     (simp_all add: mesi_transition_def Let_def mesi_state_predicates mesi_event_predicates)

lemma mesi_data_completes:
  "mesi_transition c ev = Inr t \<Longrightarrow> mesi_is_data_response ev \<Longrightarrow>
     \<not> mesi_is_stable (cl_state c) \<and> mesi_is_stable (t_after t)"
  by (cases "cl_state c"; cases ev)
     (auto simp: mesi_transition_def Let_def mesi_state_predicates mesi_event_predicates)

lemma mesi_snoop_stable:
  "mesi_transition c ev = Inr t \<Longrightarrow> \<not> mesi_is_cpu_request ev \<Longrightarrow> \<not> mesi_is_data_response ev \<Longrightarrow>
     mesi_is_stable (cl_state c) \<and> mesi_is_stable (t_after t)"
  by (cases "cl_state c"; cases ev)
     (auto simp: mesi_transition_def Let_def mesi_state_predicates mesi_event_predicates)

fun mesi_response :: "MesiState \<Rightarrow> MesiEvent" where
  "mesi_response MesiState.InvalidToShared = MesiEvent.DataShared"
| "mesi_response MesiState.InvalidToExclusive = MesiEvent.DataExclusive"
| "mesi_response _ = MesiEvent.DataModified"

lemma mesi_transient_progress:
  "\<not> mesi_is_stable (cl_state c) \<Longrightarrow> \<exists>ev t. mesi_is_data_response ev \<and> mesi_transition c ev = Inr t"
  by (rule exI [of _ "mesi_response (cl_state c)"], cases "cl_state c")
     (auto simp: mesi_transition_def Let_def mesi_state_predicates mesi_event_predicates)

text \<open>The permission a state stands for and the permission event a protocol event stands for.\<close>

fun mesi_perm_of :: "MesiState \<Rightarrow> perm_state" where
  "mesi_perm_of MesiState.Invalid = Stable NoPerm"
| "mesi_perm_of MesiState.Shared = Stable ReadPerm"
| "mesi_perm_of MesiState.Exclusive = Stable WritePerm"
| "mesi_perm_of MesiState.Modified = Stable WritePerm"
| "mesi_perm_of MesiState.InvalidToShared = Pending ReadPerm"
| "mesi_perm_of MesiState.InvalidToExclusive = Pending ReadPerm"
| "mesi_perm_of MesiState.InvalidToModified = Pending WritePerm"
| "mesi_perm_of MesiState.SharedToModified = Pending WritePerm"

fun mesi_perm_event :: "MesiEvent \<Rightarrow> perm_event" where
  "mesi_perm_event MesiEvent.CpuRead = Load"
| "mesi_perm_event MesiEvent.CpuWrite = Store"
| "mesi_perm_event MesiEvent.DataShared = Fill ReadPerm"
| "mesi_perm_event MesiEvent.DataExclusive = Fill WritePerm"
| "mesi_perm_event MesiEvent.DataModified = Fill WritePerm"
| "mesi_perm_event MesiEvent.SnoopRead = Demote"
| "mesi_perm_event MesiEvent.SnoopWrite = Revoke"

lemma mesi_perm_sim:
  "mesi_transition c ev = Inr t \<Longrightarrow>
     perm_step (mesi_perm_of (cl_state c)) (mesi_perm_event ev) (mesi_perm_of (t_after t))"
  by (cases "cl_state c"; cases ev) (auto simp: mesi_transition_def Let_def perm_order_simps split: if_splits)

interpretation mesi: permission_protocol mesi_new mesi_transition mesi_apply mesi_replay
  mesi_is_stable mesi_is_cpu_request mesi_is_data_response
  "\<lambda>c ev. MesiError.Busy (cl_agent c) (cl_line c) (cl_state c) ev" mesi_perm_of mesi_perm_event
proof unfold_locales
  show "mesi_apply c ev = res_bind (mesi_transition c ev) (\<lambda>t. Inr (commit_transition c ev t, t))" for c ev
    by (fact mesi_apply_def)
  show "mesi_replay a l (evs @ [ev]) = res_bind (mesi_replay a l evs)
      (\<lambda>c. res_bind (mesi_apply c ev) (\<lambda>(c', t). Inr c'))" for a l evs ev
    by (simp add: mesi_replay_def res_foldl_snoc)
  show "\<exists>ev t. mesi_is_data_response ev \<and> mesi_transition c ev = Inr t"
    if "\<not> mesi_is_stable (cl_state c)" for c
    using that by (rule mesi_transient_progress)
qed (auto simp: mesi_new_def mesi_replay_def mesi_is_stable_def mesi_event_predicates mesi_transition_label
      mesi_stable_cpu mesi_transient_cpu mesi_perm_sim
      dest: mesi_data_completes mesi_snoop_stable)

section \<open>The snapshot check decides single-writer/multiple-reader\<close>

lemma mesi_validate_iff:
  "mesi_validate snap = Inr () \<longleftrightarrow>
     length (select mesi_is_owned (ls_caches snap)) \<le> 1 \<and>
     (select mesi_is_owned (ls_caches snap) = [] \<or> select (\<lambda>s. s = MesiState.Shared) (ls_caches snap) = [])"
  by (auto simp: mesi_validate_def Let_def split: list.splits)

lemma mesi_owner_iff: "mesi_is_owned s \<longleftrightarrow> held (mesi_perm_of s) = WritePerm"
  by (cases s) (simp_all add: mesi_state_predicates)

lemma mesi_sharer_iff: "s = MesiState.Shared \<longleftrightarrow> held (mesi_perm_of s) = ReadPerm"
  by (cases s) (simp_all add: mesi_state_predicates)

lemma mesi_validate_swmr:
  "mesi_validate snap = Inr () \<longleftrightarrow> swmr mesi_perm_of (ls_caches snap)"
  unfolding mesi_validate_iff
  by (rule owners_and_sharers_swmr) (rule mesi_owner_iff, rule mesi_sharer_iff)

section \<open>Properties\<close>

text \<open>
  C24. Refinement.  Every successful replay of MESI events from a new line is a run of the abstract
  permission machine: loads and stores hit only with the permission they need, misses wait for
  it, responses grant at least what was asked, snoops demote or revoke.
\<close>

theorem mesi_refines_permissions:
  assumes "mesi_replay agent line events = Inr c"
  shows "perm_run (Stable NoPerm) (map mesi_perm_event events) (mesi_perm_of (cl_state c))"
  using assms by (rule mesi.replay_perm_run)

theorem mesi_refines_permissions_witness:
  "\<exists>c. mesi_replay 1 64 [MesiEvent.CpuRead, MesiEvent.DataExclusive, MesiEvent.CpuWrite] = Inr c \<and>
     perm_run (Stable NoPerm) (map mesi_perm_event [MesiEvent.CpuRead, MesiEvent.DataExclusive, MesiEvent.CpuWrite]) (Stable WritePerm)"
proof -
  obtain c where c: "mesi_replay 1 64 [MesiEvent.CpuRead, MesiEvent.DataExclusive, MesiEvent.CpuWrite] = Inr c"
    and "mesi_perm_of (cl_state c) = Stable WritePerm"
    by (simp add: mesi_replay_def mesi_new_def mesi_apply_def mesi_transition_def commit_transition_def)
  then show ?thesis using mesi_refines_permissions [OF c] by auto
qed

text \<open>
  C27. The snapshot check of the MESI crate accepts a set of copies exactly when at most one copy has write permission and no other copy is readable while one is writable.
\<close>

theorem mesi_validate_decides:
  "mesi_validate snap = Inr () \<longleftrightarrow> swmr mesi_perm_of (ls_caches snap)"
  by (rule mesi_validate_swmr)

end
