(* ===== verification/Protocol_Moesi.thy ===== *)
theory Protocol_Moesi
  imports Line_Protocol
begin

text \<open>
  The MOESI cache-line protocol of \<^verbatim>\<open>crates/rem6-protocol-moesi/src/lib.rs\<close>: states, events,
  actions and errors, the transition table of one line, its application with the trace, replay
  of an event sequence, and the check of a directory snapshot of all copies of a line.
\<close>

section \<open>Data\<close>

datatype MoesiState =
    Invalid | Shared | Exclusive | Owned | Modified | InvalidToShared | InvalidToExclusive
  | InvalidToModified | SharedToModified | OwnedToModified

definition moesi_is_stable :: "MoesiState \<Rightarrow> bool" where
  "moesi_is_stable s \<longleftrightarrow> s \<in> {MoesiState.Invalid, MoesiState.Shared, MoesiState.Exclusive, MoesiState.Owned, MoesiState.Modified}"

definition moesi_is_valid :: "MoesiState \<Rightarrow> bool" where
  "moesi_is_valid s \<longleftrightarrow> s \<in> {MoesiState.Shared, MoesiState.Exclusive, MoesiState.Owned, MoesiState.Modified}"

definition moesi_is_dirty_owner :: "MoesiState \<Rightarrow> bool" where
  "moesi_is_dirty_owner s \<longleftrightarrow> s \<in> {MoesiState.Owned, MoesiState.Modified}"

definition moesi_is_private_owner :: "MoesiState \<Rightarrow> bool" where
  "moesi_is_private_owner s \<longleftrightarrow> s \<in> {MoesiState.Exclusive, MoesiState.Modified}"

definition moesi_is_transient :: "MoesiState \<Rightarrow> bool" where
  "moesi_is_transient s \<longleftrightarrow> \<not> moesi_is_stable s"

datatype MoesiEvent =
    CpuRead | CpuWrite | DataShared | DataExclusive | DataModified | SnoopRead | SnoopWrite

definition moesi_is_cpu_request :: "MoesiEvent \<Rightarrow> bool" where
  "moesi_is_cpu_request ev \<longleftrightarrow> ev \<in> {MoesiEvent.CpuRead, MoesiEvent.CpuWrite}"

definition moesi_is_data_response :: "MoesiEvent \<Rightarrow> bool" where
  "moesi_is_data_response ev \<longleftrightarrow> ev \<in> {MoesiEvent.DataShared, MoesiEvent.DataExclusive, MoesiEvent.DataModified}"

lemmas moesi_state_predicates =
  moesi_is_stable_def moesi_is_transient_def moesi_is_valid_def moesi_is_dirty_owner_def moesi_is_private_owner_def

lemmas moesi_event_predicates = moesi_is_cpu_request_def moesi_is_data_response_def

datatype MoesiAction =
    ReadHit address | WriteHit address | SendGetShared address | SendGetModified address
  | InstallShared address | InstallExclusive address | InstallModified address
  | WakeRequester address | SupplyData address | DowngradeToShared address
  | DowngradeToOwned address | Invalidate address | SilentUpgrade address | Ignore address

datatype MoesiError =
    Busy agent_id address MoesiState MoesiEvent
  | UnexpectedEvent agent_id address MoesiState MoesiEvent
  | ForcedTransientState agent_id address MoesiState
  | MultipleDirtyOwners address "agent_id list"
  | MultipleOwners address "agent_id list"
  | ExclusiveWithSharers address agent_id "agent_id list"
  | ModifiedWithSharers address agent_id "agent_id list"

type_synonym MoesiTransition = "(MoesiState, MoesiEvent, MoesiAction) line_transition"
type_synonym MoesiTraceEntry = "(MoesiState, MoesiEvent) trace_entry"
type_synonym MoesiCacheLine = "(MoesiState, MoesiEvent) cache_line"
type_synonym MoesiDirectoryLineSnapshot = "MoesiState line_snapshot"

section \<open>Operations of a line\<close>

definition moesi_new :: "agent_id \<Rightarrow> address \<Rightarrow> MoesiCacheLine" where
  "moesi_new agent line =
     \<lparr>cl_agent = agent, cl_line = line, cl_state = MoesiState.Invalid, cl_trace = []\<rparr>"

definition moesi_force_state :: "MoesiCacheLine \<Rightarrow> MoesiState \<Rightarrow> MoesiError + MoesiCacheLine" where
  "moesi_force_state c s =
     (if moesi_is_transient s then Inl (MoesiError.ForcedTransientState (cl_agent c) (cl_line c) s)
      else Inr (c\<lparr>cl_state := s\<rparr>))"

definition moesi_transition :: "MoesiCacheLine \<Rightarrow> MoesiEvent \<Rightarrow> MoesiError + MoesiTransition" where
  "moesi_transition c ev =
    (let line = cl_line c;
         ok = (\<lambda>after actions. Inr \<lparr>t_before = cl_state c, t_event = ev,
                                  t_after = after, t_actions = actions\<rparr>)
     in case (cl_state c, ev) of
       (MoesiState.Invalid, MoesiEvent.CpuRead) \<Rightarrow>
         ok MoesiState.InvalidToExclusive [MoesiAction.SendGetShared line]
     | (MoesiState.Invalid, MoesiEvent.CpuWrite) \<Rightarrow>
         ok MoesiState.InvalidToModified [MoesiAction.SendGetModified line]
     | (MoesiState.Invalid, MoesiEvent.SnoopRead) \<Rightarrow>
         ok MoesiState.Invalid [MoesiAction.Ignore line]
     | (MoesiState.Invalid, MoesiEvent.SnoopWrite) \<Rightarrow>
         ok MoesiState.Invalid [MoesiAction.Ignore line]
     | (MoesiState.Shared, MoesiEvent.CpuRead) \<Rightarrow>
         ok MoesiState.Shared [MoesiAction.ReadHit line]
     | (MoesiState.Shared, MoesiEvent.CpuWrite) \<Rightarrow>
         ok MoesiState.SharedToModified [MoesiAction.SendGetModified line]
     | (MoesiState.Shared, MoesiEvent.SnoopRead) \<Rightarrow>
         ok MoesiState.Shared [MoesiAction.Ignore line]
     | (MoesiState.Shared, MoesiEvent.SnoopWrite) \<Rightarrow>
         ok MoesiState.Invalid [MoesiAction.Invalidate line]
     | (MoesiState.Exclusive, MoesiEvent.CpuRead) \<Rightarrow>
         ok MoesiState.Exclusive [MoesiAction.ReadHit line]
     | (MoesiState.Exclusive, MoesiEvent.CpuWrite) \<Rightarrow>
         ok MoesiState.Modified [MoesiAction.SilentUpgrade line, MoesiAction.WriteHit line]
     | (MoesiState.Exclusive, MoesiEvent.SnoopRead) \<Rightarrow>
         ok MoesiState.Shared [MoesiAction.SupplyData line, MoesiAction.DowngradeToShared line]
     | (MoesiState.Exclusive, MoesiEvent.SnoopWrite) \<Rightarrow>
         ok MoesiState.Invalid [MoesiAction.Invalidate line]
     | (MoesiState.Owned, MoesiEvent.CpuRead) \<Rightarrow>
         ok MoesiState.Owned [MoesiAction.ReadHit line]
     | (MoesiState.Owned, MoesiEvent.CpuWrite) \<Rightarrow>
         ok MoesiState.OwnedToModified [MoesiAction.SendGetModified line]
     | (MoesiState.Owned, MoesiEvent.SnoopRead) \<Rightarrow>
         ok MoesiState.Owned [MoesiAction.SupplyData line]
     | (MoesiState.Owned, MoesiEvent.SnoopWrite) \<Rightarrow>
         ok MoesiState.Invalid [MoesiAction.SupplyData line, MoesiAction.Invalidate line]
     | (MoesiState.Modified, MoesiEvent.CpuRead) \<Rightarrow>
         ok MoesiState.Modified [MoesiAction.ReadHit line]
     | (MoesiState.Modified, MoesiEvent.CpuWrite) \<Rightarrow>
         ok MoesiState.Modified [MoesiAction.WriteHit line]
     | (MoesiState.Modified, MoesiEvent.SnoopRead) \<Rightarrow>
         ok MoesiState.Owned [MoesiAction.SupplyData line, MoesiAction.DowngradeToOwned line]
     | (MoesiState.Modified, MoesiEvent.SnoopWrite) \<Rightarrow>
         ok MoesiState.Invalid [MoesiAction.SupplyData line, MoesiAction.Invalidate line]
     | (MoesiState.InvalidToShared, MoesiEvent.DataShared) \<Rightarrow>
         ok MoesiState.Shared [MoesiAction.InstallShared line, MoesiAction.WakeRequester line]
     | (MoesiState.InvalidToExclusive, MoesiEvent.DataShared) \<Rightarrow>
         ok MoesiState.Shared [MoesiAction.InstallShared line, MoesiAction.WakeRequester line]
     | (MoesiState.InvalidToExclusive, MoesiEvent.DataExclusive) \<Rightarrow>
         ok MoesiState.Exclusive [MoesiAction.InstallExclusive line, MoesiAction.WakeRequester line]
     | (MoesiState.InvalidToModified, MoesiEvent.DataModified) \<Rightarrow>
         ok MoesiState.Modified [MoesiAction.InstallModified line, MoesiAction.WakeRequester line]
     | (MoesiState.SharedToModified, MoesiEvent.DataModified) \<Rightarrow>
         ok MoesiState.Modified [MoesiAction.InstallModified line, MoesiAction.WakeRequester line]
     | (MoesiState.OwnedToModified, MoesiEvent.DataModified) \<Rightarrow>
         ok MoesiState.Modified [MoesiAction.InstallModified line, MoesiAction.WakeRequester line]
     | (s, e) \<Rightarrow>
         if moesi_is_transient s \<and> moesi_is_cpu_request e
         then Inl (MoesiError.Busy (cl_agent c) line s e)
         else Inl (MoesiError.UnexpectedEvent (cl_agent c) line s e))"

definition moesi_apply :: "MoesiCacheLine \<Rightarrow> MoesiEvent \<Rightarrow> MoesiError + MoesiCacheLine \<times> MoesiTransition" where
  "moesi_apply c ev = res_bind (moesi_transition c ev) (\<lambda>t. Inr (commit_transition c ev t, t))"

definition moesi_replay :: "agent_id \<Rightarrow> address \<Rightarrow> MoesiEvent list \<Rightarrow> MoesiError + MoesiCacheLine" where
  "moesi_replay agent line events =
     res_foldl (\<lambda>c ev. res_bind (moesi_apply c ev) (\<lambda>(c', t). Inr c')) (moesi_new agent line) events"

section \<open>The check of all copies of a line\<close>

definition moesi_snapshot_new :: "address \<Rightarrow> MoesiDirectoryLineSnapshot" where
  "moesi_snapshot_new line = \<lparr>ls_line = line, ls_caches = []\<rparr>"

definition moesi_with_cache ::
  "MoesiDirectoryLineSnapshot \<Rightarrow> agent_id \<Rightarrow> MoesiState \<Rightarrow> MoesiDirectoryLineSnapshot" where
  "moesi_with_cache snap agent s = snap\<lparr>ls_caches := ls_caches snap @ [(agent, s)]\<rparr>"

definition moesi_validate :: "MoesiDirectoryLineSnapshot \<Rightarrow> MoesiError + unit" where
  "moesi_validate snap =
    (let dirty_owners = select moesi_is_dirty_owner (ls_caches snap);
         owners = select (\<lambda>s. s \<in> {MoesiState.Exclusive, MoesiState.Owned, MoesiState.Modified})
           (ls_caches snap);
         exclusive = find_map (\<lambda>(agent, s). if s = MoesiState.Exclusive then Some agent else None)
           (ls_caches snap);
         modified = find_map (\<lambda>(agent, s). if s = MoesiState.Modified then Some agent else None)
           (ls_caches snap);
         exclusive_sharers = select (\<lambda>s. s \<in> {MoesiState.Shared, MoesiState.Owned}) (ls_caches snap);
         modified_sharers = select (\<lambda>s. s = MoesiState.Shared) (ls_caches snap)
     in if 1 < length dirty_owners then Inl (MoesiError.MultipleDirtyOwners (ls_line snap) dirty_owners)
        else if 1 < length owners then Inl (MoesiError.MultipleOwners (ls_line snap) owners)
        else if exclusive \<noteq> None \<and> exclusive_sharers \<noteq> [] then
          Inl (MoesiError.ExclusiveWithSharers (ls_line snap) (the exclusive) exclusive_sharers)
        else if modified \<noteq> None \<and> modified_sharers \<noteq> [] then
          Inl (MoesiError.ModifiedWithSharers (ls_line snap) (the modified) modified_sharers)
        else Inr ())"

section \<open>The contract\<close>

lemma moesi_transition_label:
  "moesi_transition c ev = Inr t \<Longrightarrow> t_before t = cl_state c \<and> t_event t = ev"
  by (cases "cl_state c"; cases ev) (auto simp: moesi_transition_def Let_def split: if_splits)

lemma moesi_stable_cpu:
  "moesi_is_stable (cl_state c) \<Longrightarrow> moesi_is_cpu_request ev \<Longrightarrow> \<exists>t. moesi_transition c ev = Inr t"
  by (cases "cl_state c"; cases ev)
     (simp_all add: moesi_transition_def Let_def moesi_state_predicates moesi_event_predicates)

lemma moesi_transient_cpu:
  "\<not> moesi_is_stable (cl_state c) \<Longrightarrow> moesi_is_cpu_request ev \<Longrightarrow>
     moesi_transition c ev = Inl (MoesiError.Busy (cl_agent c) (cl_line c) (cl_state c) ev)"
  by (cases "cl_state c"; cases ev)
     (simp_all add: moesi_transition_def Let_def moesi_state_predicates moesi_event_predicates)

lemma moesi_data_completes:
  "moesi_transition c ev = Inr t \<Longrightarrow> moesi_is_data_response ev \<Longrightarrow>
     \<not> moesi_is_stable (cl_state c) \<and> moesi_is_stable (t_after t)"
  by (cases "cl_state c"; cases ev)
     (auto simp: moesi_transition_def Let_def moesi_state_predicates moesi_event_predicates)

lemma moesi_snoop_stable:
  "moesi_transition c ev = Inr t \<Longrightarrow> \<not> moesi_is_cpu_request ev \<Longrightarrow> \<not> moesi_is_data_response ev \<Longrightarrow>
     moesi_is_stable (cl_state c) \<and> moesi_is_stable (t_after t)"
  by (cases "cl_state c"; cases ev)
     (auto simp: moesi_transition_def Let_def moesi_state_predicates moesi_event_predicates)

fun moesi_response :: "MoesiState \<Rightarrow> MoesiEvent" where
  "moesi_response MoesiState.InvalidToShared = MoesiEvent.DataShared"
| "moesi_response MoesiState.InvalidToExclusive = MoesiEvent.DataExclusive"
| "moesi_response _ = MoesiEvent.DataModified"

lemma moesi_transient_progress:
  "\<not> moesi_is_stable (cl_state c) \<Longrightarrow> \<exists>ev t. moesi_is_data_response ev \<and> moesi_transition c ev = Inr t"
  by (rule exI [of _ "moesi_response (cl_state c)"], cases "cl_state c")
     (auto simp: moesi_transition_def Let_def moesi_state_predicates moesi_event_predicates)

text \<open>The permission a state stands for and the permission event a protocol event stands for.\<close>

fun moesi_perm_of :: "MoesiState \<Rightarrow> perm_state" where
  "moesi_perm_of MoesiState.Invalid = Stable NoPerm"
| "moesi_perm_of MoesiState.Shared = Stable ReadPerm"
| "moesi_perm_of MoesiState.Exclusive = Stable WritePerm"
| "moesi_perm_of MoesiState.Owned = Stable ReadPerm"
| "moesi_perm_of MoesiState.Modified = Stable WritePerm"
| "moesi_perm_of MoesiState.InvalidToShared = Pending ReadPerm"
| "moesi_perm_of MoesiState.InvalidToExclusive = Pending ReadPerm"
| "moesi_perm_of MoesiState.InvalidToModified = Pending WritePerm"
| "moesi_perm_of MoesiState.SharedToModified = Pending WritePerm"
| "moesi_perm_of MoesiState.OwnedToModified = Pending WritePerm"

fun moesi_perm_event :: "MoesiEvent \<Rightarrow> perm_event" where
  "moesi_perm_event MoesiEvent.CpuRead = Load"
| "moesi_perm_event MoesiEvent.CpuWrite = Store"
| "moesi_perm_event MoesiEvent.DataShared = Fill ReadPerm"
| "moesi_perm_event MoesiEvent.DataExclusive = Fill WritePerm"
| "moesi_perm_event MoesiEvent.DataModified = Fill WritePerm"
| "moesi_perm_event MoesiEvent.SnoopRead = Demote"
| "moesi_perm_event MoesiEvent.SnoopWrite = Revoke"

lemma moesi_perm_sim:
  "moesi_transition c ev = Inr t \<Longrightarrow>
     perm_step (moesi_perm_of (cl_state c)) (moesi_perm_event ev) (moesi_perm_of (t_after t))"
  by (cases "cl_state c"; cases ev) (auto simp: moesi_transition_def Let_def perm_order_simps split: if_splits)

interpretation moesi: permission_protocol moesi_new moesi_transition moesi_apply moesi_replay
  moesi_is_stable moesi_is_cpu_request moesi_is_data_response
  "\<lambda>c ev. MoesiError.Busy (cl_agent c) (cl_line c) (cl_state c) ev" moesi_perm_of moesi_perm_event
proof unfold_locales
  show "moesi_apply c ev = res_bind (moesi_transition c ev) (\<lambda>t. Inr (commit_transition c ev t, t))" for c ev
    by (fact moesi_apply_def)
  show "moesi_replay a l (evs @ [ev]) = res_bind (moesi_replay a l evs)
      (\<lambda>c. res_bind (moesi_apply c ev) (\<lambda>(c', t). Inr c'))" for a l evs ev
    by (simp add: moesi_replay_def res_foldl_snoc)
  show "\<exists>ev t. moesi_is_data_response ev \<and> moesi_transition c ev = Inr t"
    if "\<not> moesi_is_stable (cl_state c)" for c
    using that by (rule moesi_transient_progress)
qed (auto simp: moesi_new_def moesi_replay_def moesi_is_stable_def moesi_event_predicates moesi_transition_label
      moesi_stable_cpu moesi_transient_cpu moesi_perm_sim
      dest: moesi_data_completes moesi_snoop_stable)

section \<open>The snapshot check decides single-writer/multiple-reader\<close>

lemma moesi_find_state:
  "find_map (\<lambda>(agent, t). if t = s then Some agent else None) xs \<noteq> None \<longleftrightarrow>
     select (\<lambda>t. t = s) xs \<noteq> []"
  by (induction xs) (auto split: if_splits)

definition moesi_compatible :: "MoesiState \<Rightarrow> MoesiState \<Rightarrow> bool" where
  "moesi_compatible s t \<longleftrightarrow>
     swmr_pair (held (moesi_perm_of s)) (held (moesi_perm_of t)) \<and>
     \<not> (s = MoesiState.Owned \<and> t = MoesiState.Owned)"

lemma moesi_validate_iff:
  "moesi_validate snap = Inr () \<longleftrightarrow>
     length (select moesi_is_dirty_owner (ls_caches snap)) \<le> 1 \<and>
     length (select (\<lambda>s. s \<in> {MoesiState.Exclusive, MoesiState.Owned, MoesiState.Modified})
       (ls_caches snap)) \<le> 1 \<and>
     (select (\<lambda>t. t = MoesiState.Exclusive) (ls_caches snap) = [] \<or>
      select (\<lambda>s. s \<in> {MoesiState.Shared, MoesiState.Owned}) (ls_caches snap) = []) \<and>
     (select (\<lambda>t. t = MoesiState.Modified) (ls_caches snap) = [] \<or>
      select (\<lambda>s. s = MoesiState.Shared) (ls_caches snap) = [])"
  unfolding moesi_validate_def Let_def moesi_find_state by auto

lemma moesi_validate_compatible:
  "moesi_validate snap = Inr () \<longleftrightarrow>
     sorted_wrt (\<lambda>x y. moesi_compatible (snd x) (snd y)) (ls_caches snap)"
proof -
  let ?own = "\<lambda>s. s \<in> {MoesiState.Exclusive, MoesiState.Owned, MoesiState.Modified}"
  let ?shr = "\<lambda>s. s \<in> {MoesiState.Shared, MoesiState.Owned}"
  have x: "select (\<lambda>t. t = MoesiState.Exclusive) xs = [] \<or> select ?shr xs = [] \<longleftrightarrow>
     sorted_wrt (\<lambda>x y. \<not> (snd x = MoesiState.Exclusive \<and> ?shr (snd y)) \<and>
       \<not> (?shr (snd x) \<and> snd y = MoesiState.Exclusive)) xs" for xs
    by (rule owner_excludes_sharers) auto
  have m: "select (\<lambda>t. t = MoesiState.Modified) xs = [] \<or>
       select (\<lambda>s. s = MoesiState.Shared) xs = [] \<longleftrightarrow>
     sorted_wrt (\<lambda>x y. \<not> (snd x = MoesiState.Modified \<and> snd y = MoesiState.Shared) \<and>
       \<not> (snd x = MoesiState.Shared \<and> snd y = MoesiState.Modified)) xs" for xs
    by (rule owner_excludes_sharers) auto
  have c: "moesi_compatible s t \<longleftrightarrow>
      \<not> (moesi_is_dirty_owner s \<and> moesi_is_dirty_owner t) \<and> \<not> (?own s \<and> ?own t) \<and>
      (\<not> (s = MoesiState.Exclusive \<and> ?shr t) \<and> \<not> (?shr s \<and> t = MoesiState.Exclusive)) \<and>
      (\<not> (s = MoesiState.Modified \<and> t = MoesiState.Shared) \<and>
       \<not> (s = MoesiState.Shared \<and> t = MoesiState.Modified))" for s t
    by (cases s; cases t) (simp_all add: moesi_compatible_def swmr_pair_def moesi_is_dirty_owner_def)
  show ?thesis
    unfolding moesi_validate_iff length_select_le_1 x m sorted_wrt_conj c ..
qed

section \<open>Properties\<close>

text \<open>
  C25. Refinement.  Every successful replay of MOESI events from a new line is a run of the abstract
  permission machine: loads and stores hit only with the permission they need, misses wait for
  it, responses grant at least what was asked, snoops demote or revoke.
\<close>

theorem moesi_refines_permissions:
  assumes "moesi_replay agent line events = Inr c"
  shows "perm_run (Stable NoPerm) (map moesi_perm_event events) (moesi_perm_of (cl_state c))"
  using assms by (rule moesi.replay_perm_run)

theorem moesi_refines_permissions_witness:
  "\<exists>c. moesi_replay 1 64 [MoesiEvent.CpuRead, MoesiEvent.DataExclusive, MoesiEvent.CpuWrite, MoesiEvent.SnoopRead] = Inr c \<and>
     perm_run (Stable NoPerm) (map moesi_perm_event [MoesiEvent.CpuRead, MoesiEvent.DataExclusive, MoesiEvent.CpuWrite, MoesiEvent.SnoopRead]) (Stable ReadPerm)"
proof -
  obtain c where c: "moesi_replay 1 64 [MoesiEvent.CpuRead, MoesiEvent.DataExclusive, MoesiEvent.CpuWrite, MoesiEvent.SnoopRead] = Inr c"
    and "moesi_perm_of (cl_state c) = Stable ReadPerm"
    by (simp add: moesi_replay_def moesi_new_def moesi_apply_def moesi_transition_def commit_transition_def)
  then show ?thesis using moesi_refines_permissions [OF c] by auto
qed

text \<open>
  C28. The snapshot check of the MOESI crate accepts a set of copies exactly when every two copies are compatible: no copy is readable or writable beside a writable one, and at most one copy is Owned.
\<close>

theorem moesi_validate_decides:
  "moesi_validate snap = Inr () \<longleftrightarrow>
     sorted_wrt (\<lambda>x y. moesi_compatible (snd x) (snd y)) (ls_caches snap)"
  by (rule moesi_validate_compatible)

end
