(* ===== verification/Protocol_Chi.thy ===== *)
theory Protocol_Chi
  imports Line_Protocol
begin

text \<open>
  The CHI cache-line protocol of \<^verbatim>\<open>crates/rem6-protocol-chi/src/lib.rs\<close>: states, events,
  actions and errors, the transition table of one line, its application with the trace, replay
  of an event sequence, and the check of a directory snapshot of all copies of a line.
\<close>

section \<open>Data\<close>

datatype ChiState =
    Invalid | SharedClean | SharedDirty | UniqueClean | UniqueDirty | InvalidToSharedClean
  | InvalidToUniqueDirty | SharedCleanToUniqueClean | SharedDirtyToUniqueDirty

definition chi_is_stable :: "ChiState \<Rightarrow> bool" where
  "chi_is_stable s \<longleftrightarrow> s \<in> {ChiState.Invalid, ChiState.SharedClean, ChiState.SharedDirty, ChiState.UniqueClean, ChiState.UniqueDirty}"

definition chi_is_valid :: "ChiState \<Rightarrow> bool" where
  "chi_is_valid s \<longleftrightarrow> s \<in> {ChiState.SharedClean, ChiState.SharedDirty, ChiState.UniqueClean, ChiState.UniqueDirty}"

definition chi_is_shared :: "ChiState \<Rightarrow> bool" where
  "chi_is_shared s \<longleftrightarrow> s \<in> {ChiState.SharedClean, ChiState.SharedDirty}"

definition chi_is_unique :: "ChiState \<Rightarrow> bool" where
  "chi_is_unique s \<longleftrightarrow> s \<in> {ChiState.UniqueClean, ChiState.UniqueDirty}"

definition chi_is_dirty :: "ChiState \<Rightarrow> bool" where
  "chi_is_dirty s \<longleftrightarrow> s \<in> {ChiState.SharedDirty, ChiState.UniqueDirty}"

definition chi_is_transient :: "ChiState \<Rightarrow> bool" where
  "chi_is_transient s \<longleftrightarrow> \<not> chi_is_stable s"

datatype ChiEvent =
    CpuRead | CpuWrite | CompDataSharedClean | CompDataSharedDirty | CompDataUniqueClean
  | CompDataUniqueDirty | SnoopShared | SnoopUnique

definition chi_is_cpu_request :: "ChiEvent \<Rightarrow> bool" where
  "chi_is_cpu_request ev \<longleftrightarrow> ev \<in> {ChiEvent.CpuRead, ChiEvent.CpuWrite}"

definition chi_is_data_response :: "ChiEvent \<Rightarrow> bool" where
  "chi_is_data_response ev \<longleftrightarrow> ev \<in> {ChiEvent.CompDataSharedClean, ChiEvent.CompDataSharedDirty, ChiEvent.CompDataUniqueClean, ChiEvent.CompDataUniqueDirty}"

lemmas chi_state_predicates =
  chi_is_stable_def chi_is_transient_def chi_is_valid_def chi_is_shared_def chi_is_unique_def chi_is_dirty_def

lemmas chi_event_predicates = chi_is_cpu_request_def chi_is_data_response_def

datatype ChiAction =
    ReadHit address | WriteHit address | SendReadShared address | SendReadUnique address
  | SendMakeReadUnique address | InstallSharedClean address | InstallSharedDirty address
  | InstallUniqueClean address | InstallUniqueDirty address | WakeRequester address
  | SnoopData address | DowngradeToSharedClean address | Invalidate address | Ignore address

datatype ChiError =
    Busy agent_id address ChiState ChiEvent
  | UnexpectedEvent agent_id address ChiState ChiEvent
  | ForcedTransientState agent_id address ChiState
  | MultipleUniqueOwners address "agent_id list"
  | UniqueWithSharers address agent_id "agent_id list"

type_synonym ChiTransition = "(ChiState, ChiEvent, ChiAction) line_transition"
type_synonym ChiTraceEntry = "(ChiState, ChiEvent) trace_entry"
type_synonym ChiCacheLine = "(ChiState, ChiEvent) cache_line"
type_synonym ChiDirectoryLineSnapshot = "ChiState line_snapshot"

section \<open>Operations of a line\<close>

definition chi_new :: "agent_id \<Rightarrow> address \<Rightarrow> ChiCacheLine" where
  "chi_new agent line =
     \<lparr>cl_agent = agent, cl_line = line, cl_state = ChiState.Invalid, cl_trace = []\<rparr>"

definition chi_force_state :: "ChiCacheLine \<Rightarrow> ChiState \<Rightarrow> ChiError + ChiCacheLine" where
  "chi_force_state c s =
     (if chi_is_transient s then Inl (ChiError.ForcedTransientState (cl_agent c) (cl_line c) s)
      else Inr (c\<lparr>cl_state := s\<rparr>))"

definition chi_transition :: "ChiCacheLine \<Rightarrow> ChiEvent \<Rightarrow> ChiError + ChiTransition" where
  "chi_transition c ev =
    (let line = cl_line c;
         ok = (\<lambda>after actions. Inr \<lparr>t_before = cl_state c, t_event = ev,
                                  t_after = after, t_actions = actions\<rparr>)
     in case (cl_state c, ev) of
       (ChiState.Invalid, ChiEvent.CpuRead) \<Rightarrow>
         ok ChiState.InvalidToSharedClean [ChiAction.SendReadShared line]
     | (ChiState.Invalid, ChiEvent.CpuWrite) \<Rightarrow>
         ok ChiState.InvalidToUniqueDirty [ChiAction.SendReadUnique line]
     | (ChiState.Invalid, ChiEvent.SnoopShared) \<Rightarrow>
         ok ChiState.Invalid [ChiAction.Ignore line]
     | (ChiState.Invalid, ChiEvent.SnoopUnique) \<Rightarrow>
         ok ChiState.Invalid [ChiAction.Ignore line]
     | (ChiState.SharedClean, ChiEvent.CpuRead) \<Rightarrow>
         ok (cl_state c) [ChiAction.ReadHit line]
     | (ChiState.SharedDirty, ChiEvent.CpuRead) \<Rightarrow>
         ok (cl_state c) [ChiAction.ReadHit line]
     | (ChiState.UniqueClean, ChiEvent.CpuRead) \<Rightarrow>
         ok (cl_state c) [ChiAction.ReadHit line]
     | (ChiState.UniqueDirty, ChiEvent.CpuRead) \<Rightarrow>
         ok (cl_state c) [ChiAction.ReadHit line]
     | (ChiState.SharedClean, ChiEvent.CpuWrite) \<Rightarrow>
         ok ChiState.SharedCleanToUniqueClean [ChiAction.SendMakeReadUnique line]
     | (ChiState.SharedDirty, ChiEvent.CpuWrite) \<Rightarrow>
         ok ChiState.SharedDirtyToUniqueDirty [ChiAction.SendMakeReadUnique line]
     | (ChiState.UniqueClean, ChiEvent.CpuWrite) \<Rightarrow>
         ok ChiState.UniqueDirty [ChiAction.WriteHit line]
     | (ChiState.UniqueDirty, ChiEvent.CpuWrite) \<Rightarrow>
         ok ChiState.UniqueDirty [ChiAction.WriteHit line]
     | (ChiState.SharedClean, ChiEvent.SnoopShared) \<Rightarrow>
         ok ChiState.SharedClean [ChiAction.Ignore line]
     | (ChiState.SharedDirty, ChiEvent.SnoopShared) \<Rightarrow>
         ok ChiState.SharedDirty [ChiAction.SnoopData line]
     | (ChiState.UniqueClean, ChiEvent.SnoopShared) \<Rightarrow>
         ok ChiState.SharedClean [ChiAction.SnoopData line, ChiAction.DowngradeToSharedClean line]
     | (ChiState.UniqueDirty, ChiEvent.SnoopShared) \<Rightarrow>
         ok ChiState.SharedClean [ChiAction.SnoopData line, ChiAction.DowngradeToSharedClean line]
     | (ChiState.SharedClean, ChiEvent.SnoopUnique) \<Rightarrow>
         ok ChiState.Invalid [ChiAction.Invalidate line]
     | (ChiState.SharedDirty, ChiEvent.SnoopUnique) \<Rightarrow>
         ok ChiState.Invalid [ChiAction.Invalidate line]
     | (ChiState.UniqueClean, ChiEvent.SnoopUnique) \<Rightarrow>
         ok ChiState.Invalid [ChiAction.Invalidate line]
     | (ChiState.UniqueDirty, ChiEvent.SnoopUnique) \<Rightarrow>
         ok ChiState.Invalid [ChiAction.SnoopData line, ChiAction.Invalidate line]
     | (ChiState.InvalidToSharedClean, ChiEvent.CompDataSharedClean) \<Rightarrow>
         ok ChiState.SharedClean [ChiAction.InstallSharedClean line, ChiAction.WakeRequester line]
     | (ChiState.InvalidToSharedClean, ChiEvent.CompDataSharedDirty) \<Rightarrow>
         ok ChiState.SharedDirty [ChiAction.InstallSharedDirty line, ChiAction.WakeRequester line]
     | (ChiState.SharedCleanToUniqueClean, ChiEvent.CompDataUniqueClean) \<Rightarrow>
         ok ChiState.UniqueClean [ChiAction.InstallUniqueClean line, ChiAction.WakeRequester line]
     | (ChiState.InvalidToUniqueDirty, ChiEvent.CompDataUniqueDirty) \<Rightarrow>
         ok ChiState.UniqueDirty [ChiAction.InstallUniqueDirty line, ChiAction.WakeRequester line]
     | (ChiState.SharedCleanToUniqueClean, ChiEvent.CompDataUniqueDirty) \<Rightarrow>
         ok ChiState.UniqueDirty [ChiAction.InstallUniqueDirty line, ChiAction.WakeRequester line]
     | (ChiState.SharedDirtyToUniqueDirty, ChiEvent.CompDataUniqueDirty) \<Rightarrow>
         ok ChiState.UniqueDirty [ChiAction.InstallUniqueDirty line, ChiAction.WakeRequester line]
     | (ChiState.InvalidToUniqueDirty, ChiEvent.CompDataUniqueClean) \<Rightarrow>
         ok ChiState.UniqueDirty [ChiAction.InstallUniqueDirty line, ChiAction.WakeRequester line]
     | (ChiState.SharedDirtyToUniqueDirty, ChiEvent.CompDataUniqueClean) \<Rightarrow>
         ok ChiState.UniqueDirty [ChiAction.InstallUniqueDirty line, ChiAction.WakeRequester line]
     | (s, e) \<Rightarrow>
         if chi_is_transient s \<and> chi_is_cpu_request e
         then Inl (ChiError.Busy (cl_agent c) line s e)
         else Inl (ChiError.UnexpectedEvent (cl_agent c) line s e))"

definition chi_apply :: "ChiCacheLine \<Rightarrow> ChiEvent \<Rightarrow> ChiError + ChiCacheLine \<times> ChiTransition" where
  "chi_apply c ev = res_bind (chi_transition c ev) (\<lambda>t. Inr (commit_transition c ev t, t))"

definition chi_replay :: "agent_id \<Rightarrow> address \<Rightarrow> ChiEvent list \<Rightarrow> ChiError + ChiCacheLine" where
  "chi_replay agent line events =
     res_foldl (\<lambda>c ev. res_bind (chi_apply c ev) (\<lambda>(c', t). Inr c')) (chi_new agent line) events"

section \<open>The check of all copies of a line\<close>

definition chi_snapshot_new :: "address \<Rightarrow> ChiDirectoryLineSnapshot" where
  "chi_snapshot_new line = \<lparr>ls_line = line, ls_caches = []\<rparr>"

definition chi_with_cache ::
  "ChiDirectoryLineSnapshot \<Rightarrow> agent_id \<Rightarrow> ChiState \<Rightarrow> ChiDirectoryLineSnapshot" where
  "chi_with_cache snap agent s = snap\<lparr>ls_caches := ls_caches snap @ [(agent, s)]\<rparr>"

definition chi_validate :: "ChiDirectoryLineSnapshot \<Rightarrow> ChiError + unit" where
  "chi_validate snap =
    (let owners = select chi_is_unique (ls_caches snap) in
     if 1 < length owners then Inl (ChiError.MultipleUniqueOwners (ls_line snap) owners)
     else case owners of
       [] \<Rightarrow> Inr ()
     | owner # _ \<Rightarrow>
         (let sharers = select chi_is_shared (ls_caches snap) in
          if sharers \<noteq> [] then Inl (ChiError.UniqueWithSharers (ls_line snap) owner sharers)
          else Inr ()))"

section \<open>The contract\<close>

lemma chi_transition_label:
  "chi_transition c ev = Inr t \<Longrightarrow> t_before t = cl_state c \<and> t_event t = ev"
  by (cases "cl_state c"; cases ev) (auto simp: chi_transition_def Let_def split: if_splits)

lemma chi_stable_cpu:
  "chi_is_stable (cl_state c) \<Longrightarrow> chi_is_cpu_request ev \<Longrightarrow> \<exists>t. chi_transition c ev = Inr t"
  by (cases "cl_state c"; cases ev)
     (simp_all add: chi_transition_def Let_def chi_state_predicates chi_event_predicates)

lemma chi_transient_cpu:
  "\<not> chi_is_stable (cl_state c) \<Longrightarrow> chi_is_cpu_request ev \<Longrightarrow>
     chi_transition c ev = Inl (ChiError.Busy (cl_agent c) (cl_line c) (cl_state c) ev)"
  by (cases "cl_state c"; cases ev)
     (simp_all add: chi_transition_def Let_def chi_state_predicates chi_event_predicates)

lemma chi_data_completes:
  "chi_transition c ev = Inr t \<Longrightarrow> chi_is_data_response ev \<Longrightarrow>
     \<not> chi_is_stable (cl_state c) \<and> chi_is_stable (t_after t)"
  by (cases "cl_state c"; cases ev)
     (auto simp: chi_transition_def Let_def chi_state_predicates chi_event_predicates)

lemma chi_snoop_stable:
  "chi_transition c ev = Inr t \<Longrightarrow> \<not> chi_is_cpu_request ev \<Longrightarrow> \<not> chi_is_data_response ev \<Longrightarrow>
     chi_is_stable (cl_state c) \<and> chi_is_stable (t_after t)"
  by (cases "cl_state c"; cases ev)
     (auto simp: chi_transition_def Let_def chi_state_predicates chi_event_predicates)

fun chi_response :: "ChiState \<Rightarrow> ChiEvent" where
  "chi_response ChiState.InvalidToSharedClean = ChiEvent.CompDataSharedClean"
| "chi_response _ = ChiEvent.CompDataUniqueDirty"

lemma chi_transient_progress:
  "\<not> chi_is_stable (cl_state c) \<Longrightarrow> \<exists>ev t. chi_is_data_response ev \<and> chi_transition c ev = Inr t"
  by (rule exI [of _ "chi_response (cl_state c)"], cases "cl_state c")
     (auto simp: chi_transition_def Let_def chi_state_predicates chi_event_predicates)

text \<open>The permission a state stands for and the permission event a protocol event stands for.\<close>

fun chi_perm_of :: "ChiState \<Rightarrow> perm_state" where
  "chi_perm_of ChiState.Invalid = Stable NoPerm"
| "chi_perm_of ChiState.SharedClean = Stable ReadPerm"
| "chi_perm_of ChiState.SharedDirty = Stable ReadPerm"
| "chi_perm_of ChiState.UniqueClean = Stable WritePerm"
| "chi_perm_of ChiState.UniqueDirty = Stable WritePerm"
| "chi_perm_of ChiState.InvalidToSharedClean = Pending ReadPerm"
| "chi_perm_of ChiState.InvalidToUniqueDirty = Pending WritePerm"
| "chi_perm_of ChiState.SharedCleanToUniqueClean = Pending WritePerm"
| "chi_perm_of ChiState.SharedDirtyToUniqueDirty = Pending WritePerm"

fun chi_perm_event :: "ChiEvent \<Rightarrow> perm_event" where
  "chi_perm_event ChiEvent.CpuRead = Load"
| "chi_perm_event ChiEvent.CpuWrite = Store"
| "chi_perm_event ChiEvent.CompDataSharedClean = Fill ReadPerm"
| "chi_perm_event ChiEvent.CompDataSharedDirty = Fill ReadPerm"
| "chi_perm_event ChiEvent.CompDataUniqueClean = Fill WritePerm"
| "chi_perm_event ChiEvent.CompDataUniqueDirty = Fill WritePerm"
| "chi_perm_event ChiEvent.SnoopShared = Demote"
| "chi_perm_event ChiEvent.SnoopUnique = Revoke"

lemma chi_perm_sim:
  "chi_transition c ev = Inr t \<Longrightarrow>
     perm_step (chi_perm_of (cl_state c)) (chi_perm_event ev) (chi_perm_of (t_after t))"
  by (cases "cl_state c"; cases ev) (auto simp: chi_transition_def Let_def perm_order_simps split: if_splits)

interpretation chi: permission_protocol chi_new chi_transition chi_apply chi_replay
  chi_is_stable chi_is_cpu_request chi_is_data_response
  "\<lambda>c ev. ChiError.Busy (cl_agent c) (cl_line c) (cl_state c) ev" chi_perm_of chi_perm_event
proof unfold_locales
  show "chi_apply c ev = res_bind (chi_transition c ev) (\<lambda>t. Inr (commit_transition c ev t, t))" for c ev
    by (fact chi_apply_def)
  show "chi_replay a l (evs @ [ev]) = res_bind (chi_replay a l evs)
      (\<lambda>c. res_bind (chi_apply c ev) (\<lambda>(c', t). Inr c'))" for a l evs ev
    by (simp add: chi_replay_def res_foldl_snoc)
  show "\<exists>ev t. chi_is_data_response ev \<and> chi_transition c ev = Inr t"
    if "\<not> chi_is_stable (cl_state c)" for c
    using that by (rule chi_transient_progress)
qed (auto simp: chi_new_def chi_replay_def chi_is_stable_def chi_event_predicates chi_transition_label
      chi_stable_cpu chi_transient_cpu chi_perm_sim
      dest: chi_data_completes chi_snoop_stable)

section \<open>The snapshot check decides single-writer/multiple-reader\<close>

lemma chi_validate_iff:
  "chi_validate snap = Inr () \<longleftrightarrow>
     length (select chi_is_unique (ls_caches snap)) \<le> 1 \<and>
     (select chi_is_unique (ls_caches snap) = [] \<or> select chi_is_shared (ls_caches snap) = [])"
  by (auto simp: chi_validate_def Let_def split: list.splits)

lemma chi_owner_iff: "chi_is_unique s \<longleftrightarrow> held (chi_perm_of s) = WritePerm"
  by (cases s) (simp_all add: chi_state_predicates)

lemma chi_sharer_iff: "chi_is_shared s \<longleftrightarrow> held (chi_perm_of s) = ReadPerm"
  by (cases s) (simp_all add: chi_state_predicates)

lemma chi_validate_swmr:
  "chi_validate snap = Inr () \<longleftrightarrow> swmr chi_perm_of (ls_caches snap)"
  unfolding chi_validate_iff
  by (rule owners_and_sharers_swmr) (rule chi_owner_iff, rule chi_sharer_iff)

section \<open>Properties\<close>

text \<open>
  C26. Refinement.  Every successful replay of CHI events from a new line is a run of the abstract
  permission machine: loads and stores hit only with the permission they need, misses wait for
  it, responses grant at least what was asked, snoops demote or revoke.
\<close>

theorem chi_refines_permissions:
  assumes "chi_replay agent line events = Inr c"
  shows "perm_run (Stable NoPerm) (map chi_perm_event events) (chi_perm_of (cl_state c))"
  using assms by (rule chi.replay_perm_run)

theorem chi_refines_permissions_witness:
  "\<exists>c. chi_replay 1 64 [ChiEvent.CpuWrite, ChiEvent.CompDataUniqueDirty, ChiEvent.SnoopShared] = Inr c \<and>
     perm_run (Stable NoPerm) (map chi_perm_event [ChiEvent.CpuWrite, ChiEvent.CompDataUniqueDirty, ChiEvent.SnoopShared]) (Stable ReadPerm)"
proof -
  obtain c where c: "chi_replay 1 64 [ChiEvent.CpuWrite, ChiEvent.CompDataUniqueDirty, ChiEvent.SnoopShared] = Inr c"
    and "chi_perm_of (cl_state c) = Stable ReadPerm"
    by (simp add: chi_replay_def chi_new_def chi_apply_def chi_transition_def commit_transition_def)
  then show ?thesis using chi_refines_permissions [OF c] by auto
qed

end
