(* ===== verification/Memory_Types.thy ===== *)
theory Memory_Types
  imports Rem6_Prelude
begin

unbundle bit_operations_syntax

text \<open>
  The base types of \<^verbatim>\<open>crates/rem6-memory/src/lib.rs\<close> and \<^verbatim>\<open>error.rs\<close>: addresses and
  access sizes, memory operations and their classification, ordering barriers, cache-line
  layouts and address ranges.  The lemmas give the arithmetic meaning of the bit mask that
  computes a line address and of the interval tests on ranges.
\<close>

section \<open>Identifiers, sizes and operations\<close>

type_synonym access_size = u64
type_synonym target_id = u32

record request_id =
  rid_agent :: agent_id
  rid_sequence :: u64

datatype MemoryOperation =
    NoAccess | InstructionFetch | ReadShared | ReadUnique | LoadLocked | LockedRmwRead
  | LockedRmwWrite | Write | CacheBlockZero | StoreConditional | StoreConditionalFail
  | StoreConditionalUpgrade | StoreConditionalUpgradeFail | Upgrade | Atomic | AtomicNoReturn
  | PrefetchRead | PrefetchWrite | WriteClean | WritebackClean | WritebackDirty | CleanShared
  | CleanEvict | Invalidate | InvalidateWritable

datatype MemoryAtomicOp =
    Swap | CompareSwap | Add | Xor | Or | And | MinSigned | MaxSigned | MinUnsigned | MaxUnsigned

record barrier_set =
  bs_read :: bool
  bs_write :: bool

definition barrier_memory :: barrier_set where
  "barrier_memory = \<lparr>bs_read = True, bs_write = True\<rparr>"

record access_ordering =
  ao_before :: "barrier_set option"
  ao_after :: "barrier_set option"

definition ordering_none :: access_ordering where
  "ordering_none = \<lparr>ao_before = None, ao_after = None\<rparr>"

definition is_ordered :: "access_ordering \<Rightarrow> bool" where
  "is_ordered ord \<longleftrightarrow> ao_before ord \<noteq> None \<or> ao_after ord \<noteq> None"

datatype CoherenceIntent =
    IntentNoAccess | IntentInstructionFetch | IntentReadShared | IntentReadUnique
  | IntentWriteUnique | IntentCacheBlockZero | IntentUpgrade | IntentWriteClean
  | IntentWritebackClean | IntentWritebackDirty | IntentCleanShared | IntentCleanEvict
  | IntentInvalidate | IntentInvalidateWritable

definition is_atomic :: "MemoryOperation \<Rightarrow> bool" where
  "is_atomic op \<longleftrightarrow> op \<in> {Atomic, AtomicNoReturn}"

fun coherence_intent :: "MemoryOperation \<Rightarrow> CoherenceIntent" where
  "coherence_intent NoAccess = IntentNoAccess"
| "coherence_intent InstructionFetch = IntentInstructionFetch"
| "coherence_intent ReadShared = IntentReadShared"
| "coherence_intent LoadLocked = IntentReadShared"
| "coherence_intent PrefetchRead = IntentReadShared"
| "coherence_intent ReadUnique = IntentReadUnique"
| "coherence_intent LockedRmwRead = IntentReadUnique"
| "coherence_intent StoreConditionalUpgradeFail = IntentReadUnique"
| "coherence_intent Write = IntentWriteUnique"
| "coherence_intent StoreConditional = IntentWriteUnique"
| "coherence_intent StoreConditionalFail = IntentWriteUnique"
| "coherence_intent LockedRmwWrite = IntentWriteUnique"
| "coherence_intent PrefetchWrite = IntentWriteUnique"
| "coherence_intent Atomic = IntentWriteUnique"
| "coherence_intent AtomicNoReturn = IntentWriteUnique"
| "coherence_intent CacheBlockZero = IntentCacheBlockZero"
| "coherence_intent StoreConditionalUpgrade = IntentUpgrade"
| "coherence_intent Upgrade = IntentUpgrade"
| "coherence_intent WriteClean = IntentWriteClean"
| "coherence_intent WritebackClean = IntentWritebackClean"
| "coherence_intent WritebackDirty = IntentWritebackDirty"
| "coherence_intent CleanShared = IntentCleanShared"
| "coherence_intent CleanEvict = IntentCleanEvict"
| "coherence_intent Invalidate = IntentInvalidate"
| "coherence_intent InvalidateWritable = IntentInvalidateWritable"

definition op_requires_response :: "MemoryOperation \<Rightarrow> bool" where
  "op_requires_response op \<longleftrightarrow> op \<notin>
     {PrefetchRead, PrefetchWrite, WriteClean, WritebackClean, WritebackDirty, CleanEvict}"

definition op_returns_data :: "MemoryOperation \<Rightarrow> bool" where
  "op_returns_data op \<longleftrightarrow> op \<in>
     {InstructionFetch, ReadShared, ReadUnique, LoadLocked, LockedRmwRead,
      StoreConditionalUpgradeFail, Atomic}"

definition op_carries_request_data :: "MemoryOperation \<Rightarrow> bool" where
  "op_carries_request_data op \<longleftrightarrow> op \<in>
     {Write, StoreConditional, StoreConditionalFail, LockedRmwWrite, Atomic, AtomicNoReturn,
      WriteClean, WritebackClean, WritebackDirty}"

definition op_requires_writable :: "MemoryOperation \<Rightarrow> bool" where
  "op_requires_writable op \<longleftrightarrow> op \<in>
     {ReadUnique, LockedRmwRead, Write, CacheBlockZero, StoreConditional, StoreConditionalFail,
      StoreConditionalUpgrade, StoreConditionalUpgradeFail, LockedRmwWrite, Upgrade, Atomic,
      AtomicNoReturn, PrefetchWrite, InvalidateWritable}"

lemmas op_predicates =
  is_atomic_def op_requires_response_def op_returns_data_def op_carries_request_data_def
  op_requires_writable_def

section \<open>Layouts and ranges\<close>

record line_layout =
  layout_bytes :: u64

record address_range =
  range_start :: address
  range_size :: access_size
  range_end :: address

datatype (plugins only: code size) MemoryError =
    ZeroAccessSize
  | AccessSizeTooLarge access_size
  | AddressOverflow address access_size
  | ZeroCacheLineSize
  | NonPowerOfTwoCacheLineSize u64
  | CacheLineSizeTooLarge u64
  | PayloadSizeMismatch access_size u64
  | ByteMaskSizeMismatch access_size u64
  | MissingRequestData request_id
  | UnexpectedRequestData request_id
  | MissingByteMask request_id
  | UnexpectedByteMask request_id
  | MissingAtomicOp request_id
  | UnexpectedAtomicOp request_id
  | MissingAtomicCompare request_id
  | UnexpectedAtomicCompare request_id
  | AtomicCompareSizeMismatch access_size u64
  | UnsupportedAtomicAccessSize request_id MemoryAtomicOp access_size
  | InvalidRequestStreamAttributes request_id
  | UnalignedLineAddress address u64
  | LineLayoutMismatch request_id line_layout line_layout
  | CrossLineAccess request_id address access_size u64
  | UnmappedLine address
  | DuplicateMemoryLine address
  | UnmappedAddress address
  | OverlappingAddressRegion address_range address_range
  | SparseHoleOutsideRange address_range address_range
  | OverlappingSparseHole address_range address_range
  | ZeroInterleaveStripes
  | InterleaveMatchOutOfRange u32 u32
  | RequestCrossesAddressRegion request_id address_range
  | AccessCrossesAddressRegion address_range
  | DuplicateMemoryTarget target_id
  | UnknownMemoryTarget target_id
  | MissingResponseData request_id
  | UnexpectedResponseData request_id
  | InvalidResponseDataLength request_id nat
  | ResponseNotExpected request_id
  | InvalidStoreConditionalFailureResponse request_id

abbreviation MAX_VECTOR_ALLOCATION_BYTES :: u64 where
  "MAX_VECTOR_ALLOCATION_BYTES \<equiv> 9223372036854775807"

definition access_size_new :: "u64 \<Rightarrow> MemoryError + access_size" where
  "access_size_new bytes = (if bytes = 0 then Inl ZeroAccessSize else Inr bytes)"

definition access_size_as_usize :: "access_size \<Rightarrow> MemoryError + nat" where
  "access_size_as_usize sz =
     (if sz > MAX_VECTOR_ALLOCATION_BYTES then Inl (AccessSizeTooLarge sz) else Inr (unat sz))"

text \<open>\<open>u64::is_power_of_two\<close>.\<close>

definition is_power_of_two :: "u64 \<Rightarrow> bool" where
  "is_power_of_two w = list_ex (\<lambda>k. w = push_bit k 1) [0..<64]"

definition layout_new :: "u64 \<Rightarrow> MemoryError + line_layout" where
  "layout_new bytes =
     (if bytes = 0 then Inl ZeroCacheLineSize
      else if \<not> is_power_of_two bytes then Inl (NonPowerOfTwoCacheLineSize bytes)
      else if bytes > MAX_VECTOR_ALLOCATION_BYTES then Inl (CacheLineSizeTooLarge bytes)
      else Inr \<lparr>layout_bytes = bytes\<rparr>)"

definition line_address :: "line_layout \<Rightarrow> address \<Rightarrow> address" where
  "line_address l a = a AND NOT (layout_bytes l - 1)"

definition line_offset :: "line_layout \<Rightarrow> address \<Rightarrow> u64" where
  "line_offset l a = a - line_address l a"

definition line_span :: "line_layout \<Rightarrow> address_range \<Rightarrow> u64" where
  "line_span l r =
     (let first = line_address l (range_start r);
          last = line_address l (range_end r - 1)
      in (last - first) div layout_bytes l + 1)"

definition range_new :: "address \<Rightarrow> access_size \<Rightarrow> MemoryError + address_range" where
  "range_new start sz =
     (if unat start + unat sz < U64_RANGE
      then Inr \<lparr>range_start = start, range_size = sz, range_end = start + sz\<rparr>
      else Inl (AddressOverflow start sz))"

definition range_contains :: "address_range \<Rightarrow> address \<Rightarrow> bool" where
  "range_contains r a \<longleftrightarrow> range_start r \<le> a \<and> a < range_end r"

definition range_contains_range :: "address_range \<Rightarrow> address_range \<Rightarrow> bool" where
  "range_contains_range r s \<longleftrightarrow> range_start r \<le> range_start s \<and> range_end s \<le> range_end r"

definition range_overlaps :: "address_range \<Rightarrow> address_range \<Rightarrow> bool" where
  "range_overlaps r s \<longleftrightarrow> range_start r < range_end s \<and> range_start s < range_end r"

section \<open>The arithmetic of layouts\<close>

lemma unat_u64_pred: "unat a < unat (b :: u64) \<Longrightarrow> unat (b - 1) = unat b - 1"
  by (rule unat_minus_one) auto

text \<open>A layout is well formed when the constructor accepts it.\<close>

definition wf_layout :: "line_layout \<Rightarrow> bool" where
  "wf_layout l \<longleftrightarrow> layout_new (layout_bytes l) = Inr l"

definition line_bytes :: "line_layout \<Rightarrow> nat" where
  "line_bytes l = unat (layout_bytes l)"

lemma layout_new_wf: "layout_new bytes = Inr l \<Longrightarrow> wf_layout l \<and> layout_bytes l = bytes"
  by (auto simp: wf_layout_def layout_new_def split: if_splits)

lemma is_power_of_two_iff: "is_power_of_two w \<longleftrightarrow> (\<exists>k < 64. w = 2 ^ k)"
  by (auto simp: is_power_of_two_def list_ex_iff push_bit_eq_mult)

lemma unat_power_u64:
  assumes "k < 64"
  shows "unat (2 ^ k :: u64) = 2 ^ k"
proof -
  have "unat (2 ^ k :: u64) = unat (word_of_nat (2 ^ k) :: u64)"
    by simp
  also have "\<dots> = 2 ^ k mod 2 ^ LENGTH(64)"
    by (simp only: unat_of_nat)
  also have "\<dots> = 2 ^ k"
    using assms by (intro mod_less power_strict_increasing) simp_all
  finally show ?thesis .
qed

lemma wf_layout_power:
  assumes "wf_layout l"
  obtains k where "k < 63" and "layout_bytes l = 2 ^ k" and "line_bytes l = 2 ^ k"
proof -
  have bytes: "is_power_of_two (layout_bytes l)" "layout_bytes l \<le> MAX_VECTOR_ALLOCATION_BYTES"
    using assms by (auto simp: wf_layout_def layout_new_def split: if_splits)
  then obtain k where k: "k < 64" "layout_bytes l = 2 ^ k"
    by (auto simp: is_power_of_two_iff)
  then have n: "line_bytes l = 2 ^ k"
    by (simp add: line_bytes_def unat_power_u64)
  have "k \<noteq> 63"
  proof
    assume "k = 63"
    with bytes(2) k(2) show False by (simp add: word_le_nat_alt)
  qed
  with k n that show thesis by force
qed

lemma word_and_not_mask_add: "(a AND NOT (mask k)) + take_bit k a = (a :: u64)"
proof -
  have "(a AND NOT (mask k)) AND take_bit k a = 0"
    by (rule bit_word_eqI) (simp add: bit_simps)
  then have "(a AND NOT (mask k)) + take_bit k a = (a AND NOT (mask k)) OR take_bit k a"
    by (rule disjunctive_add_eq_or)
  also have "\<dots> = a"
    by (rule bit_word_eqI) (auto simp: bit_simps)
  finally show ?thesis .
qed

lemma line_offset_mod:
  assumes "wf_layout l"
  shows "unat (line_offset l a) = unat a mod line_bytes l"
proof -
  obtain k where k: "k < 63" "layout_bytes l = 2 ^ k" "line_bytes l = 2 ^ k"
    using wf_layout_power [OF assms] .
  have "line_offset l a = take_bit k a"
    using word_and_not_mask_add [of a k]
    by (simp add: line_offset_def line_address_def k mask_eq_exp_minus_1 [symmetric] algebra_simps)
  then show ?thesis
    by (simp add: k unsigned_take_bit_eq flip: take_bit_eq_mod)
qed

lemma line_address_div:
  assumes "wf_layout l"
  shows "unat (line_address l a) = unat a div line_bytes l * line_bytes l"
proof -
  have "line_address l a \<le> a"
  proof -
    have "line_address l a = a - line_offset l a" by (simp add: line_offset_def)
    moreover have "line_offset l a \<le> a"
      using line_offset_mod [OF assms, of a] by (simp add: word_le_nat_alt)
    ultimately show ?thesis by (simp add: word_sub_le)
  qed
  then have "unat (line_offset l a) = unat a - unat (line_address l a)"
    by (simp add: line_offset_def unat_sub)
  with line_offset_mod [OF assms, of a] \<open>line_address l a \<le> a\<close> show ?thesis
    by (metis diff_diff_cancel minus_mod_eq_div_mult word_le_nat_alt)
qed

lemma line_bytes_pos: "wf_layout l \<Longrightarrow> 0 < line_bytes l"
  by (elim wf_layout_power) simp

lemma line_offset_less: "wf_layout l \<Longrightarrow> unat (line_offset l a) < line_bytes l"
  by (simp add: line_offset_mod line_bytes_pos)

lemma line_address_idem: "wf_layout l \<Longrightarrow> line_address l (line_address l a) = line_address l a"
  by (simp add: line_address_def bit_eq_iff bit_simps)

lemma line_address_eq_iff:
  "wf_layout l \<Longrightarrow> line_address l a = line_address l b \<longleftrightarrow>
     unat a div line_bytes l = unat b div line_bytes l"
  using line_bytes_pos [of l] by (auto simp: word_unat_eq_iff line_address_div)

section \<open>Ranges as intervals\<close>

definition wf_range :: "address_range \<Rightarrow> bool" where
  "wf_range r \<longleftrightarrow> range_new (range_start r) (range_size r) = Inr r \<and> range_size r \<noteq> 0"

definition range_set :: "address_range \<Rightarrow> address set" where
  "range_set r = {a. range_contains r a}"

lemma wf_range_unat:
  "wf_range r \<Longrightarrow> unat (range_end r) = unat (range_start r) + unat (range_size r) \<and>
     range_start r < range_end r"
  by (cases r) (auto simp: wf_range_def range_new_def unat_word_ariths word_less_nat_alt
      unat_gt_0 split: if_splits)

lemma range_contains_range_iff:
  "wf_range s \<Longrightarrow> range_contains_range r s \<longleftrightarrow> range_set s \<subseteq> range_set r"
proof -
  assume s: "wf_range s"
  then have lt: "range_start s < range_end s" by (simp add: wf_range_unat)
  show ?thesis
  proof
    assume "range_contains_range r s"
    then show "range_set s \<subseteq> range_set r"
      by (auto simp: range_contains_range_def range_set_def range_contains_def)
  next
    assume sub: "range_set s \<subseteq> range_set r"
    have pred: "range_end s - 1 < range_end s" "range_start s \<le> range_end s - 1"
      using lt by (simp_all add: word_le_nat_alt word_less_nat_alt unat_u64_pred)
    from lt sub have "range_contains r (range_start s)"
      by (auto simp: range_set_def range_contains_def)
    moreover from pred sub have "range_contains r (range_end s - 1)"
      by (auto simp: range_set_def range_contains_def)
    ultimately show "range_contains_range r s"
      using lt by (auto simp: range_contains_range_def range_contains_def word_less_nat_alt
          word_le_nat_alt unat_u64_pred)
  qed
qed

lemma range_overlaps_iff:
  assumes "wf_range r" and "wf_range s"
  shows "range_overlaps r s \<longleftrightarrow> range_set r \<inter> range_set s \<noteq> {}"
proof -
  have "range_start r < range_end r" "range_start s < range_end s"
    using assms by (simp_all add: wf_range_unat)
  then have "range_overlaps r s \<longleftrightarrow>
      range_contains r (max (range_start r) (range_start s)) \<and>
      range_contains s (max (range_start r) (range_start s))"
    by (auto simp: range_overlaps_def range_contains_def max_def)
  moreover have "range_contains r a \<and> range_contains s a \<Longrightarrow>
      range_overlaps r s" for a
    by (auto simp: range_overlaps_def range_contains_def)
  ultimately show ?thesis by (auto simp: range_set_def)
qed

section \<open>Properties\<close>

text \<open>
  C22. Line arithmetic.  For every layout the constructor accepts, the bitwise line address and
  offset of an address are its quotient and remainder by the line size, so each address lies in
  exactly one line, at an offset below the line size, and no step wraps around.
\<close>

theorem layout_splits_address:
  assumes "layout_new bytes = Inr l"
  shows "unat (line_address l a) = unat a div unat bytes * unat bytes \<and>
    unat (line_offset l a) = unat a mod unat bytes \<and>
    unat (line_address l a) + unat (line_offset l a) = unat a \<and>
    (line_address l a = line_address l b \<longleftrightarrow> unat a div unat bytes = unat b div unat bytes)"
  using layout_new_wf [OF assms] line_address_div [of l a] line_offset_mod [of l a]
    line_address_eq_iff [of l a b]
  by (simp add: line_bytes_def)

theorem layout_splits_address_witness:
  "\<exists>l. layout_new 64 = Inr l \<and> unat (line_address l 200) = 192 \<and> unat (line_offset l 200) = 8"
proof -
  obtain l where "layout_new 64 = Inr l"
    by (simp add: layout_new_def is_power_of_two_def upt_rec)
  then show ?thesis using layout_splits_address [of 64 l 200 0] by auto
qed

end
