(* ===== verification/Memory_Request.thy ===== *)
theory Memory_Request
  imports Memory_Types
begin

text \<open>
  Requests and responses of \<^verbatim>\<open>crates/rem6-memory/src/request.rs\<close> and the ordering relation of
  \<^verbatim>\<open>ordering.rs\<close>: the validating constructor behind every request, attributes, the byte
  arithmetic of atomic operations, the load-reserved granule and the checks of a response.
\<close>

section \<open>Structures\<close>

type_synonym byte_mask = "bool list"

record request_attributes =
  at_privileged :: bool
  at_secure :: bool
  at_page_table_walk :: bool
  at_evict_next :: bool
  at_kernel_sync :: bool
  at_arch_flags :: u8
  at_stream_id :: "u32 option"
  at_substream_id :: "u32 option"

definition attributes_new :: "bool \<Rightarrow> bool \<Rightarrow> bool \<Rightarrow> request_attributes" where
  "attributes_new privileged secure page_table_walk =
     \<lparr>at_privileged = privileged, at_secure = secure, at_page_table_walk = page_table_walk,
      at_evict_next = False, at_kernel_sync = False, at_arch_flags = 0,
      at_stream_id = None, at_substream_id = None\<rparr>"

definition attributes_default :: request_attributes where
  "attributes_default = attributes_new False False False"

record memory_request =
  rq_id :: request_id
  rq_operation :: MemoryOperation
  rq_range :: address_range
  rq_line_layout :: line_layout
  rq_ordering :: access_ordering
  rq_uncacheable :: bool
  rq_strict_order :: bool
  rq_response_required :: bool
  rq_attributes :: request_attributes
  rq_data :: "u8 list option"
  rq_byte_mask :: "byte_mask option"
  rq_atomic_op :: "MemoryAtomicOp option"
  rq_atomic_compare :: "u8 list option"

text \<open>A snapshot of a request has the fields of the request.\<close>

type_synonym MemoryRequestSnapshot = memory_request

record request_payload =
  pl_data :: "u8 list option"
  pl_byte_mask :: "byte_mask option"
  pl_atomic_op :: "MemoryAtomicOp option"
  pl_atomic_compare :: "u8 list option"

definition payload_empty :: request_payload where
  "payload_empty = \<lparr>pl_data = None, pl_byte_mask = None, pl_atomic_op = None, pl_atomic_compare = None\<rparr>"

definition payload_write :: "u8 list \<Rightarrow> byte_mask \<Rightarrow> request_payload" where
  "payload_write data msk =
     \<lparr>pl_data = Some data, pl_byte_mask = Some msk, pl_atomic_op = None, pl_atomic_compare = None\<rparr>"

definition payload_atomic :: "MemoryAtomicOp \<Rightarrow> u8 list \<Rightarrow> byte_mask \<Rightarrow> request_payload" where
  "payload_atomic aop data msk =
     \<lparr>pl_data = Some data, pl_byte_mask = Some msk, pl_atomic_op = Some aop, pl_atomic_compare = None\<rparr>"

definition payload_compare_swap :: "u8 list \<Rightarrow> u8 list \<Rightarrow> byte_mask \<Rightarrow> request_payload" where
  "payload_compare_swap compare data msk =
     \<lparr>pl_data = Some data, pl_byte_mask = Some msk, pl_atomic_op = Some CompareSwap,
      pl_atomic_compare = Some compare\<rparr>"

definition payload_writeback :: "u8 list \<Rightarrow> request_payload" where
  "payload_writeback data =
     \<lparr>pl_data = Some data, pl_byte_mask = None, pl_atomic_op = None, pl_atomic_compare = None\<rparr>"

section \<open>Validation and construction\<close>

text \<open>\<open>usize\<close> lengths cast to \<open>u64\<close>.\<close>

abbreviation len_u64 :: "'a list \<Rightarrow> u64" where
  "len_u64 xs \<equiv> of_nat (length xs)"

definition validate_payload ::
  "request_id \<Rightarrow> MemoryOperation \<Rightarrow> access_size \<Rightarrow> u8 list option \<Rightarrow> MemoryError + unit" where
  "validate_payload rid op sz data =
    (case (op_carries_request_data op, data) of
       (True, Some bytes) \<Rightarrow>
         if len_u64 bytes = sz then Inr () else Inl (PayloadSizeMismatch sz (len_u64 bytes))
     | (True, None) \<Rightarrow> Inl (MissingRequestData rid)
     | (False, Some _) \<Rightarrow> Inl (UnexpectedRequestData rid)
     | (False, None) \<Rightarrow> Inr ())"

definition masked_operation :: "MemoryOperation \<Rightarrow> bool" where
  "masked_operation op \<longleftrightarrow> op \<in>
     {Write, StoreConditional, StoreConditionalFail, LockedRmwWrite, Atomic, AtomicNoReturn}"

definition validate_mask ::
  "request_id \<Rightarrow> MemoryOperation \<Rightarrow> access_size \<Rightarrow> byte_mask option \<Rightarrow> MemoryError + unit" where
  "validate_mask rid op sz msk =
    (case (masked_operation op, msk) of
       (True, Some m) \<Rightarrow>
         if len_u64 m = sz then Inr () else Inl (ByteMaskSizeMismatch sz (len_u64 m))
     | (True, None) \<Rightarrow> Inl (MissingByteMask rid)
     | (False, Some _) \<Rightarrow> Inl (UnexpectedByteMask rid)
     | (False, None) \<Rightarrow> Inr ())"

definition validate_cache_block_zero_shape ::
  "MemoryOperation \<Rightarrow> address \<Rightarrow> access_size \<Rightarrow> line_layout \<Rightarrow> MemoryError + unit" where
  "validate_cache_block_zero_shape op a sz l =
    (if op \<noteq> CacheBlockZero then Inr ()
     else if line_offset l a \<noteq> 0 then Inl (UnalignedLineAddress a (layout_bytes l))
     else if sz \<noteq> layout_bytes l then
       res_bind (access_size_new (layout_bytes l)) (\<lambda>expected. Inl (PayloadSizeMismatch expected sz))
     else Inr ())"

definition validate_atomic_op ::
  "request_id \<Rightarrow> MemoryOperation \<Rightarrow> MemoryAtomicOp option \<Rightarrow> MemoryError + unit" where
  "validate_atomic_op rid op aop =
    (case (is_atomic op, aop) of
       (True, Some _) \<Rightarrow> Inr ()
     | (True, None) \<Rightarrow> Inl (MissingAtomicOp rid)
     | (False, Some _) \<Rightarrow> Inl (UnexpectedAtomicOp rid)
     | (False, None) \<Rightarrow> Inr ())"

definition validate_atomic_compare ::
  "request_id \<Rightarrow> MemoryOperation \<Rightarrow> access_size \<Rightarrow> MemoryAtomicOp option \<Rightarrow> u8 list option \<Rightarrow>
   MemoryError + unit" where
  "validate_atomic_compare rid op sz aop compare =
    (case (is_atomic op \<and> aop = Some CompareSwap, compare) of
       (True, Some c) \<Rightarrow>
         if len_u64 c = sz then Inr () else Inl (AtomicCompareSizeMismatch sz (len_u64 c))
     | (True, None) \<Rightarrow> Inl (MissingAtomicCompare rid)
     | (False, Some _) \<Rightarrow> Inl (UnexpectedAtomicCompare rid)
     | (False, None) \<Rightarrow> Inr ())"

definition validate_stream_attributes ::
  "request_id \<Rightarrow> request_attributes \<Rightarrow> MemoryError + unit" where
  "validate_stream_attributes rid at =
    (if at_substream_id at \<noteq> None \<and> at_stream_id at = None
     then Inl (InvalidRequestStreamAttributes rid) else Inr ())"

definition request_new ::
  "request_id \<Rightarrow> MemoryOperation \<Rightarrow> address \<Rightarrow> access_size \<Rightarrow> line_layout \<Rightarrow> request_payload \<Rightarrow>
   MemoryError + memory_request" where
  "request_new rid op a sz l p =
    res_bind (range_new a sz) (\<lambda>range.
    res_bind (validate_payload rid op sz (pl_data p)) (\<lambda>_.
    res_bind (validate_mask rid op sz (pl_byte_mask p)) (\<lambda>_.
    res_bind (validate_atomic_op rid op (pl_atomic_op p)) (\<lambda>_.
    res_bind (validate_atomic_compare rid op sz (pl_atomic_op p) (pl_atomic_compare p)) (\<lambda>_.
    res_bind (validate_cache_block_zero_shape op a sz l) (\<lambda>_.
    Inr \<lparr>rq_id = rid, rq_operation = op, rq_range = range, rq_line_layout = l,
         rq_ordering = ordering_none, rq_uncacheable = False, rq_strict_order = False,
         rq_response_required = op_requires_response op, rq_attributes = attributes_default,
         rq_data = pl_data p, rq_byte_mask = pl_byte_mask p, rq_atomic_op = pl_atomic_op p,
         rq_atomic_compare = pl_atomic_compare p\<rparr>))))))"

definition request_line_maintenance ::
  "request_id \<Rightarrow> MemoryOperation \<Rightarrow> address \<Rightarrow> line_layout \<Rightarrow> MemoryError + memory_request" where
  "request_line_maintenance rid op a l =
    (if line_offset l a \<noteq> 0 then Inl (UnalignedLineAddress a (layout_bytes l))
     else res_bind (access_size_new (layout_bytes l)) (\<lambda>sz. request_new rid op a sz l payload_empty))"

definition request_writeback ::
  "request_id \<Rightarrow> MemoryOperation \<Rightarrow> address \<Rightarrow> u8 list \<Rightarrow> line_layout \<Rightarrow>
   MemoryError + memory_request" where
  "request_writeback rid op a data l =
    (if line_offset l a \<noteq> 0 then Inl (UnalignedLineAddress a (layout_bytes l))
     else res_bind (access_size_new (layout_bytes l))
       (\<lambda>sz. request_new rid op a sz l (payload_writeback data)))"

text \<open>The public constructors: an operation code with the payload it carries.\<close>

definition request_no_access ::
  "request_id \<Rightarrow> address \<Rightarrow> access_size \<Rightarrow> line_layout \<Rightarrow> MemoryError + memory_request" where
  "request_no_access rid a sz l = request_new rid NoAccess a sz l payload_empty"

definition request_read_shared ::
  "request_id \<Rightarrow> address \<Rightarrow> access_size \<Rightarrow> line_layout \<Rightarrow> MemoryError + memory_request" where
  "request_read_shared rid a sz l = request_new rid ReadShared a sz l payload_empty"

definition request_read_unique ::
  "request_id \<Rightarrow> address \<Rightarrow> access_size \<Rightarrow> line_layout \<Rightarrow> MemoryError + memory_request" where
  "request_read_unique rid a sz l = request_new rid ReadUnique a sz l payload_empty"

definition request_prefetch_read ::
  "request_id \<Rightarrow> address \<Rightarrow> access_size \<Rightarrow> line_layout \<Rightarrow> MemoryError + memory_request" where
  "request_prefetch_read rid a sz l = request_new rid PrefetchRead a sz l payload_empty"

definition request_prefetch_write ::
  "request_id \<Rightarrow> address \<Rightarrow> access_size \<Rightarrow> line_layout \<Rightarrow> MemoryError + memory_request" where
  "request_prefetch_write rid a sz l = request_new rid PrefetchWrite a sz l payload_empty"

definition request_locked_rmw_read ::
  "request_id \<Rightarrow> address \<Rightarrow> access_size \<Rightarrow> line_layout \<Rightarrow> MemoryError + memory_request" where
  "request_locked_rmw_read rid a sz l = request_new rid LockedRmwRead a sz l payload_empty"

definition request_load_locked ::
  "request_id \<Rightarrow> address \<Rightarrow> access_size \<Rightarrow> line_layout \<Rightarrow> MemoryError + memory_request" where
  "request_load_locked rid a sz l = request_new rid LoadLocked a sz l payload_empty"

definition request_locked_rmw_write ::
  "request_id \<Rightarrow> address \<Rightarrow> access_size \<Rightarrow> u8 list \<Rightarrow> byte_mask \<Rightarrow> line_layout \<Rightarrow>
   MemoryError + memory_request" where
  "request_locked_rmw_write rid a sz data msk l = request_new rid LockedRmwWrite a sz l (payload_write data msk)"

definition request_store_conditional ::
  "request_id \<Rightarrow> address \<Rightarrow> access_size \<Rightarrow> u8 list \<Rightarrow> byte_mask \<Rightarrow> line_layout \<Rightarrow>
   MemoryError + memory_request" where
  "request_store_conditional rid a sz data msk l = request_new rid StoreConditional a sz l (payload_write data msk)"

definition request_store_conditional_fail ::
  "request_id \<Rightarrow> address \<Rightarrow> access_size \<Rightarrow> u8 list \<Rightarrow> byte_mask \<Rightarrow> line_layout \<Rightarrow>
   MemoryError + memory_request" where
  "request_store_conditional_fail rid a sz data msk l = request_new rid StoreConditionalFail a sz l (payload_write data msk)"

definition request_store_conditional_upgrade ::
  "request_id \<Rightarrow> address \<Rightarrow> access_size \<Rightarrow> line_layout \<Rightarrow> MemoryError + memory_request" where
  "request_store_conditional_upgrade rid a sz l = request_new rid StoreConditionalUpgrade a sz l payload_empty"

definition request_store_conditional_upgrade_fail ::
  "request_id \<Rightarrow> address \<Rightarrow> access_size \<Rightarrow> line_layout \<Rightarrow> MemoryError + memory_request" where
  "request_store_conditional_upgrade_fail rid a sz l = request_new rid StoreConditionalUpgradeFail a sz l payload_empty"

definition request_instruction_fetch ::
  "request_id \<Rightarrow> address \<Rightarrow> access_size \<Rightarrow> line_layout \<Rightarrow> MemoryError + memory_request" where
  "request_instruction_fetch rid a sz l = request_new rid InstructionFetch a sz l payload_empty"

definition request_write ::
  "request_id \<Rightarrow> address \<Rightarrow> access_size \<Rightarrow> u8 list \<Rightarrow> byte_mask \<Rightarrow> line_layout \<Rightarrow>
   MemoryError + memory_request" where
  "request_write rid a sz data msk l = request_new rid Write a sz l (payload_write data msk)"

definition request_cache_block_zero ::
  "request_id \<Rightarrow> address \<Rightarrow> line_layout \<Rightarrow> MemoryError + memory_request" where
  "request_cache_block_zero rid a l = request_line_maintenance rid CacheBlockZero a l"

definition request_atomic_with_op ::
  "request_id \<Rightarrow> address \<Rightarrow> access_size \<Rightarrow> MemoryAtomicOp \<Rightarrow> u8 list \<Rightarrow> byte_mask \<Rightarrow> line_layout \<Rightarrow>
   MemoryError + memory_request" where
  "request_atomic_with_op rid a sz aop data msk l =
     request_new rid Atomic a sz l (payload_atomic aop data msk)"

definition request_atomic ::
  "request_id \<Rightarrow> address \<Rightarrow> access_size \<Rightarrow> u8 list \<Rightarrow> byte_mask \<Rightarrow> line_layout \<Rightarrow>
   MemoryError + memory_request" where
  "request_atomic rid a sz data msk l = request_atomic_with_op rid a sz Swap data msk l"

definition request_compare_swap ::
  "request_id \<Rightarrow> address \<Rightarrow> access_size \<Rightarrow> u8 list \<Rightarrow> u8 list \<Rightarrow> byte_mask \<Rightarrow> line_layout \<Rightarrow>
   MemoryError + memory_request" where
  "request_compare_swap rid a sz compare data msk l =
     request_new rid Atomic a sz l (payload_compare_swap compare data msk)"

definition request_atomic_no_return ::
  "request_id \<Rightarrow> address \<Rightarrow> access_size \<Rightarrow> MemoryAtomicOp \<Rightarrow> u8 list \<Rightarrow> byte_mask \<Rightarrow> line_layout \<Rightarrow>
   MemoryError + memory_request" where
  "request_atomic_no_return rid a sz aop data msk l =
     request_new rid AtomicNoReturn a sz l (payload_atomic aop data msk)"

definition request_compare_swap_no_return ::
  "request_id \<Rightarrow> address \<Rightarrow> access_size \<Rightarrow> u8 list \<Rightarrow> u8 list \<Rightarrow> byte_mask \<Rightarrow> line_layout \<Rightarrow>
   MemoryError + memory_request" where
  "request_compare_swap_no_return rid a sz compare data msk l =
     request_new rid AtomicNoReturn a sz l (payload_compare_swap compare data msk)"

definition request_upgrade ::
  "request_id \<Rightarrow> address \<Rightarrow> access_size \<Rightarrow> line_layout \<Rightarrow> MemoryError + memory_request" where
  "request_upgrade rid a sz l = request_new rid Upgrade a sz l payload_empty"

definition request_writeback_dirty ::
  "request_id \<Rightarrow> address \<Rightarrow> u8 list \<Rightarrow> line_layout \<Rightarrow> MemoryError + memory_request" where
  "request_writeback_dirty rid a data l = request_writeback rid WritebackDirty a data l"

definition request_writeback_clean ::
  "request_id \<Rightarrow> address \<Rightarrow> u8 list \<Rightarrow> line_layout \<Rightarrow> MemoryError + memory_request" where
  "request_writeback_clean rid a data l = request_writeback rid WritebackClean a data l"

definition request_write_clean ::
  "request_id \<Rightarrow> address \<Rightarrow> u8 list \<Rightarrow> line_layout \<Rightarrow> MemoryError + memory_request" where
  "request_write_clean rid a data l = request_writeback rid WriteClean a data l"

definition request_clean_evict ::
  "request_id \<Rightarrow> address \<Rightarrow> line_layout \<Rightarrow> MemoryError + memory_request" where
  "request_clean_evict rid a l = request_line_maintenance rid CleanEvict a l"

definition request_clean_shared ::
  "request_id \<Rightarrow> address \<Rightarrow> line_layout \<Rightarrow> MemoryError + memory_request" where
  "request_clean_shared rid a l = request_line_maintenance rid CleanShared a l"

definition request_invalidate ::
  "request_id \<Rightarrow> address \<Rightarrow> line_layout \<Rightarrow> MemoryError + memory_request" where
  "request_invalidate rid a l = request_line_maintenance rid Invalidate a l"

definition request_invalidate_writable ::
  "request_id \<Rightarrow> address \<Rightarrow> line_layout \<Rightarrow> MemoryError + memory_request" where
  "request_invalidate_writable rid a l = request_line_maintenance rid InvalidateWritable a l"

definition payload_from_snapshot :: "MemoryRequestSnapshot \<Rightarrow> request_payload" where
  "payload_from_snapshot snap =
     \<lparr>pl_data = rq_data snap, pl_byte_mask = rq_byte_mask snap,
      pl_atomic_op = rq_atomic_op snap, pl_atomic_compare = rq_atomic_compare snap\<rparr>"

definition request_from_snapshot :: "MemoryRequestSnapshot \<Rightarrow> MemoryError + memory_request" where
  "request_from_snapshot snap =
    res_bind (validate_stream_attributes (rq_id snap) (rq_attributes snap)) (\<lambda>_.
    res_bind (request_new (rq_id snap) (rq_operation snap) (range_start (rq_range snap))
        (range_size (rq_range snap)) (rq_line_layout snap) (payload_from_snapshot snap)) (\<lambda>r.
    Inr (r\<lparr>rq_ordering := rq_ordering snap, rq_uncacheable := rq_uncacheable snap,
           rq_strict_order := rq_strict_order snap,
           rq_response_required := rq_response_required snap,
           rq_attributes := rq_attributes snap\<rparr>)))"

definition request_snapshot :: "memory_request \<Rightarrow> MemoryRequestSnapshot" where
  "request_snapshot r =
     \<lparr>rq_id = rq_id r, rq_operation = rq_operation r, rq_range = rq_range r,
      rq_line_layout = rq_line_layout r, rq_ordering = rq_ordering r,
      rq_uncacheable = rq_uncacheable r, rq_strict_order = rq_strict_order r,
      rq_response_required = rq_response_required r, rq_attributes = rq_attributes r,
      rq_data = rq_data r, rq_byte_mask = rq_byte_mask r, rq_atomic_op = rq_atomic_op r,
      rq_atomic_compare = rq_atomic_compare r\<rparr>"

section \<open>Builders\<close>

definition with_ordering :: "access_ordering \<Rightarrow> memory_request \<Rightarrow> memory_request" where
  "with_ordering ord r = r\<lparr>rq_ordering := ord\<rparr>"

definition with_attributes ::
  "request_attributes \<Rightarrow> memory_request \<Rightarrow> MemoryError + memory_request" where
  "with_attributes at r =
     res_bind (validate_stream_attributes (rq_id r) at) (\<lambda>_. Inr (r\<lparr>rq_attributes := at\<rparr>))"

definition with_privileged :: "memory_request \<Rightarrow> memory_request" where
  "with_privileged r = r\<lparr>rq_attributes := (rq_attributes r)\<lparr>at_privileged := True\<rparr>\<rparr>"

definition with_secure :: "memory_request \<Rightarrow> memory_request" where
  "with_secure r = r\<lparr>rq_attributes := (rq_attributes r)\<lparr>at_secure := True\<rparr>\<rparr>"

definition with_page_table_walk :: "memory_request \<Rightarrow> memory_request" where
  "with_page_table_walk r = r\<lparr>rq_attributes := (rq_attributes r)\<lparr>at_page_table_walk := True\<rparr>\<rparr>"

definition with_evict_next :: "memory_request \<Rightarrow> memory_request" where
  "with_evict_next r = r\<lparr>rq_attributes := (rq_attributes r)\<lparr>at_evict_next := True\<rparr>\<rparr>"

definition with_kernel_sync :: "memory_request \<Rightarrow> memory_request" where
  "with_kernel_sync r = r\<lparr>rq_attributes := (rq_attributes r)\<lparr>at_kernel_sync := True\<rparr>\<rparr>"

definition with_arch_flags :: "u8 \<Rightarrow> memory_request \<Rightarrow> memory_request" where
  "with_arch_flags flags r = r\<lparr>rq_attributes := (rq_attributes r)\<lparr>at_arch_flags := flags\<rparr>\<rparr>"

definition with_stream_id :: "u32 \<Rightarrow> memory_request \<Rightarrow> memory_request" where
  "with_stream_id stream r = r\<lparr>rq_attributes := (rq_attributes r)\<lparr>at_stream_id := Some stream\<rparr>\<rparr>"

definition with_substream_id :: "u32 \<Rightarrow> memory_request \<Rightarrow> MemoryError + memory_request" where
  "with_substream_id substream r =
     (if at_stream_id (rq_attributes r) = None then Inl (InvalidRequestStreamAttributes (rq_id r))
      else Inr (r\<lparr>rq_attributes := (rq_attributes r)\<lparr>at_substream_id := Some substream\<rparr>\<rparr>))"

definition with_uncacheable :: "memory_request \<Rightarrow> memory_request" where
  "with_uncacheable r = r\<lparr>rq_uncacheable := True\<rparr>"

definition with_strict_order :: "memory_request \<Rightarrow> memory_request" where
  "with_strict_order r = r\<lparr>rq_strict_order := True\<rparr>"

definition with_uncacheable_strict_order :: "memory_request \<Rightarrow> memory_request" where
  "with_uncacheable_strict_order r = with_strict_order (with_uncacheable r)"

definition with_response_required :: "memory_request \<Rightarrow> memory_request" where
  "with_response_required r = r\<lparr>rq_response_required := True\<rparr>"

section \<open>Accessors that compute\<close>

definition rq_size :: "memory_request \<Rightarrow> access_size" where
  "rq_size r = range_size (rq_range r)"

definition rq_line_address :: "memory_request \<Rightarrow> address" where
  "rq_line_address r = line_address (rq_line_layout r) (range_start (rq_range r))"

definition rq_line_offset :: "memory_request \<Rightarrow> u64" where
  "rq_line_offset r = line_offset (rq_line_layout r) (range_start (rq_range r))"

definition rq_line_span :: "memory_request \<Rightarrow> u64" where
  "rq_line_span r = line_span (rq_line_layout r) (rq_range r)"

section \<open>Little-endian byte arithmetic\<close>

fun read_le_loop :: "nat \<Rightarrow> 128 word \<Rightarrow> u8 list \<Rightarrow> 128 word" where
  "read_le_loop shift value [] = value"
| "read_le_loop shift value (byte # bytes) =
     read_le_loop (Suc shift) (value OR push_bit (shift * 8) (ucast byte)) bytes"

definition read_le_u128 :: "u8 list \<Rightarrow> 128 word" where
  "read_le_u128 bytes = read_le_loop 0 0 bytes"

definition read_le_i128 :: "u8 list \<Rightarrow> int" where
  "read_le_i128 bytes =
    (let unsigned_value = read_le_u128 bytes;
         bit_count = length bytes * 8;
         sign_bit = push_bit (bit_count - 1) (1 :: 128 word)
     in if unsigned_value AND sign_bit = 0 then sint unsigned_value
        else sint (unsigned_value OR push_bit bit_count (NOT 0)))"

text \<open>\<open>u128::to_le_bytes\<close> cut to the access width.\<close>

definition to_le_bytes :: "nat \<Rightarrow> 128 word \<Rightarrow> u8 list" where
  "to_le_bytes width w = map (\<lambda>i. ucast (drop_bit (i * 8) w)) [0..<width]"

section \<open>Atomic operations\<close>

definition numeric_width :: "nat \<Rightarrow> bool" where
  "numeric_width width \<longleftrightarrow> width \<in> {1, 2, 4, 8}"

definition atomic_compare_swap_data ::
  "memory_request \<Rightarrow> u8 list \<Rightarrow> u8 list \<Rightarrow> MemoryError + u8 list" where
  "atomic_compare_swap_data r old payload =
    res_bind (access_size_as_usize (rq_size r)) (\<lambda>width.
    if width \<notin> {4, 8} then Inl (UnsupportedAtomicAccessSize (rq_id r) CompareSwap (rq_size r))
    else res_bind (ok_or (MissingAtomicCompare (rq_id r)) (rq_atomic_compare r)) (\<lambda>compare.
      if compare = old then Inr payload else Inr old))"

definition atomic_add_data ::
  "memory_request \<Rightarrow> u8 list \<Rightarrow> u8 list \<Rightarrow> MemoryError + u8 list" where
  "atomic_add_data r old payload =
    res_bind (access_size_as_usize (rq_size r)) (\<lambda>width.
    if \<not> numeric_width width then Inl (UnsupportedAtomicAccessSize (rq_id r) Add (rq_size r))
    else
      let bit_count = width * 8;
          msk = push_bit bit_count 1 - 1;
          sum = (read_le_u128 old + read_le_u128 payload) AND msk
      in Inr (to_le_bytes width sum))"

definition atomic_bitwise_data ::
  "memory_request \<Rightarrow> u8 list \<Rightarrow> u8 list \<Rightarrow> (128 word \<Rightarrow> 128 word \<Rightarrow> 128 word) \<Rightarrow>
   MemoryError + u8 list" where
  "atomic_bitwise_data r old payload operation =
    res_bind (access_size_as_usize (rq_size r)) (\<lambda>width.
    if \<not> numeric_width width then
      Inl (UnsupportedAtomicAccessSize (rq_id r) (the (rq_atomic_op r)) (rq_size r))
    else Inr (to_le_bytes width (operation (read_le_u128 old) (read_le_u128 payload))))"

definition validate_atomic_numeric_width :: "memory_request \<Rightarrow> MemoryError + unit" where
  "validate_atomic_numeric_width r =
    res_bind (access_size_as_usize (rq_size r)) (\<lambda>width.
    if numeric_width width then Inr ()
    else Inl (UnsupportedAtomicAccessSize (rq_id r) (the (rq_atomic_op r)) (rq_size r)))"

definition atomic_signed_select_data ::
  "memory_request \<Rightarrow> u8 list \<Rightarrow> u8 list \<Rightarrow> (int \<Rightarrow> int \<Rightarrow> bool) \<Rightarrow> MemoryError + u8 list" where
  "atomic_signed_select_data r old payload select_old =
    res_bind (validate_atomic_numeric_width r) (\<lambda>_.
    if select_old (read_le_i128 old) (read_le_i128 payload) then Inr old else Inr payload)"

definition atomic_unsigned_select_data ::
  "memory_request \<Rightarrow> u8 list \<Rightarrow> u8 list \<Rightarrow> (128 word \<Rightarrow> 128 word \<Rightarrow> bool) \<Rightarrow>
   MemoryError + u8 list" where
  "atomic_unsigned_select_data r old payload select_old =
    res_bind (validate_atomic_numeric_width r) (\<lambda>_.
    if select_old (read_le_u128 old) (read_le_u128 payload) then Inr old else Inr payload)"

definition atomic_write_data :: "memory_request \<Rightarrow> u8 list \<Rightarrow> MemoryError + u8 list" where
  "atomic_write_data r old =
    (if \<not> is_atomic (rq_operation r) then Inl (UnexpectedAtomicOp (rq_id r))
     else if len_u64 old \<noteq> rq_size r then Inl (PayloadSizeMismatch (rq_size r) (len_u64 old))
     else
       res_bind (ok_or (MissingRequestData (rq_id r)) (rq_data r)) (\<lambda>payload.
       res_bind (ok_or (MissingAtomicOp (rq_id r)) (rq_atomic_op r)) (\<lambda>aop.
       case aop of
         Swap \<Rightarrow> Inr payload
       | CompareSwap \<Rightarrow> atomic_compare_swap_data r old payload
       | Add \<Rightarrow> atomic_add_data r old payload
       | Xor \<Rightarrow> atomic_bitwise_data r old payload (\<lambda>x y. x XOR y)
       | Or \<Rightarrow> atomic_bitwise_data r old payload (\<lambda>x y. x OR y)
       | And \<Rightarrow> atomic_bitwise_data r old payload (\<lambda>x y. x AND y)
       | MinSigned \<Rightarrow> atomic_signed_select_data r old payload (\<lambda>x y. x \<le> y)
       | MaxSigned \<Rightarrow> atomic_signed_select_data r old payload (\<lambda>x y. x \<ge> y)
       | MinUnsigned \<Rightarrow> atomic_unsigned_select_data r old payload (\<lambda>x y. x \<le> y)
       | MaxUnsigned \<Rightarrow> atomic_unsigned_select_data r old payload (\<lambda>x y. x \<ge> y))))"

section \<open>Load-reserved granules\<close>

abbreviation LLSC_RESERVATION_BYTES :: u64 where
  "LLSC_RESERVATION_BYTES \<equiv> 16"

definition llsc_reservation_address :: "memory_request \<Rightarrow> address" where
  "llsc_reservation_address r = range_start (rq_range r) AND NOT (LLSC_RESERVATION_BYTES - 1)"

definition u64_saturating_add :: "u64 \<Rightarrow> u64 \<Rightarrow> u64" where
  "u64_saturating_add a b = (if unat a + unat b < U64_RANGE then a + b else - 1)"

definition llsc_reservation_overlaps_range :: "address \<Rightarrow> address_range \<Rightarrow> bool" where
  "llsc_reservation_overlaps_range reservation rng \<longleftrightarrow>
    (let reservation_end = u64_saturating_add reservation LLSC_RESERVATION_BYTES
     in range_start rng < reservation_end \<and> reservation < range_end rng)"

definition overlaps_llsc_reservation :: "memory_request \<Rightarrow> address \<Rightarrow> bool" where
  "overlaps_llsc_reservation r reservation =
     llsc_reservation_overlaps_range reservation (rq_range r)"

section \<open>Ordering between requests\<close>

definition reads_for_ordering :: "MemoryOperation \<Rightarrow> bool" where
  "reads_for_ordering op \<longleftrightarrow> op \<in>
     {InstructionFetch, ReadShared, ReadUnique, LoadLocked, LockedRmwRead,
      StoreConditionalUpgradeFail, Atomic, AtomicNoReturn, PrefetchRead}"

definition writes_for_ordering :: "MemoryOperation \<Rightarrow> bool" where
  "writes_for_ordering op \<longleftrightarrow> op \<in>
     {ReadUnique, LockedRmwRead, Write, CacheBlockZero, StoreConditional, StoreConditionalFail,
      StoreConditionalUpgrade, StoreConditionalUpgradeFail, LockedRmwWrite, Upgrade, Atomic,
      AtomicNoReturn, PrefetchWrite, WriteClean, WritebackClean, WritebackDirty, CleanShared,
      CleanEvict, Invalidate, InvalidateWritable}"

definition barrier_matches_operation :: "barrier_set \<Rightarrow> MemoryOperation \<Rightarrow> bool" where
  "barrier_matches_operation b op \<longleftrightarrow>
     bs_read b \<and> reads_for_ordering op \<or> bs_write b \<and> writes_for_ordering op"

definition orders_before :: "memory_request \<Rightarrow> memory_request \<Rightarrow> bool" where
  "orders_before r later \<longleftrightarrow>
     rid_agent (rq_id r) = rid_agent (rq_id later) \<and>
     (rq_strict_order r \<or> rq_strict_order later \<or>
      (case ao_before (rq_ordering later) of
         None \<Rightarrow> False | Some b \<Rightarrow> barrier_matches_operation b (rq_operation r)) \<or>
      (case ao_after (rq_ordering r) of
         None \<Rightarrow> False | Some b \<Rightarrow> barrier_matches_operation b (rq_operation later)))"

section \<open>Responses\<close>

datatype ResponseStatus = Completed | Retry | StoreConditionalFailed

record memory_response =
  rs_request_id :: request_id
  rs_status :: ResponseStatus
  rs_data :: "u8 list option"

definition validate_response_data :: "memory_request \<Rightarrow> u8 list option \<Rightarrow> MemoryError + unit" where
  "validate_response_data r data =
    (case (op_returns_data (rq_operation r), data) of
       (True, Some bytes) \<Rightarrow>
         if len_u64 bytes = rq_size r then Inr ()
         else Inl (PayloadSizeMismatch (rq_size r) (len_u64 bytes))
     | (True, None) \<Rightarrow> Inl (MissingResponseData (rq_id r))
     | (False, Some _) \<Rightarrow> Inl (UnexpectedResponseData (rq_id r))
     | (False, None) \<Rightarrow> Inr ())"

definition response_completed ::
  "memory_request \<Rightarrow> u8 list option \<Rightarrow> MemoryError + memory_response" where
  "response_completed r data =
    (if \<not> rq_response_required r then Inl (ResponseNotExpected (rq_id r))
     else res_bind (validate_response_data r data) (\<lambda>_.
       Inr \<lparr>rs_request_id = rq_id r, rs_status = Completed, rs_data = data\<rparr>))"

definition response_retry :: "memory_request \<Rightarrow> memory_response" where
  "response_retry r = \<lparr>rs_request_id = rq_id r, rs_status = Retry, rs_data = None\<rparr>"

definition response_store_conditional_failed ::
  "memory_request \<Rightarrow> MemoryError + memory_response" where
  "response_store_conditional_failed r =
    (if rq_operation r \<notin> {StoreConditional, StoreConditionalFail, StoreConditionalUpgrade}
     then Inl (InvalidStoreConditionalFailureResponse (rq_id r))
     else Inr \<lparr>rs_request_id = rq_id r, rs_status = StoreConditionalFailed, rs_data = None\<rparr>)"

definition response_snapshot_new ::
  "request_id \<Rightarrow> ResponseStatus \<Rightarrow> u8 list option \<Rightarrow> MemoryError + memory_response" where
  "response_snapshot_new rid status data =
    (if status \<in> {Retry, StoreConditionalFailed} \<and> data \<noteq> None
     then Inl (UnexpectedResponseData rid)
     else if data = Some [] then Inl (InvalidResponseDataLength rid 0)
     else Inr \<lparr>rs_request_id = rid, rs_status = status, rs_data = data\<rparr>)"

definition response_from_snapshot :: "memory_response \<Rightarrow> MemoryError + memory_response" where
  "response_from_snapshot snap =
    res_bind (response_snapshot_new (rs_request_id snap) (rs_status snap) (rs_data snap)) (\<lambda>_.
    Inr \<lparr>rs_request_id = rs_request_id snap, rs_status = rs_status snap, rs_data = rs_data snap\<rparr>)"

definition response_snapshot :: "memory_response \<Rightarrow> memory_response" where
  "response_snapshot rs =
     \<lparr>rs_request_id = rs_request_id rs, rs_status = rs_status rs, rs_data = rs_data rs\<rparr>"

section \<open>Every request the interface builds is restorable\<close>

text \<open>The requests a client can hold: a constructor call followed by builder calls.\<close>

inductive built :: "memory_request \<Rightarrow> bool" where
  built_new: "request_new rid op a sz l p = Inr r \<Longrightarrow> built r"
| built_ordering: "built r \<Longrightarrow> built (with_ordering ord r)"
| built_attributes: "built r \<Longrightarrow> with_attributes at r = Inr r' \<Longrightarrow> built r'"
| built_privileged: "built r \<Longrightarrow> built (with_privileged r)"
| built_secure: "built r \<Longrightarrow> built (with_secure r)"
| built_page_table_walk: "built r \<Longrightarrow> built (with_page_table_walk r)"
| built_evict_next: "built r \<Longrightarrow> built (with_evict_next r)"
| built_kernel_sync: "built r \<Longrightarrow> built (with_kernel_sync r)"
| built_arch_flags: "built r \<Longrightarrow> built (with_arch_flags flags r)"
| built_stream_id: "built r \<Longrightarrow> built (with_stream_id stream r)"
| built_substream_id: "built r \<Longrightarrow> with_substream_id substream r = Inr r' \<Longrightarrow> built r'"
| built_uncacheable: "built r \<Longrightarrow> built (with_uncacheable r)"
| built_strict_order: "built r \<Longrightarrow> built (with_strict_order r)"
| built_response_required: "built r \<Longrightarrow> built (with_response_required r)"
| built_snapshot: "request_from_snapshot snap = Inr r \<Longrightarrow> built r"

lemmas builder_defs =
  with_ordering_def with_attributes_def with_privileged_def with_secure_def
  with_page_table_walk_def with_evict_next_def with_kernel_sync_def with_arch_flags_def
  with_stream_id_def with_substream_id_def with_uncacheable_def with_strict_order_def
  with_response_required_def

text \<open>What each validator accepts.\<close>

named_theorems validator_iffs "when a validator of a request succeeds"

lemma range_new_iff [validator_iffs]:
  "range_new a sz = Inr rng \<longleftrightarrow> unat a + unat sz < U64_RANGE \<and>
     rng = \<lparr>range_start = a, range_size = sz, range_end = a + sz\<rparr>"
  by (auto simp: range_new_def)

lemma validate_payload_iff [validator_iffs]:
  "validate_payload rid op sz data = Inr u \<longleftrightarrow>
     (if op_carries_request_data op then \<exists>bytes. data = Some bytes \<and> len_u64 bytes = sz
      else data = None)"
  by (auto simp: validate_payload_def split: option.splits bool.splits)

lemma validate_mask_iff [validator_iffs]:
  "validate_mask rid op sz msk = Inr u \<longleftrightarrow>
     (if masked_operation op then \<exists>m. msk = Some m \<and> len_u64 m = sz else msk = None)"
  by (auto simp: validate_mask_def split: option.splits bool.splits)

lemma validate_atomic_op_iff [validator_iffs]:
  "validate_atomic_op rid op aop = Inr u \<longleftrightarrow> (is_atomic op \<longleftrightarrow> aop \<noteq> None)"
  by (auto simp: validate_atomic_op_def split: option.splits bool.splits)

lemma validate_atomic_compare_iff [validator_iffs]:
  "validate_atomic_compare rid op sz aop cmp = Inr u \<longleftrightarrow>
     (if is_atomic op \<and> aop = Some CompareSwap then \<exists>c. cmp = Some c \<and> len_u64 c = sz
      else cmp = None)"
  by (auto simp: validate_atomic_compare_def split: option.splits bool.splits)

lemma validate_cache_block_zero_shape_iff [validator_iffs]:
  "validate_cache_block_zero_shape op a sz l = Inr u \<longleftrightarrow>
     (op = CacheBlockZero \<longrightarrow> line_offset l a = 0 \<and> sz = layout_bytes l)"
  by (auto simp: validate_cache_block_zero_shape_def result_simps)

lemma validate_stream_attributes_iff [validator_iffs]:
  "validate_stream_attributes rid at = Inr u \<longleftrightarrow>
     (at_substream_id at \<noteq> None \<longrightarrow> at_stream_id at \<noteq> None)"
  by (auto simp: validate_stream_attributes_def)

text \<open>The shape of a request every operation of the interface establishes or keeps.\<close>

definition wf_fields ::
  "MemoryOperation \<Rightarrow> address_range \<Rightarrow> line_layout \<Rightarrow> u8 list option \<Rightarrow> byte_mask option \<Rightarrow>
   MemoryAtomicOp option \<Rightarrow> u8 list option \<Rightarrow> bool" where
  "wf_fields op rng l data msk aop cmp \<longleftrightarrow>
     range_new (range_start rng) (range_size rng) = Inr rng \<and>
     (if op_carries_request_data op
      then \<exists>bytes. data = Some bytes \<and> len_u64 bytes = range_size rng else data = None) \<and>
     (if masked_operation op
      then \<exists>m. msk = Some m \<and> len_u64 m = range_size rng else msk = None) \<and>
     (is_atomic op \<longleftrightarrow> aop \<noteq> None) \<and>
     (if is_atomic op \<and> aop = Some CompareSwap
      then \<exists>c. cmp = Some c \<and> len_u64 c = range_size rng else cmp = None) \<and>
     (op = CacheBlockZero \<longrightarrow>
        line_offset l (range_start rng) = 0 \<and> range_size rng = layout_bytes l)"

definition wf_request :: "memory_request \<Rightarrow> bool" where
  "wf_request r \<longleftrightarrow>
     wf_fields (rq_operation r) (rq_range r) (rq_line_layout r) (rq_data r) (rq_byte_mask r)
       (rq_atomic_op r) (rq_atomic_compare r) \<and>
     (at_substream_id (rq_attributes r) \<noteq> None \<longrightarrow> at_stream_id (rq_attributes r) \<noteq> None)"

lemma wf_fields_iff:
  "wf_fields op rng l data msk aop cmp \<longleftrightarrow>
     range_new (range_start rng) (range_size rng) = Inr rng \<and>
     validate_payload rid op (range_size rng) data = Inr () \<and>
     validate_mask rid op (range_size rng) msk = Inr () \<and>
     validate_atomic_op rid op aop = Inr () \<and>
     validate_atomic_compare rid op (range_size rng) aop cmp = Inr () \<and>
     validate_cache_block_zero_shape op (range_start rng) (range_size rng) l = Inr ()"
  by (simp only: wf_fields_def validate_payload_iff validate_mask_iff validate_atomic_op_iff
      validate_atomic_compare_iff validate_cache_block_zero_shape_iff)

text \<open>The request the constructor returns once its checks have passed.\<close>

definition fresh_request ::
  "request_id \<Rightarrow> MemoryOperation \<Rightarrow> address_range \<Rightarrow> line_layout \<Rightarrow> request_payload \<Rightarrow> memory_request" where
  "fresh_request rid op rng l p =
     \<lparr>rq_id = rid, rq_operation = op, rq_range = rng, rq_line_layout = l,
      rq_ordering = ordering_none, rq_uncacheable = False, rq_strict_order = False,
      rq_response_required = op_requires_response op, rq_attributes = attributes_default,
      rq_data = pl_data p, rq_byte_mask = pl_byte_mask p, rq_atomic_op = pl_atomic_op p,
      rq_atomic_compare = pl_atomic_compare p\<rparr>"

lemma fresh_request_simps [simp]:
  "rq_id (fresh_request rid op rng l p) = rid"
  "rq_operation (fresh_request rid op rng l p) = op"
  "rq_range (fresh_request rid op rng l p) = rng"
  "rq_line_layout (fresh_request rid op rng l p) = l"
  "rq_response_required (fresh_request rid op rng l p) = op_requires_response op"
  "rq_attributes (fresh_request rid op rng l p) = attributes_default"
  "rq_data (fresh_request rid op rng l p) = pl_data p"
  "rq_byte_mask (fresh_request rid op rng l p) = pl_byte_mask p"
  "rq_atomic_op (fresh_request rid op rng l p) = pl_atomic_op p"
  "rq_atomic_compare (fresh_request rid op rng l p) = pl_atomic_compare p"
  by (simp_all add: fresh_request_def)

lemma request_new_iff:
  "request_new rid op a sz l p = Inr r \<longleftrightarrow>
     (\<exists>rng. range_start rng = a \<and> range_size rng = sz \<and>
       wf_fields op rng l (pl_data p) (pl_byte_mask p) (pl_atomic_op p) (pl_atomic_compare p) \<and>
       r = fresh_request rid op rng l p)"
proof -
  have "range_new a sz = Inr rng \<Longrightarrow> range_start rng = a \<and> range_size rng = sz" for rng
    by (auto simp: range_new_iff)
  then show ?thesis
    unfolding request_new_def res_bind_eq_Inr wf_fields_iff [of _ _ _ _ _ _ _ rid]
      fresh_request_def [symmetric]
    by auto
qed

lemma request_new_wf: "request_new rid op a sz l p = Inr r \<Longrightarrow> wf_request r"
  by (auto simp: request_new_iff wf_request_def attributes_default_def attributes_new_def)

lemma request_from_snapshot_wf: "request_from_snapshot snap = Inr r \<Longrightarrow> wf_request r"
  unfolding request_from_snapshot_def res_bind_eq_Inr validate_stream_attributes_iff
  by (elim exE conjE, drule request_new_wf, drule Inr_inject) (auto simp: wf_request_def)

lemma request_from_snapshot_id:
  assumes "wf_request snap"
  shows "request_from_snapshot snap = Inr snap"
proof -
  let ?p = "payload_from_snapshot snap"
  have "request_new (rq_id snap) (rq_operation snap) (range_start (rq_range snap))
      (range_size (rq_range snap)) (rq_line_layout snap) ?p =
    Inr (fresh_request (rq_id snap) (rq_operation snap) (rq_range snap) (rq_line_layout snap) ?p)"
    using assms by (auto simp: request_new_iff wf_request_def payload_from_snapshot_def)
  moreover have "validate_stream_attributes (rq_id snap) (rq_attributes snap) = Inr ()"
    using assms by (simp add: validate_stream_attributes_iff wf_request_def)
  ultimately show ?thesis
    by (simp add: request_from_snapshot_def fresh_request_def payload_from_snapshot_def)
qed

lemma wf_request_builders [intro]:
  assumes "wf_request r"
  shows "wf_request (with_ordering ord r)" "wf_request (with_privileged r)"
    "wf_request (with_secure r)" "wf_request (with_page_table_walk r)"
    "wf_request (with_evict_next r)" "wf_request (with_kernel_sync r)"
    "wf_request (with_arch_flags flags r)" "wf_request (with_stream_id stream r)"
    "wf_request (with_uncacheable r)" "wf_request (with_strict_order r)"
    "wf_request (with_response_required r)"
  using assms by (simp_all add: wf_request_def builder_defs)

lemma wf_request_with_attributes:
  "wf_request r \<Longrightarrow> with_attributes at r = Inr r' \<Longrightarrow> wf_request r'"
  by (auto simp: with_attributes_def result_simps validate_stream_attributes_iff wf_request_def)

lemma wf_request_with_substream_id:
  "wf_request r \<Longrightarrow> with_substream_id sub r = Inr r' \<Longrightarrow> wf_request r'"
  by (auto simp: with_substream_id_def wf_request_def split: if_splits)

lemma built_wf: "built r \<Longrightarrow> wf_request r"
  by (induction rule: built.induct)
     (blast intro: request_new_wf request_from_snapshot_wf wf_request_with_attributes
        wf_request_with_substream_id)+

section \<open>The values of byte strings\<close>

lemma bit_read_le_loop:
  "bit (read_le_loop shift acc bytes) n \<longleftrightarrow>
     bit acc n \<or> (n < 128 \<and> shift \<le> n div 8 \<and> n div 8 < shift + length bytes \<and>
       bit (bytes ! (n div 8 - shift)) (n mod 8))"
proof (induction bytes arbitrary: shift acc)
  case (Cons b bs)
  have b: "bit (push_bit (shift * 8) (ucast b :: 128 word)) n \<longleftrightarrow>
      n < 128 \<and> n div 8 = shift \<and> bit b (n mod 8)"
  proof (cases "n div 8 = shift")
    case True
    then have "n - shift * 8 = n mod 8" "shift * 8 \<le> n" by presburger+
    with True show ?thesis by (auto simp: bit_simps)
  next
    case False
    then have "\<not> (shift * 8 \<le> n \<and> n - shift * 8 < 8)" by presburger
    with False show ?thesis by (auto simp: bit_simps dest: bit_imp_le_length)
  qed
  show ?case
    by (cases "n div 8 = shift") (auto simp: Cons.IH b bit_or_iff nth_Cons')
qed auto

lemma bit_read_le_u128:
  "bit (read_le_u128 bytes) n \<longleftrightarrow>
     n < 128 \<and> n div 8 < length bytes \<and> bit (bytes ! (n div 8)) (n mod 8)"
  by (auto simp: read_le_u128_def bit_read_le_loop)

lemma bit_to_le_byte:
  "i < width \<Longrightarrow> bit (to_le_bytes width w ! i) j \<longleftrightarrow> j < 8 \<and> bit w (i * 8 + j)"
  by (simp add: to_le_bytes_def bit_simps)

lemma length_to_le_bytes [simp]: "length (to_le_bytes width w) = width"
  by (simp add: to_le_bytes_def)

lemma read_le_to_le_bytes:
  assumes "width \<le> 16"
  shows "read_le_u128 (to_le_bytes width w) = take_bit (width * 8) w"
proof (rule bit_word_eqI)
  fix n assume "n < LENGTH(128)"
  have "n div 8 < width \<longleftrightarrow> n < width * 8" by presburger
  then show "bit (read_le_u128 (to_le_bytes width w)) n \<longleftrightarrow> bit (take_bit (width * 8) w) n"
    using \<open>n < LENGTH(128)\<close>
    by (auto simp: bit_read_le_u128 bit_to_le_byte bit_take_bit_iff)
qed

lemma to_le_bytes_read_le:
  assumes "length bytes \<le> 16"
  shows "to_le_bytes (length bytes) (read_le_u128 bytes) = bytes"
proof (rule nth_equalityI)
  fix i assume i: "i < length (to_le_bytes (length bytes) (read_le_u128 bytes))"
  show "to_le_bytes (length bytes) (read_le_u128 bytes) ! i = bytes ! i"
  proof (rule bit_word_eqI)
    fix j assume "j < LENGTH(8)"
    then have "(i * 8 + j) div 8 = i" "(i * 8 + j) mod 8 = j" "i * 8 + j < 128"
      using i assms by auto
    with i \<open>j < LENGTH(8)\<close> show "bit (to_le_bytes (length bytes) (read_le_u128 bytes) ! i) j \<longleftrightarrow>
        bit (bytes ! i) j"
      by (simp add: bit_to_le_byte bit_read_le_u128)
  qed
qed simp

text \<open>The number a byte string stands for.\<close>

definition le_value :: "u8 list \<Rightarrow> int" where
  "le_value bytes = horner_sum uint 256 bytes"

definition le_signed_value :: "u8 list \<Rightarrow> int" where
  "le_signed_value bytes = signed_take_bit (length bytes * 8 - 1) (le_value bytes)"

lemma uint_read_le_u128:
  assumes "length bytes \<le> 16"
  shows "uint (read_le_u128 bytes) = le_value bytes"
proof (rule bit_eqI)
  fix n
  have "bit (le_value bytes) n \<longleftrightarrow> n div 8 < length bytes \<and> bit (bytes ! (n div 8)) (n mod 8)"
    using bit_horner_sum_uint_exp_iff [of bytes n] by (simp add: le_value_def)
  then show "bit (uint (read_le_u128 bytes)) n \<longleftrightarrow> bit (le_value bytes) n"
    using assms by (auto simp: bit_uint_iff bit_read_le_u128)
qed

lemma le_value_inj:
  assumes "length xs = length ys" and "length xs \<le> 16" and "le_value xs = le_value ys"
  shows "xs = ys"
  using assms by (metis to_le_bytes_read_le uint_read_le_u128 word_uint_eqI)

lemma sign_extend_word:
  fixes w :: "128 word"
  assumes k: "0 < k" "k < 128" and hi: "\<And>n. k \<le> n \<Longrightarrow> \<not> bit w n"
  shows "sint (if bit w (k - 1) then w OR push_bit k (NOT 0) else w) =
    signed_take_bit (k - 1) (uint w)"
proof (rule bit_eqI)
  fix n
  let ?v = "if bit w (k - 1) then w OR push_bit k (NOT 0) else w"
  have ones: "bit (push_bit k (NOT 0) :: 128 word) m \<longleftrightarrow> k \<le> m \<and> m < 128" for m
    by (simp add: bit_simps) auto
  have l: "bit (sint v) n \<longleftrightarrow> bit v (min 127 n)" for v :: "128 word"
    by (cases "n < 127"; cases "n = 127") (auto simp: bit_sint_iff dest: bit_imp_le_length)
  have r: "bit (signed_take_bit (k - 1) (uint w)) n \<longleftrightarrow> bit w (min (k - 1) n)"
    by (simp add: bit_signed_take_bit_iff bit_uint_iff) (use bit_imp_le_length in fastforce)
  show "bit (sint ?v) n \<longleftrightarrow> bit (signed_take_bit (k - 1) (uint w)) n"
  proof (cases "n < k")
    case True
    then have "min 127 n = n" "min (k - 1) n = n" using k by auto
    with True show ?thesis
      unfolding l r by (auto simp only: bit_or_iff ones not_le split: if_splits)
  next
    case False
    then have "k \<le> min 127 n" "min (k - 1) n = k - 1" using k by auto
    with hi [of "min 127 n"] show ?thesis
      unfolding l r by (auto simp only: bit_or_iff ones split: if_splits)
  qed
qed

lemma read_le_i128_signed:
  assumes "0 < length bytes" and "length bytes \<le> 15"
  shows "read_le_i128 bytes = le_signed_value bytes"
proof -
  let ?w = "read_le_u128 bytes" and ?k = "length bytes * 8"
  have "read_le_i128 bytes = sint (if bit ?w (?k - 1) then ?w OR push_bit ?k (NOT 0) else ?w)"
    by (simp add: read_le_i128_def Let_def push_bit_of_1 and_exp_eq_0_iff_not_bit)
  also have "\<dots> = signed_take_bit (?k - 1) (uint ?w)"
    using assms by (intro sign_extend_word) (auto simp: bit_read_le_u128)
  finally show ?thesis
    using assms by (simp add: le_signed_value_def uint_read_le_u128)
qed

lemma numeric_width_le: "numeric_width width \<Longrightarrow> 0 < width \<and> width \<le> 8"
  by (auto simp: numeric_width_def)

text \<open>What an accepted atomic operation computes on the values of its byte strings.\<close>

lemma atomic_add_value:
  assumes "atomic_add_data r old payload = Inr new" and "length old = unat (rq_size r)"
    and "length payload = unat (rq_size r)"
  shows "length new = length old \<and>
    le_value new = (le_value old + le_value payload) mod 2 ^ (8 * length old)"
proof -
  let ?w = "unat (rq_size r)"
  from assms(1) have w: "numeric_width ?w"
    and new: "new = to_le_bytes ?w ((read_le_u128 old + read_le_u128 payload) AND mask (?w * 8))"
    by (auto simp: atomic_add_data_def access_size_as_usize_def result_simps Let_def
        push_bit_of_1 mask_eq_exp_minus_1 split: if_splits)
  note le = numeric_width_le [OF w]
  have "le_value new = uint (take_bit (?w * 8) (read_le_u128 old + read_le_u128 payload))"
    using le by (simp add: new uint_read_le_u128 [symmetric] read_le_to_le_bytes
        flip: take_bit_eq_mask)
  also have "\<dots> = take_bit (?w * 8) (uint (read_le_u128 old + read_le_u128 payload))"
    by (simp add: unsigned_take_bit_eq)
  also have "uint (read_le_u128 old + read_le_u128 payload) = take_bit 128 (le_value old + le_value payload)"
    using le assms(2,3) by (simp add: uint_word_ariths uint_read_le_u128 take_bit_eq_mod)
  also have "take_bit (?w * 8) \<dots> = take_bit (?w * 8) (le_value old + le_value payload)"
    using le by (simp add: take_bit_take_bit min_def)
  finally show ?thesis
    using assms(2) by (simp add: new take_bit_eq_mod mult.commute)
qed

lemma le_value_range: "0 \<le> le_value bytes \<and> le_value bytes < 2 ^ (8 * length bytes)"
proof (induction bytes)
  case (Cons b bs)
  have "0 \<le> uint b" "uint b < 256" using uint_bounded [of b] by simp_all
  with Cons show ?case by (auto simp: le_value_def power_add)
qed (simp add: le_value_def)

lemma atomic_bitwise_value:
  assumes "atomic_bitwise_data r old payload f = Inr new" and "length old = unat (rq_size r)"
    and "length payload = unat (rq_size r)"
    and f: "\<And>x y. uint (f x y) = g (uint x) (uint y)"
    and g: "\<And>n x y. take_bit n (g x y) = g (take_bit n x) (take_bit n y)"
  shows "length new = length old \<and> le_value new = g (le_value old) (le_value payload)"
proof -
  let ?w = "unat (rq_size r)"
  from assms(1) have w: "numeric_width ?w"
    and new: "new = to_le_bytes ?w (f (read_le_u128 old) (read_le_u128 payload))"
    by (auto simp: atomic_bitwise_data_def access_size_as_usize_def result_simps split: if_splits)
  note le = numeric_width_le [OF w]
  have tb: "take_bit (?w * 8) (le_value bytes) = le_value bytes" if "length bytes = ?w" for bytes
    using le_value_range [of bytes] that
    by (simp add: take_bit_int_eq_self_iff mult.commute)
  have "le_value new = take_bit (?w * 8) (g (le_value old) (le_value payload))"
    using le assms(2,3) by (simp add: new uint_read_le_u128 [symmetric] read_le_to_le_bytes
        unsigned_take_bit_eq f)
  with g tb assms(2,3) show ?thesis by (simp add: new)
qed

lemma atomic_signed_select_value:
  assumes "atomic_signed_select_data r old payload sel = Inr new"
    and "length old = unat (rq_size r)" and "length payload = unat (rq_size r)"
  shows "new = (if sel (le_signed_value old) (le_signed_value payload) then old else payload)"
proof -
  from assms(1) have "numeric_width (unat (rq_size r))"
    by (auto simp: atomic_signed_select_data_def validate_atomic_numeric_width_def result_simps
        access_size_as_usize_def split: if_splits)
  with assms show ?thesis
    using numeric_width_le [of "unat (rq_size r)"]
    by (auto simp: atomic_signed_select_data_def result_simps read_le_i128_signed split: if_splits)
qed

lemma atomic_unsigned_select_value:
  assumes "atomic_unsigned_select_data r old payload sel = Inr new"
    and "length old = unat (rq_size r)" and "length payload = unat (rq_size r)"
    and "\<And>x y. sel x y = g (uint x) (uint y)"
  shows "new = (if g (le_value old) (le_value payload) then old else payload)"
proof -
  from assms(1) have "numeric_width (unat (rq_size r))"
    by (auto simp: atomic_unsigned_select_data_def validate_atomic_numeric_width_def result_simps
        access_size_as_usize_def split: if_splits)
  with assms show ?thesis
    using numeric_width_le [of "unat (rq_size r)"]
    by (auto simp: atomic_unsigned_select_data_def result_simps uint_read_le_u128 split: if_splits)
qed

section \<open>The meaning of an atomic operation\<close>

text \<open>The widths an operation supports, and what it makes of the old bytes and the operand.\<close>

definition atomic_width :: "MemoryAtomicOp \<Rightarrow> nat \<Rightarrow> bool" where
  "atomic_width aop width \<longleftrightarrow>
     (case aop of Swap \<Rightarrow> True | CompareSwap \<Rightarrow> width = 4 \<or> width = 8 | _ \<Rightarrow> numeric_width width)"

definition atomic_meaning ::
  "MemoryAtomicOp \<Rightarrow> u8 list option \<Rightarrow> u8 list \<Rightarrow> u8 list \<Rightarrow> u8 list \<Rightarrow> bool" where
  "atomic_meaning aop compare old operand new \<longleftrightarrow> length new = length old \<and>
    (case aop of
       Swap \<Rightarrow> new = operand
     | CompareSwap \<Rightarrow> new = (if compare = Some old then operand else old)
     | Add \<Rightarrow> le_value new = (le_value old + le_value operand) mod 2 ^ (8 * length old)
     | Xor \<Rightarrow> le_value new = le_value old XOR le_value operand
     | Or \<Rightarrow> le_value new = le_value old OR le_value operand
     | And \<Rightarrow> le_value new = le_value old AND le_value operand
     | MinSigned \<Rightarrow> le_signed_value new = min (le_signed_value old) (le_signed_value operand)
     | MaxSigned \<Rightarrow> le_signed_value new = max (le_signed_value old) (le_signed_value operand)
     | MinUnsigned \<Rightarrow> le_value new = min (le_value old) (le_value operand)
     | MaxUnsigned \<Rightarrow> le_value new = max (le_value old) (le_value operand))"


lemma size_limit:
  "numeric_width (unat sz) \<Longrightarrow> \<not> sz > MAX_VECTOR_ALLOCATION_BYTES"
  by (auto simp: numeric_width_def word_less_nat_alt)

lemma atomic_data_ok:
  "(\<exists>new. atomic_add_data r old operand = Inr new) \<longleftrightarrow> numeric_width (unat (rq_size r))"
  "(\<exists>new. atomic_bitwise_data r old operand f = Inr new) \<longleftrightarrow> numeric_width (unat (rq_size r))"
  "(\<exists>new. atomic_signed_select_data r old operand g = Inr new) \<longleftrightarrow> numeric_width (unat (rq_size r))"
  "(\<exists>new. atomic_unsigned_select_data r old operand h = Inr new) \<longleftrightarrow> numeric_width (unat (rq_size r))"
  using size_limit [of "rq_size r"]
  by (auto simp: atomic_add_data_def atomic_bitwise_data_def atomic_signed_select_data_def
      atomic_unsigned_select_data_def validate_atomic_numeric_width_def access_size_as_usize_def Let_def)


lemma atomic_write_data_dispatch:
  assumes "is_atomic (rq_operation r)" "rq_data r = Some operand" "rq_atomic_op r = Some aop"
    and "length old = unat (rq_size r)"
  shows "atomic_write_data r old = (case aop of
         Swap \<Rightarrow> Inr operand
       | CompareSwap \<Rightarrow> atomic_compare_swap_data r old operand
       | Add \<Rightarrow> atomic_add_data r old operand
       | Xor \<Rightarrow> atomic_bitwise_data r old operand (\<lambda>x y. x XOR y)
       | Or \<Rightarrow> atomic_bitwise_data r old operand (\<lambda>x y. x OR y)
       | And \<Rightarrow> atomic_bitwise_data r old operand (\<lambda>x y. x AND y)
       | MinSigned \<Rightarrow> atomic_signed_select_data r old operand (\<lambda>x y. x \<le> y)
       | MaxSigned \<Rightarrow> atomic_signed_select_data r old operand (\<lambda>x y. x \<ge> y)
       | MinUnsigned \<Rightarrow> atomic_unsigned_select_data r old operand (\<lambda>x y. x \<le> y)
       | MaxUnsigned \<Rightarrow> atomic_unsigned_select_data r old operand (\<lambda>x y. x \<ge> y))"
proof -
  have "len_u64 old = rq_size r" using assms(4) by simp
  then show ?thesis
    unfolding atomic_write_data_def using assms(1-3) by (simp add: ok_or_def)
qed

lemma atomic_compare_swap_iff:
  "rq_atomic_compare r = Some c \<Longrightarrow> atomic_compare_swap_data r old operand = Inr new \<longleftrightarrow>
     unat (rq_size r) \<in> {4, 8} \<and> new = (if c = old then operand else old)"
  using size_limit [of "rq_size r"]
  by (auto simp: atomic_compare_swap_data_def access_size_as_usize_def ok_or_def numeric_width_def)

lemma atomic_write_data_meaning:
  assumes "is_atomic (rq_operation r)" "rq_data r = Some operand" "rq_atomic_op r = Some aop"
    and len: "length old = unat (rq_size r)" "length operand = unat (rq_size r)"
    and cmp: "aop = CompareSwap \<Longrightarrow> rq_atomic_compare r \<noteq> None"
    and new: "atomic_write_data r old = Inr new"
  shows "atomic_meaning aop (rq_atomic_compare r) old operand new"
proof -
  note new = new [unfolded atomic_write_data_dispatch [OF assms(1-4)]]
  show ?thesis
  proof (cases aop)
    case Xor
    with new show ?thesis
      using atomic_bitwise_value [of r old operand "\<lambda>x y. x XOR y" new "\<lambda>x y. x XOR y"] len
      by (simp add: atomic_meaning_def unsigned_xor_eq)
  next
    case Or
    with new show ?thesis
      using atomic_bitwise_value [of r old operand "\<lambda>x y. x OR y" new "\<lambda>x y. x OR y"] len
      by (simp add: atomic_meaning_def unsigned_or_eq)
  next
    case And
    with new show ?thesis
      using atomic_bitwise_value [of r old operand "\<lambda>x y. x AND y" new "\<lambda>x y. x AND y"] len
      by (simp add: atomic_meaning_def unsigned_and_eq)
  next
    case Add
    with new show ?thesis using atomic_add_value [of r old operand new] len
      by (simp add: atomic_meaning_def)
  next
    case CompareSwap
    with new cmp len show ?thesis by (auto simp: atomic_meaning_def atomic_compare_swap_iff)
  next
    case MinSigned
    with new len show ?thesis
      using atomic_signed_select_value [of r old operand "\<lambda>x y. x \<le> y" new] by (auto simp: atomic_meaning_def)
  next
    case MaxSigned
    with new len show ?thesis
      using atomic_signed_select_value [of r old operand "\<lambda>x y. x \<ge> y" new] by (auto simp: atomic_meaning_def)
  next
    case MinUnsigned
    with new len show ?thesis
      using atomic_unsigned_select_value [OF _ len, of "\<lambda>x y. x \<le> y" new "\<lambda>x y. x \<le> y", OF _ word_le_def]
      by (auto simp: atomic_meaning_def)
  next
    case MaxUnsigned
    with new len show ?thesis
      using atomic_unsigned_select_value [OF _ len, of "\<lambda>x y. y \<le> x" new "\<lambda>x y. y \<le> x", OF _ word_le_def]
      by (auto simp: atomic_meaning_def)
  qed (use new len in \<open>simp add: atomic_meaning_def\<close>)
qed

lemma atomic_write_data_ok_iff:
  assumes "is_atomic (rq_operation r)" "rq_data r = Some operand" "rq_atomic_op r = Some aop"
    and len: "length old = unat (rq_size r)"
    and cmp: "aop = CompareSwap \<Longrightarrow> rq_atomic_compare r \<noteq> None"
  shows "(\<exists>new. atomic_write_data r old = Inr new) \<longleftrightarrow> atomic_width aop (length old)"
  using cmp atomic_compare_swap_iff [of r _ old operand]
  by (cases aop) (auto simp: atomic_write_data_dispatch [OF assms(1-4)] atomic_data_ok atomic_width_def len)

section \<open>Requests for examples\<close>

definition example_request :: "MemoryOperation \<Rightarrow> agent_id \<Rightarrow> memory_request" where
  "example_request op agent = fresh_request \<lparr>rid_agent = agent, rid_sequence = 0\<rparr> op
     \<lparr>range_start = 0, range_size = 8, range_end = 8\<rparr> \<lparr>layout_bytes = 64\<rparr> payload_empty"

lemma example_request_simps [simp]:
  "rq_id (example_request op agent) = \<lparr>rid_agent = agent, rid_sequence = 0\<rparr>"
  "rq_operation (example_request op agent) = op"
  "rq_line_address (example_request op agent) = 0"
  by (simp_all add: example_request_def rq_line_address_def line_address_def)

section \<open>Properties\<close>

text \<open>
  C14. Round trip of requests.  Whatever sequence of constructors, builders and restores produced a
  request, restoring its snapshot succeeds and gives exactly that request back.
\<close>

theorem request_roundtrip:
  assumes "built r"
  shows "request_from_snapshot (request_snapshot r) = Inr r"
proof -
  have "request_snapshot r = r" by (simp add: request_snapshot_def)
  with request_from_snapshot_id [OF built_wf [OF assms]] show ?thesis by simp
qed

theorem request_roundtrip_witness:
  "\<exists>r r'. request_write \<lparr>rid_agent = 1, rid_sequence = 0\<rparr> 64 2 [5, 6] [True, True] \<lparr>layout_bytes = 64\<rparr> = Inr r \<and>
     with_substream_id 3 (with_stream_id 2 r) = Inr r' \<and> request_from_snapshot (request_snapshot r') = Inr r'"
proof -
  let ?r = "fresh_request \<lparr>rid_agent = 1, rid_sequence = 0\<rparr> Write
    \<lparr>range_start = 64, range_size = 2, range_end = 66\<rparr> \<lparr>layout_bytes = 64\<rparr>
    (payload_write [5, 6] [True, True])"
  have r: "request_new \<lparr>rid_agent = 1, rid_sequence = 0\<rparr> Write 64 2 \<lparr>layout_bytes = 64\<rparr>
      (payload_write [5, 6] [True, True]) = Inr ?r"
    unfolding request_new_iff
    by (intro exI [of _ "\<lparr>range_start = 64, range_size = 2, range_end = 66\<rparr>"])
       (simp add: wf_fields_def range_new_iff payload_write_def op_predicates masked_operation_def)
  moreover obtain r' where r': "with_substream_id 3 (with_stream_id 2 ?r) = Inr r'"
    by (simp add: with_substream_id_def with_stream_id_def)
  ultimately show ?thesis
    using request_roundtrip [OF built_substream_id [OF built_stream_id [OF built_new [OF r]] r']]
    by (auto simp: request_write_def)
qed

text \<open>
  C15. What an atomic request writes.  For a request built by the public constructors, over old
  bytes of the request's size: the operation succeeds exactly at the widths it supports, and the
  bytes it returns have the old length and are what the operation says of the little-endian values:
  sums modulo the width, bitwise results, signed and unsigned minima and maxima, swap, and
  compare-and-swap that keeps the old bytes unless they equal the comparand.
\<close>

theorem atomic_write_data_correct:
  assumes "built r" and "is_atomic (rq_operation r)"
    and "rq_data r = Some operand" and "rq_atomic_op r = Some aop"
    and "length old = unat (rq_size r)" and "length operand = unat (rq_size r)"
  shows "if atomic_width aop (length old)
    then \<exists>new. atomic_write_data r old = Inr new \<and> atomic_meaning aop (rq_atomic_compare r) old operand new
    else \<exists>e. atomic_write_data r old = Inl e"
proof -
  have cmp: "aop = CompareSwap \<Longrightarrow> rq_atomic_compare r \<noteq> None"
    using built_wf [OF assms(1)] assms(2,4) by (auto simp: wf_request_def wf_fields_def)
  note ok = atomic_write_data_ok_iff [OF assms(2-5) cmp]
  show ?thesis
  proof (cases "atomic_write_data r old")
    case (Inl e)
    with ok show ?thesis by auto
  next
    case (Inr new)
    with ok atomic_write_data_meaning [OF assms(2-6) cmp Inr] show ?thesis by auto
  qed
qed

theorem atomic_write_data_correct_witness:
  "\<exists>r new. request_atomic_with_op \<lparr>rid_agent = 1, rid_sequence = 0\<rparr> 64 1 Add [5] [True] \<lparr>layout_bytes = 64\<rparr> =
      Inr r \<and> atomic_write_data r [254] = Inr new \<and> le_value new = 3"
proof -
  let ?r = "fresh_request \<lparr>rid_agent = 1, rid_sequence = 0\<rparr> Atomic
    \<lparr>range_start = 64, range_size = 1, range_end = 65\<rparr> \<lparr>layout_bytes = 64\<rparr> (payload_atomic Add [5] [True])"
  have r: "request_new \<lparr>rid_agent = 1, rid_sequence = 0\<rparr> Atomic 64 1 \<lparr>layout_bytes = 64\<rparr>
      (payload_atomic Add [5] [True]) = Inr ?r"
    unfolding request_new_iff
    by (intro exI [of _ "\<lparr>range_start = 64, range_size = 1, range_end = 65\<rparr>"])
       (simp add: wf_fields_def range_new_iff payload_atomic_def op_predicates masked_operation_def)
  from atomic_write_data_correct [OF built_new [OF r], of "[5]" Add "[254]"] r show ?thesis
    by (auto simp: request_atomic_with_op_def payload_atomic_def rq_size_def is_atomic_def atomic_width_def numeric_width_def
        atomic_meaning_def le_value_def)
qed

end
