(* ===== verification/Address_Map.thy ===== *)
theory Address_Map
  imports Memory_Request "HOL-Library.Product_Lexorder"
begin

text \<open>
  The address map of \<^verbatim>\<open>crates/rem6-memory/src/address_map.rs\<close>: interleaved and sparse regions,
  the packed offset of an address in its region, and the decoder that finds the region of an
  address or of a request.
\<close>

section \<open>Regions\<close>

record address_interleave =
  il_granularity :: access_size
  il_stripes :: u32
  il_match_index :: u32

definition interleave_modulo :: "access_size \<Rightarrow> u32 \<Rightarrow> u32 \<Rightarrow> MemoryError + address_interleave" where
  "interleave_modulo granularity stripes match_index =
    (if stripes = 0 then Inl ZeroInterleaveStripes
     else if match_index \<ge> stripes then Inl (InterleaveMatchOutOfRange stripes match_index)
     else Inr \<lparr>il_granularity = granularity, il_stripes = stripes, il_match_index = match_index\<rparr>)"

definition contains_offset :: "address_interleave \<Rightarrow> u64 \<Rightarrow> bool" where
  "contains_offset il offset \<longleftrightarrow>
     (offset div il_granularity il) mod ucast (il_stripes il) = ucast (il_match_index il)"

definition local_offset :: "address_interleave \<Rightarrow> u64 \<Rightarrow> u64 option" where
  "local_offset il offset =
    (if \<not> contains_offset il offset then None
     else
       let granularity = il_granularity il;
           chunk = offset div granularity;
           within_chunk = offset mod granularity
       in Some ((chunk div ucast (il_stripes il)) * granularity + within_chunk))"

definition disjoint_from :: "address_interleave \<Rightarrow> address_interleave \<Rightarrow> bool" where
  "disjoint_from il other \<longleftrightarrow> il_granularity il = il_granularity other \<and>
     il_stripes il = il_stripes other \<and> il_match_index il \<noteq> il_match_index other"

record address_region =
  rg_base :: address_range
  rg_holes :: "address_range list"
  rg_interleave :: "address_interleave option"

definition region_new :: "address_range \<Rightarrow> address_region" where
  "region_new base = \<lparr>rg_base = base, rg_holes = [], rg_interleave = None\<rparr>"

fun push_holes ::
  "address_range \<Rightarrow> address_range list \<Rightarrow> address_range list \<Rightarrow> MemoryError + address_range list" where
  "push_holes base normalized [] = Inr normalized"
| "push_holes base normalized (hole # holes) =
    (if \<not> range_contains_range base hole then Inl (SparseHoleOutsideRange base hole)
     else if normalized \<noteq> [] \<and> range_overlaps (last normalized) hole
     then Inl (OverlappingSparseHole (last normalized) hole)
     else push_holes base (normalized @ [hole]) holes)"

definition normalize_sparse_holes ::
  "address_range \<Rightarrow> address_range list \<Rightarrow> MemoryError + address_range list" where
  "normalize_sparse_holes base holes =
     push_holes base [] (sort_key (\<lambda>hole. (range_start hole, range_end hole)) holes)"

definition with_holes :: "address_region \<Rightarrow> address_range list \<Rightarrow> MemoryError + address_region" where
  "with_holes r holes =
     res_bind (normalize_sparse_holes (rg_base r) holes) (\<lambda>normalized.
     Inr (r\<lparr>rg_holes := normalized\<rparr>))"

definition with_interleave :: "address_region \<Rightarrow> address_interleave \<Rightarrow> address_region" where
  "with_interleave r il = r\<lparr>rg_interleave := Some il\<rparr>"

fun sparse_loop :: "address \<Rightarrow> u64 \<Rightarrow> address_range list \<Rightarrow> u64" where
  "sparse_loop a offset [] = offset"
| "sparse_loop a offset (hole # holes) =
     (if a \<ge> range_end hole then sparse_loop a (offset - range_size hole) holes else offset)"

definition sparse_offset :: "address_region \<Rightarrow> address \<Rightarrow> u64" where
  "sparse_offset r a = sparse_loop a (a - range_start (rg_base r)) (rg_holes r)"

definition region_offset :: "address_region \<Rightarrow> address \<Rightarrow> u64 option" where
  "region_offset r a =
    (if \<not> range_contains (rg_base r) a \<or> list_ex (\<lambda>hole. range_contains hole a) (rg_holes r) then None
     else
       let packed = sparse_offset r a
       in case rg_interleave r of None \<Rightarrow> Some packed | Some il \<Rightarrow> local_offset il packed)"

definition region_contains :: "address_region \<Rightarrow> address \<Rightarrow> bool" where
  "region_contains r a \<longleftrightarrow> region_offset r a \<noteq> None"

definition region_contains_range :: "address_region \<Rightarrow> address_range \<Rightarrow> bool" where
  "region_contains_range r rng \<longleftrightarrow>
    (case region_offset r (range_start rng) of
       None \<Rightarrow> False
     | Some start_offset \<Rightarrow>
         (case region_offset r (range_end rng - 1) of
            None \<Rightarrow> False
          | Some last_offset \<Rightarrow>
              start_offset \<le> last_offset \<and>
              unat (last_offset - start_offset) + 1 < U64_RANGE \<and>
              last_offset - start_offset + 1 = range_size rng))"

definition region_overlaps :: "address_region \<Rightarrow> address_region \<Rightarrow> bool" where
  "region_overlaps r other \<longleftrightarrow>
    (if \<not> range_overlaps (rg_base r) (rg_base other) then False
     else case (rg_interleave r, rg_interleave other) of
       (Some left, Some right) \<Rightarrow> \<not> disjoint_from left right
     | _ \<Rightarrow> True)"

section \<open>The decoder\<close>

record address_decode =
  dec_target :: target_id
  dec_region :: address_region
  dec_offset :: u64

type_synonym address_decoder = "(target_id \<times> address_region) list"

definition region_key :: "target_id \<times> address_region \<Rightarrow> address \<times> address \<times> u32 \<times> target_id" where
  "region_key = (\<lambda>(target, region).
     (range_start (rg_base region), range_end (rg_base region),
      case rg_interleave region of None \<Rightarrow> - 1 | Some il \<Rightarrow> il_match_index il, target))"

definition decoder_insert_region ::
  "address_decoder \<Rightarrow> target_id \<Rightarrow> address_region \<Rightarrow> MemoryError + address_decoder" where
  "decoder_insert_region regions target requested =
    (case List.find (\<lambda>(_, existing). region_overlaps existing requested) regions of
       Some (_, existing) \<Rightarrow> Inl (OverlappingAddressRegion (rg_base existing) (rg_base requested))
     | None \<Rightarrow> Inr (sort_key region_key (regions @ [(target, requested)])))"

definition decoder_insert ::
  "address_decoder \<Rightarrow> target_id \<Rightarrow> address \<Rightarrow> access_size \<Rightarrow> MemoryError + address_decoder" where
  "decoder_insert regions target start sz =
     res_bind (range_new start sz) (\<lambda>requested.
     decoder_insert_region regions target (region_new requested))"

definition decoder_from_snapshot :: "(target_id \<times> address_region) list \<Rightarrow> MemoryError + address_decoder" where
  "decoder_from_snapshot regions =
     res_foldl (\<lambda>decoder (target, region). decoder_insert_region decoder target region) [] regions"

definition decode_detail :: "address_decoder \<Rightarrow> address \<Rightarrow> MemoryError + address_decode" where
  "decode_detail regions a =
     ok_or (UnmappedAddress a)
       (find_map (\<lambda>(target, region).
          map_option (\<lambda>offset. \<lparr>dec_target = target, dec_region = region, dec_offset = offset\<rparr>)
            (region_offset region a)) regions)"

definition decode :: "address_decoder \<Rightarrow> address \<Rightarrow> MemoryError + target_id" where
  "decode regions a = res_bind (decode_detail regions a) (\<lambda>d. Inr (dec_target d))"

definition decode_range_with ::
  "MemoryError \<Rightarrow> address_decoder \<Rightarrow> address_range \<Rightarrow> MemoryError + address_decode" where
  "decode_range_with crosses regions rng =
    (case List.find (\<lambda>(_, region). region_contains region (range_start rng)) regions of
       None \<Rightarrow> Inl (UnmappedAddress (range_start rng))
     | Some (target, region) \<Rightarrow>
         if \<not> region_contains_range region rng then Inl crosses
         else Inr \<lparr>dec_target = target, dec_region = region,
                   dec_offset = the (region_offset region (range_start rng))\<rparr>)"

definition decode_request_detail :: "address_decoder \<Rightarrow> memory_request \<Rightarrow> MemoryError + address_decode" where
  "decode_request_detail regions r =
     decode_range_with (RequestCrossesAddressRegion (rq_id r) (rq_range r)) regions (rq_range r)"

definition decode_request :: "address_decoder \<Rightarrow> memory_request \<Rightarrow> MemoryError + target_id" where
  "decode_request regions r = res_bind (decode_request_detail regions r) (\<lambda>d. Inr (dec_target d))"

definition decode_range_detail :: "address_decoder \<Rightarrow> address_range \<Rightarrow> MemoryError + address_decode" where
  "decode_range_detail regions rng =
     decode_range_with (AccessCrossesAddressRegion rng) regions rng"

section \<open>Well-formed regions\<close>

definition wf_interleave :: "address_interleave \<Rightarrow> bool" where
  "wf_interleave il \<longleftrightarrow> il_granularity il \<noteq> 0 \<and> il_match_index il < il_stripes il"

definition wf_region :: "address_region \<Rightarrow> bool" where
  "wf_region r \<longleftrightarrow> wf_range (rg_base r) \<and>
     (\<forall>h \<in> set (rg_holes r). wf_range h \<and> range_contains_range (rg_base r) h) \<and>
     sorted_wrt (\<lambda>h h'. range_end h \<le> range_start h') (rg_holes r) \<and>
     (\<forall>il. rg_interleave r = Some il \<longrightarrow> wf_interleave il)"

lemma region_new_wf: "wf_range base \<Longrightarrow> wf_region (region_new base)"
  by (simp add: wf_region_def region_new_def)

lemma interleave_modulo_wf:
  "granularity \<noteq> 0 \<Longrightarrow> interleave_modulo granularity stripes i = Inr il \<Longrightarrow> wf_interleave il"
  by (auto simp: interleave_modulo_def wf_interleave_def split: if_splits)

lemma push_holes_wf:
  assumes "push_holes base normalized holes = Inr hs"
    and "sorted_wrt (\<lambda>h h'. range_end h \<le> range_start h') normalized"
    and "\<forall>h \<in> set normalized. wf_range h \<and> range_contains_range base h"
    and "\<forall>h \<in> set holes. wf_range h"
    and "sorted (map range_start holes)"
    and "normalized \<noteq> [] \<Longrightarrow> \<forall>h \<in> set holes. range_start (last normalized) \<le> range_start h"
  shows "sorted_wrt (\<lambda>h h'. range_end h \<le> range_start h') hs \<and>
    (\<forall>h \<in> set hs. wf_range h \<and> range_contains_range base h)"
  using assms
proof (induction base normalized holes rule: push_holes.induct)
  case (2 base normalized hole holes)
  have "range_end h \<le> range_start hole" if h: "h \<in> set normalized" for h
  proof -
    have ne: "normalized \<noteq> []" using h by auto
    then have "\<not> range_overlaps (last normalized) hole" "range_start (last normalized) \<le> range_start hole"
      using "2.prems"(1,6) by (auto split: if_splits)
    moreover have "range_start hole < range_end hole"
      using "2.prems"(4) wf_range_unat by auto
    ultimately have last: "range_end (last normalized) \<le> range_start hole"
      by (auto simp: range_overlaps_def)
    have "range_end h \<le> range_end (last normalized)"
    proof (cases "h = last normalized")
      case False
      with h ne have "h \<in> set (butlast normalized)"
        by (metis append_butlast_last_id in_set_conv_decomp_first in_set_butlast_appendI rotate1.simps(2)
            set_ConsD set_rotate1)
      with ne "2.prems"(2) have "range_end h \<le> range_start (last normalized)"
        by (metis append_butlast_last_id list.set_intros(1) sorted_wrt_append)
      moreover have "range_start (last normalized) < range_end (last normalized)"
        using "2.prems"(3) ne wf_range_unat by auto
      ultimately show ?thesis by simp
    qed simp
    with last show ?thesis by simp
  qed
  with 2 show ?case by (auto simp: sorted_wrt_append split: if_splits)
qed simp

lemma with_holes_wf:
  assumes "wf_region r" and "with_holes r holes = Inr r'" and "\<forall>h \<in> set holes. wf_range h"
  shows "wf_region r'"
proof -
  let ?hs = "sort_key (\<lambda>hole. (range_start hole, range_end hole)) holes"
  have "sorted (map fst (map (\<lambda>hole. (range_start hole, range_end hole)) ?hs))"
    unfolding sorted_map using sorted_sort_key [of "\<lambda>hole. (range_start hole, range_end hole)" holes]
    by (rule sorted_wrt_mono_rel [rotated, where P = "(\<le>)"]) (auto simp: less_eq_prod_def)
  then have "sorted (map range_start ?hs)" by (simp add: comp_def)
  with assms push_holes_wf [of "rg_base r" "[]" ?hs] show ?thesis
    by (auto simp: wf_region_def with_holes_def normalize_sparse_holes_def result_simps)
qed

lemma with_interleave_wf: "wf_region r \<Longrightarrow> wf_interleave il \<Longrightarrow> wf_region (with_interleave r il)"
  by (simp add: wf_region_def with_interleave_def)

section \<open>Packing\<close>

text \<open>The bytes of the holes below an address, and the address that remains without them.\<close>

definition hole_bytes :: "address \<Rightarrow> address \<Rightarrow> address_range list \<Rightarrow> nat" where
  "hole_bytes a b holes =
     sum_list (map (\<lambda>h. unat (range_size h)) (filter (\<lambda>h. a < range_end h \<and> range_end h \<le> b) holes))"

lemma hole_bytes_split:
  "a \<le> b \<Longrightarrow> b \<le> c \<Longrightarrow> hole_bytes a c holes = hole_bytes a b holes + hole_bytes b c holes"
  by (induction holes) (auto simp: hole_bytes_def)

lemma hole_bytes_bound:
  assumes "\<forall>h \<in> set holes. wf_range h" and "sorted_wrt (\<lambda>h h'. range_end h \<le> range_start h') holes"
    and "\<forall>h \<in> set holes. a < range_end h \<and> range_end h \<le> b \<longrightarrow> n \<le> unat (range_start h)"
    and "n \<le> unat b"
  shows "hole_bytes a b holes \<le> unat b - n"
  using assms
proof (induction holes arbitrary: n)
  case (Cons h holes)
  show ?case
  proof (cases "a < range_end h \<and> range_end h \<le> b")
    case True
    have wf: "unat (range_end h) = unat (range_start h) + unat (range_size h)"
      using Cons.prems(1) wf_range_unat by auto
    have "hole_bytes a b holes \<le> unat b - unat (range_end h)"
      using Cons.prems True by (intro Cons.IH) (auto simp: word_le_nat_alt)
    moreover have "n \<le> unat (range_start h)" "unat (range_end h) \<le> unat b"
      using Cons.prems(3) True by (auto simp: word_le_nat_alt)
    ultimately show ?thesis using True wf by (simp add: hole_bytes_def)
  next
    case False
    with Cons show ?thesis by (auto simp: hole_bytes_def)
  qed
qed (simp add: hole_bytes_def)

lemma hole_bytes_empty [simp]: "hole_bytes a a holes = 0"
  by (induction holes) (auto simp: hole_bytes_def)

lemma sparse_loop_unat:
  assumes "\<forall>h \<in> set holes. wf_range h" and "sorted_wrt (\<lambda>h h'. range_end h \<le> range_start h') holes"
    and "hole_bytes 0 a holes \<le> unat offset"
  shows "unat (sparse_loop a offset holes) = unat offset - hole_bytes 0 a holes"
  using assms
proof (induction holes arbitrary: offset)
  case (Cons h holes)
  have h: "range_start h < range_end h" using Cons.prems(1) wf_range_unat by auto
  then have pos: "0 < range_end h" by (metis word_gt_0 word_not_simps(1))
  show ?case
  proof (cases "range_end h \<le> a")
    case True
    then have b: "hole_bytes 0 a (h # holes) = unat (range_size h) + hole_bytes 0 a holes"
      using pos by (simp add: hole_bytes_def)
    with Cons.prems(3) have "unat (offset - range_size h) = unat offset - unat (range_size h)"
      by (simp add: unat_sub word_le_nat_alt)
    with True b Cons show ?thesis by simp
  next
    case False
    have "\<not> range_end h' \<le> a" if "h' \<in> set holes" for h'
    proof -
      have "range_end h \<le> range_start h'" "range_start h' < range_end h'"
        using Cons.prems(1,2) that wf_range_unat by auto
      with False show ?thesis by auto
    qed
    then have "hole_bytes 0 a (h # holes) = 0"
      using False by (auto simp: hole_bytes_def)
    with False show ?thesis by simp
  qed
qed (simp add: hole_bytes_def)

definition region_free :: "address_region \<Rightarrow> address \<Rightarrow> bool" where
  "region_free r a \<longleftrightarrow> range_contains (rg_base r) a \<and> (\<forall>h \<in> set (rg_holes r). \<not> range_contains h a)"

lemma sparse_offset_unat:
  assumes wf: "wf_region r" and a: "range_contains (rg_base r) a"
  shows "hole_bytes 0 a (rg_holes r) \<le> unat a - unat (range_start (rg_base r))"
    and "unat (sparse_offset r a) =
      unat a - unat (range_start (rg_base r)) - hole_bytes 0 a (rg_holes r)"
proof -
  have le: "unat (range_start (rg_base r)) \<le> unat a"
    using a by (simp add: range_contains_def word_le_nat_alt)
  show b: "hole_bytes 0 a (rg_holes r) \<le> unat a - unat (range_start (rg_base r))"
    using wf le by (intro hole_bytes_bound)
      (auto simp: wf_region_def range_contains_range_def word_le_nat_alt)
  have "unat (a - range_start (rg_base r)) = unat a - unat (range_start (rg_base r))"
    using le by (simp add: unat_sub word_le_nat_alt)
  with b wf show "unat (sparse_offset r a) =
      unat a - unat (range_start (rg_base r)) - hole_bytes 0 a (rg_holes r)"
    unfolding sparse_offset_def by (subst sparse_loop_unat) (auto simp: wf_region_def)
qed

text \<open>Between two free addresses the packed distance is the distance without the holes.\<close>

lemma packed_distance:
  assumes wf: "wf_region r" and a: "region_free r a" and b: "region_free r b" and "a < b"
  shows "hole_bytes a b (rg_holes r) < unat b - unat a"
    and "unat (sparse_offset r b) = unat (sparse_offset r a) + (unat b - unat a - hole_bytes a b (rg_holes r))"
proof -
  have lt: "unat a < unat b" using assms(4) by (simp add: word_less_nat_alt)
  have "\<forall>h \<in> set (rg_holes r). a < range_end h \<and> range_end h \<le> b \<longrightarrow> unat a + 1 \<le> unat (range_start h)"
    using a by (auto simp: region_free_def range_contains_def word_le_nat_alt word_less_nat_alt)
  then have "hole_bytes a b (rg_holes r) \<le> unat b - (unat a + 1)"
    using wf lt by (intro hole_bytes_bound) (auto simp: wf_region_def)
  with lt show lt': "hole_bytes a b (rg_holes r) < unat b - unat a" by simp
  have "hole_bytes 0 b (rg_holes r) = hole_bytes 0 a (rg_holes r) + hole_bytes a b (rg_holes r)"
    using assms(4) by (intro hole_bytes_split) auto
  moreover have "unat (range_start (rg_base r)) \<le> unat a"
    using a by (simp add: region_free_def range_contains_def word_le_nat_alt)
  ultimately show "unat (sparse_offset r b) =
      unat (sparse_offset r a) + (unat b - unat a - hole_bytes a b (rg_holes r))"
    using sparse_offset_unat [OF wf, of a] sparse_offset_unat [OF wf, of b] a b lt lt'
    by (simp add: region_free_def)
qed

lemma hole_bytes_0_iff:
  "\<forall>h \<in> set holes. wf_range h \<Longrightarrow>
     hole_bytes a b holes = 0 \<longleftrightarrow> (\<forall>h \<in> set holes. \<not> (a < range_end h \<and> range_end h \<le> b))"
  by (auto simp: hole_bytes_def wf_range_def unat_eq_zero)

section \<open>Interleaving\<close>

lemma stripe_position:
  "(p :: nat) = ((p div g div n) * n + p div g mod n) * g + p mod g"
  by simp

lemma stripe_local_le: "p div g div n * g + p mod g \<le> (p :: nat)"
proof -
  have "p div g div n * g \<le> p div g * g" by (simp add: div_le_dividend)
  then show ?thesis using div_mult_mod_eq [of p g] by linarith
qed

lemma unat_ucast_u64: "unat (ucast (x :: u32) :: u64) = unat x"
proof -
  have "unat x < 2 ^ 32" by (rule order_less_le_trans [OF unsigned_less]) simp
  then show ?thesis by (simp add: unsigned_ucast_eq take_bit_nat_eq_self)
qed

lemma ucast_u64_eq_iff [simp]: "(ucast (x :: u32) :: u64) = ucast y \<longleftrightarrow> x = y"
  by (simp add: word_unat_eq_iff unat_ucast_u64)

lemma local_offset_eq:
  assumes "wf_interleave il"
  shows "local_offset il p = Some x \<longleftrightarrow>
    unat p div unat (il_granularity il) mod unat (il_stripes il) = unat (il_match_index il) \<and>
    unat x = unat p div unat (il_granularity il) div unat (il_stripes il) * unat (il_granularity il) +
      unat p mod unat (il_granularity il)"
proof -
  let ?n = "ucast (il_stripes il) :: u64" and ?g = "il_granularity il"
  have n: "unat ?n = unat (il_stripes il)" "unat (ucast (il_match_index il) :: u64) = unat (il_match_index il)"
    by (simp_all add: unat_ucast_u64)
  have m: "contains_offset il p \<longleftrightarrow>
      unat p div unat ?g mod unat (il_stripes il) = unat (il_match_index il)"
    by (simp add: contains_offset_def word_unat_eq_iff unat_mod unat_div n)
  have "unat p div unat ?g div unat ?n * unat ?g + unat p mod unat ?g < 2 ^ 64"
    by (rule order_le_less_trans [OF stripe_local_le]) (rule order_less_le_trans [OF unsigned_less], simp)
  then have "unat (p div ?g div ?n * ?g + p mod ?g) =
      unat p div unat ?g div unat ?n * unat ?g + unat p mod unat ?g"
    by (simp add: unat_word_ariths(1,2) unat_div unat_mod mod_add_left_eq)
  then show ?thesis
    by (auto simp: local_offset_def Let_def m n word_unat_eq_iff)
qed

lemma wf_interleave_unat:
  "wf_interleave il \<Longrightarrow> 0 < unat (il_granularity il) \<and> unat (il_match_index il) < unat (il_stripes il)"
  by (simp add: wf_interleave_def unat_gt_0 word_less_nat_alt)

text \<open>Local offsets of one stripe: injective, monotone, and never further apart than the originals.\<close>

lemma stripe_local_div: "0 < g \<Longrightarrow> (p div g div n * g + p mod g) div g = (p :: nat) div g div n"
  by simp

lemma stripe_distance:
  fixes p q :: nat
  assumes "p \<le> q" and "0 < g" and "0 < n" and "p div g mod n = q div g mod n"
  shows "p div g div n * g + p mod g + (q - p) =
     q div g div n * g + q mod g + (q div g div n - p div g div n) * (n - 1) * g"
proof -
  define A B m where d: "A = p div g div n" "B = q div g div n" "m = p div g mod n"
  have p: "p = (A * n + m) * g + p mod g" and q: "q = (B * n + m) * g + q mod g"
    using stripe_position [of p g n] stripe_position [of q g n] assms(4) by (simp_all add: d)
  have "p div g \<le> q div g" using assms(1) by (rule div_le_mono)
  then have "A \<le> B" unfolding d by (rule div_le_mono)
  then obtain k where k: "B = A + k" by (auto simp: le_iff_add)
  obtain j where j: "n = Suc j" using assms(3) by (cases n) auto
  have "q = (A * n + m) * g + k * g + k * j * g + q mod g"
    using q by (simp add: k j algebra_simps)
  moreover have "q = (A * n + m) * g + p mod g + (q - p)"
    using p assms(1) by linarith
  ultimately have "p mod g + (q - p) = k * g + k * j * g + q mod g" by linarith
  then have "A * g + p mod g + (q - p) = B * g + q mod g + (B - A) * (n - 1) * g"
    by (simp add: k j algebra_simps)
  then show ?thesis by (simp only: d)
qed

lemma stripe_local_inj:
  fixes p q :: nat
  assumes "0 < g" and "p div g mod n = q div g mod n"
    and "p div g div n * g + p mod g = q div g div n * g + q mod g"
  shows "p = q"
proof -
  have "p div g div n = q div g div n"
    using arg_cong [OF assms(3), of "\<lambda>x. x div g"] assms(1) by (simp add: stripe_local_div)
  moreover from this have "p mod g = q mod g" using assms(3) by simp
  ultimately show ?thesis
    using stripe_position [of p g n] stripe_position [of q g n] assms(2) by metis
qed

section \<open>Offsets in a region\<close>

lemma region_offset_eq:
  "region_offset r a = Some x \<longleftrightarrow> region_free r a \<and>
     (case rg_interleave r of None \<Rightarrow> x = sparse_offset r a | Some il \<Rightarrow> local_offset il (sparse_offset r a) = Some x)"
  by (auto simp: region_offset_def region_free_def Let_def list_ex_iff split: option.splits)

lemma sparse_offset_strict:
  "wf_region r \<Longrightarrow> region_free r a \<Longrightarrow> region_free r b \<Longrightarrow> a < b \<Longrightarrow> unat (sparse_offset r a) < unat (sparse_offset r b)"
  using packed_distance [of r a b] by simp

lemma region_offset_inj:
  assumes wf: "wf_region r" and a: "region_offset r a = Some x" and b: "region_offset r b = Some x"
  shows "a = b"
proof -
  have free: "region_free r a" "region_free r b" using a b by (simp_all add: region_offset_eq)
  have "sparse_offset r a = sparse_offset r b"
  proof (cases "rg_interleave r")
    case None
    with a b show ?thesis by (simp add: region_offset_eq)
  next
    case (Some il)
    then have il: "wf_interleave il" using wf by (simp add: wf_region_def)
    with a b Some wf_interleave_unat [OF il]
      stripe_local_inj [of "unat (il_granularity il)" "unat (sparse_offset r a)" "unat (il_stripes il)"
        "unat (sparse_offset r b)"]
    show ?thesis by (simp add: region_offset_eq local_offset_eq word_unat_eq_iff)
  qed
  then show ?thesis
    using sparse_offset_strict [OF wf free] sparse_offset_strict [OF wf free(2,1)]
    by (metis less_irrefl linorder_less_linear)
qed

text \<open>Two offsets of a region are never further apart than their addresses.\<close>

lemma region_offset_distance:
  assumes wf: "wf_region r" and a: "region_offset r a = Some x" and b: "region_offset r b = Some y"
    and lt: "a < b"
  shows "unat x + (unat b - unat a) = unat y + hole_bytes a b (rg_holes r) +
    (case rg_interleave r of None \<Rightarrow> 0 | Some il \<Rightarrow>
      (unat (sparse_offset r b) div unat (il_granularity il) div unat (il_stripes il) -
       unat (sparse_offset r a) div unat (il_granularity il) div unat (il_stripes il)) *
      (unat (il_stripes il) - 1) * unat (il_granularity il))"
proof -
  have free: "region_free r a" "region_free r b" using a b by (simp_all add: region_offset_eq)
  note pd = packed_distance [OF wf free lt]
  show ?thesis
  proof (cases "rg_interleave r")
    case None
    with a b pd show ?thesis by (simp add: region_offset_eq)
  next
    case (Some il)
    then have il: "wf_interleave il" using wf by (simp add: wf_region_def)
    let ?p = "unat (sparse_offset r a)" and ?q = "unat (sparse_offset r b)"
    have "?p \<le> ?q" "?q - ?p = unat b - unat a - hole_bytes a b (rg_holes r)" using pd by simp_all
    with a b Some wf_interleave_unat [OF il] pd(1)
      stripe_distance [of ?p ?q "unat (il_granularity il)" "unat (il_stripes il)"]
    show ?thesis by (simp add: region_offset_eq local_offset_eq [OF il])
  qed
qed

lemma wf_range_last:
  "wf_range rng \<Longrightarrow> range_start rng \<le> range_end rng - 1 \<and>
     unat (range_end rng - 1) + 1 = unat (range_start rng) + unat (range_size rng) \<and>
     range_set rng = {range_start rng .. range_end rng - 1}"
proof -
  assume wf: "wf_range rng"
  then have lt: "range_start rng < range_end rng" and e: "unat (range_end rng) = unat (range_start rng) + unat (range_size rng)"
    by (simp_all add: wf_range_unat)
  have "unat (range_end rng - 1) = unat (range_end rng) - 1"
    using lt by (intro unat_u64_pred [of "range_start rng"]) (simp add: word_less_nat_alt)
  with lt e show ?thesis
    by (auto simp: range_set_def range_contains_def word_le_nat_alt word_less_nat_alt)
qed

lemma region_contains_range_offsets:
  assumes "wf_range rng"
  shows "region_contains_range r rng \<longleftrightarrow> (\<exists>x y. region_offset r (range_start rng) = Some x \<and>
    region_offset r (range_end rng - 1) = Some y \<and> unat y + 1 = unat x + unat (range_size rng))"
proof -
  have sz: "0 < unat (range_size rng)" using assms by (simp add: wf_range_def unat_gt_0)
  have "(x \<le> y \<and> unat (y - x) + 1 < U64_RANGE \<and> y - x + 1 = range_size rng) \<longleftrightarrow>
      unat y + 1 = unat x + unat (range_size rng)" for x y :: u64
  proof
    assume c: "x \<le> y \<and> unat (y - x) + 1 < U64_RANGE \<and> y - x + 1 = range_size rng"
    then have "unat (y - x) + 1 < U64_RANGE" by simp
    then have "unat (y - x + 1) = unat (y - x) + 1" by (simp add: unat_word_ariths(1))
    moreover have "range_size rng = y - x + 1" using c by simp
    ultimately have "unat (range_size rng) = unat (y - x) + 1" by (simp only:)
    with c show "unat y + 1 = unat x + unat (range_size rng)" by (simp add: unat_sub word_le_nat_alt)
  next
    assume c: "unat y + 1 = unat x + unat (range_size rng)"
    with sz have le: "x \<le> y" by (simp add: word_le_nat_alt)
    with c have "unat (y - x) + 1 = unat (range_size rng)" by (simp add: unat_sub word_le_nat_alt)
    moreover have "unat (range_size rng) < U64_RANGE" by (rule order_less_le_trans [OF unsigned_less]) simp
    ultimately show "x \<le> y \<and> unat (y - x) + 1 < U64_RANGE \<and> y - x + 1 = range_size rng"
      using le by (simp add: word_unat_eq_iff unat_word_ariths(1))
  qed
  then show ?thesis by (simp add: region_contains_range_def split: option.splits)
qed

lemma region_contains_iff:
  "region_contains r a \<longleftrightarrow> region_free r a \<and>
     (\<forall>il. rg_interleave r = Some il \<longrightarrow> local_offset il (sparse_offset r a) \<noteq> None)"
  by (auto simp: region_contains_def region_offset_def region_free_def Let_def list_ex_iff split: option.splits)

lemma local_offset_None_iff:
  assumes "wf_interleave il"
  shows "local_offset il p \<noteq> None \<longleftrightarrow>
    unat p div unat (il_granularity il) mod unat (il_stripes il) = unat (il_match_index il)"
  by (auto simp: local_offset_def Let_def contains_offset_def word_unat_eq_iff unat_mod unat_div
      unat_ucast_u64)

lemma free_between:
  assumes "wf_region r" and "region_free r s" and "region_free r l"
    and "hole_bytes s l (rg_holes r) = 0" and "s \<le> a" and "a \<le> l"
  shows "region_free r a"
proof -
  have holes: "\<not> (s < range_end h \<and> range_end h \<le> l)" if "h \<in> set (rg_holes r)" for h
    using assms(1,4) that by (auto simp: hole_bytes_0_iff wf_region_def)
  have "\<not> range_contains h a" if h: "h \<in> set (rg_holes r)" for h
    using holes [OF h] assms(2,3,5,6) h by (fastforce simp: region_free_def range_contains_def)
  then show ?thesis using assms(2,3,5,6) by (auto simp: region_free_def range_contains_def)
qed

lemma packed_mono:
  assumes "wf_region r" and "region_free r a" and "region_free r b" and "a \<le> b"
  shows "unat (sparse_offset r a) \<le> unat (sparse_offset r b)"
  using sparse_offset_strict [OF assms(1-3)] assms(4) by (cases "a < b") auto

lemma region_between:
  assumes wf: "wf_region r" and s: "region_offset r s = Some x" and l: "region_offset r l = Some y"
    and d: "unat x + (unat l - unat s) = unat y" and a: "s \<le> a" "a \<le> l"
  shows "region_contains r a"
proof (cases "s < l")
  case False
  with a(2) have "a \<le> s" by simp
  with a(1) have "a = s" by simp
  with s show ?thesis by (simp add: region_contains_def)
next
  case True
  note dist = region_offset_distance [OF wf s l True]
  have free: "region_free r s" "region_free r l" using s l by (simp_all add: region_offset_eq)
  from dist have z: "hole_bytes s l (rg_holes r) = 0"
    "(case rg_interleave r of None \<Rightarrow> 0 | Some il \<Rightarrow>
      (unat (sparse_offset r l) div unat (il_granularity il) div unat (il_stripes il) -
       unat (sparse_offset r s) div unat (il_granularity il) div unat (il_stripes il)) *
      (unat (il_stripes il) - 1) * unat (il_granularity il)) = 0"
    unfolding d by linarith+
  have fa: "region_free r a" by (rule free_between [OF wf free z(1) a])
  have "local_offset il (sparse_offset r a) \<noteq> None"
    if il: "rg_interleave r = Some il" for il
  proof -
    have wil: "wf_interleave il" using wf il by (simp add: wf_region_def)
    let ?g = "unat (il_granularity il)" and ?n = "unat (il_stripes il)" and ?m = "unat (il_match_index il)"
    let ?p = "unat (sparse_offset r s)" and ?q = "unat (sparse_offset r l)" and ?t = "unat (sparse_offset r a)"
    have pq: "?p div ?g mod ?n = ?m" "?q div ?g mod ?n = ?m"
      using s l il wil by (simp_all add: region_offset_eq local_offset_eq)
    have pt: "?p div ?g \<le> ?t div ?g" and tq: "?t div ?g \<le> ?q div ?g"
      using packed_mono [OF wf free(1) fa a(1)] packed_mono [OF wf fa free(2) a(2)] by (simp_all only: div_le_mono)
    have "(?q div ?g div ?n - ?p div ?g div ?n) * (?n - 1) * ?g = 0"
      using z(2) il by (simp only: option.case)
    then have "?q div ?g div ?n - ?p div ?g div ?n = 0 \<or> ?n - 1 = 0 \<or> ?g = 0" by (simp only: mult_eq_0_iff disj_assoc)
    with wf_interleave_unat [OF wil] consider "?n = 1" | "?q div ?g div ?n \<le> ?p div ?g div ?n"
      by linarith
    then have "?t div ?g mod ?n = ?m"
    proof cases
      case 1
      with pq show ?thesis by simp
    next
      case 2
      moreover have "?p div ?g div ?n \<le> ?q div ?g div ?n"
        by (rule div_le_mono) (rule order.trans [OF pt tq])
      ultimately have "?p div ?g div ?n = ?q div ?g div ?n" by (rule order.antisym [rotated])
      with pq have "?p div ?g = ?q div ?g"
        using div_mult_mod_eq [of "?p div ?g" ?n] div_mult_mod_eq [of "?q div ?g" ?n] by simp
      with pt tq have "?t div ?g = ?p div ?g" by simp
      with pq show ?thesis by simp
    qed
    then show ?thesis by (simp only: local_offset_None_iff [OF wil])
  qed
  with fa show ?thesis by (simp only: region_contains_iff) blast
qed

lemma region_contains_all:
  assumes wf: "wf_region r" and all: "\<And>a. s \<le> a \<Longrightarrow> a \<le> l \<Longrightarrow> region_contains r a" and "s < l"
    and x: "region_offset r s = Some x" and y: "region_offset r l = Some y"
  shows "unat x + (unat l - unat s) = unat y"
proof -
  have free: "region_free r a" if "s \<le> a" "a \<le> l" for a using all [OF that] by (simp add: region_contains_iff)
  have "\<not> (s < range_end h \<and> range_end h \<le> l)" if h: "h \<in> set (rg_holes r)" for h
  proof
    assume c: "s < range_end h \<and> range_end h \<le> l"
    have "range_start h < range_end h" using wf h wf_range_unat by (auto simp: wf_region_def)
    with c have "range_contains h (max s (range_start h))" "s \<le> max s (range_start h)" "max s (range_start h) \<le> l"
      by (auto simp: range_contains_def max_def)
    with free h show False by (auto simp: region_free_def)
  qed
  then have hb: "hole_bytes s l (rg_holes r) = 0"
    using wf by (simp add: hole_bytes_0_iff wf_region_def)
  note dist = region_offset_distance [OF wf x y assms(3)]
  have "(unat (sparse_offset r l) div unat (il_granularity il) div unat (il_stripes il) -
         unat (sparse_offset r s) div unat (il_granularity il) div unat (il_stripes il)) *
        (unat (il_stripes il) - 1) = 0" if il: "rg_interleave r = Some il" for il
  proof -
    have wil: "wf_interleave il" using wf il by (simp add: wf_region_def)
    let ?g = "unat (il_granularity il)" and ?n = "unat (il_stripes il)" and ?m = "unat (il_match_index il)"
    let ?p = "unat (sparse_offset r s)" and ?q = "unat (sparse_offset r l)"
    note pos = wf_interleave_unat [OF wil]
    have match: "unat (sparse_offset r a) div ?g mod ?n = ?m" if "s \<le> a" "a \<le> l" for a
      using all [OF that] il by (simp add: region_contains_iff local_offset_None_iff [OF wil] del: not_None_eq)
    have pm: "?p div ?g mod ?n = ?m" using match [of s] assms(3) by simp
    have "?n = 1" if c: "?p div ?g < ?q div ?g"
    proof -
      define t where "t = (?p div ?g + 1) * ?g"
      have "?p < t" using dividend_less_times_div [of ?g ?p] pos by (simp add: t_def algebra_simps)
      moreover have "t \<le> ?q"
      proof -
        have "t \<le> ?q div ?g * ?g" using c unfolding t_def by (intro mult_le_mono1) simp
        then show ?thesis using div_times_less_eq_dividend [of ?q ?g] by linarith
      qed
      moreover have "t div ?g = ?p div ?g + 1" using pos by (simp add: t_def del: add_mult_distrib)
      ultimately have t: "?p < t" "t \<le> ?q" "t div ?g = ?p div ?g + 1" by simp_all
      define a where "a = s + of_nat (t - ?p)"
      have pq: "?q - ?p = unat l - unat s"
        using packed_distance(2) [OF wf free free assms(3)] assms(3) hb by simp
      have "unat s \<le> unat l" using assms(3) by (simp add: word_less_nat_alt)
      then have bound: "unat s + (t - ?p) \<le> unat l" using t pq by linarith
      have "unat l < U64_RANGE" by (rule order_less_le_trans [OF unsigned_less]) simp
      then have ua: "unat a = unat s + (t - ?p)"
        using bound by (simp add: a_def unat_word_ariths(1) unat_of_nat take_bit_nat_eq_self)
      have a: "s \<le> a" "a \<le> l" "s < a"
        using ua bound t(1) by (simp_all add: word_le_nat_alt word_less_nat_alt)
      have "hole_bytes s a (rg_holes r) = 0" using hb hole_bytes_split [OF a(1,2), of "rg_holes r"] by simp
      then have "unat (sparse_offset r a) = t"
        using packed_distance(2) [OF wf free free a(3)] a ua t(1) assms(3) by simp
      then have "(?p div ?g + 1) mod ?n = ?p div ?g mod ?n" using match [OF a(1,2)] t(3) pm by simp
      then have "?n dvd 1" using mod_eq_dvd_iff_nat [of "?p div ?g" "?p div ?g + 1" ?n] by simp
      then show "?n = 1" by simp
    qed
    then show ?thesis by (cases "?p div ?g < ?q div ?g") (auto simp: div_le_mono)
  qed
  with dist hb show ?thesis by (cases "rg_interleave r") auto
qed

text \<open>
  A request lies in one region exactly when each of its addresses does: neither a hole nor a stripe
  boundary can hide between its ends.
\<close>

lemma region_contains_range_iff:
  assumes wf: "wf_region r" and rng: "wf_range rng"
  shows "region_contains_range r rng \<longleftrightarrow> (\<forall>a \<in> range_set rng. region_contains r a)"
proof -
  let ?s = "range_start rng" and ?l = "range_end rng - 1"
  have ends: "?s \<le> ?l" "unat ?l + 1 = unat ?s + unat (range_size rng)"
    and set: "range_set rng = {?s .. ?l}" using wf_range_last [OF rng] by simp_all
  have le: "unat ?s \<le> unat ?l" using ends(1) by (simp add: word_le_nat_alt)
  show ?thesis
  proof
    assume "region_contains_range r rng"
    then obtain x y where x: "region_offset r ?s = Some x" and y: "region_offset r ?l = Some y"
      and xy: "unat y + 1 = unat x + unat (range_size rng)"
      by (auto simp: region_contains_range_offsets [OF rng])
    have "unat x + (unat ?l - unat ?s) = unat y" using xy ends(2) le by linarith
    then show "\<forall>a \<in> range_set rng. region_contains r a"
      unfolding set using region_between [OF wf x y] by simp
  next
    assume all: "\<forall>a \<in> range_set rng. region_contains r a"
    then obtain x y where x: "region_offset r ?s = Some x" and y: "region_offset r ?l = Some y"
      using ends(1) unfolding set region_contains_def by fastforce
    have "unat x + (unat ?l - unat ?s) = unat y"
    proof (cases "?s < ?l")
      case True
      with all show ?thesis by (intro region_contains_all [OF wf _ _ x y]) (simp_all add: set)
    next
      case False
      with ends(1) have "?s = ?l" by simp
      with x y show ?thesis by simp
    qed
    then have "unat y + 1 = unat x + unat (range_size rng)" using ends(2) le by linarith
    with x y show "region_contains_range r rng" by (auto simp: region_contains_range_offsets [OF rng])
  qed
qed

section \<open>The regions of a decoder\<close>

definition decoder_disjoint :: "address_decoder \<Rightarrow> bool" where
  "decoder_disjoint regions \<longleftrightarrow> (\<forall>(target, region) \<in> set regions. wf_region region) \<and>
     sorted_wrt (\<lambda>x y. \<not> region_overlaps (snd x) (snd y)) regions"

lemma region_overlaps_sym: "region_overlaps r s = region_overlaps s r"
  by (auto simp: region_overlaps_def range_overlaps_def disjoint_from_def split: option.splits)

lemma sorted_wrt_insort:
  assumes "\<And>x y. R x y = R y x"
  shows "sorted_wrt R (insort_key f x xs) \<longleftrightarrow> sorted_wrt R (x # xs)"
  using assms by (induction xs) (auto simp: set_insort_key)

lemma sorted_wrt_sort_key:
  assumes "\<And>x y. R x y = R y x"
  shows "sorted_wrt R (sort_key f xs) \<longleftrightarrow> sorted_wrt R xs"
  by (induction xs) (auto simp: sort_key_def sorted_wrt_insort [OF assms] simp flip: sort_key_def)

lemma decoder_insert_region_disjoint:
  assumes "decoder_disjoint regions" and "wf_region region"
    and "decoder_insert_region regions target region = Inr regions'"
  shows "decoder_disjoint regions' \<and> set regions' = insert (target, region) (set regions)"
proof -
  have none: "List.find (\<lambda>(_, existing). region_overlaps existing region) regions = None"
    and regions': "regions' = sort_key region_key (regions @ [(target, region)])"
    using assms(3) by (auto simp: decoder_insert_region_def split: option.splits)
  have "sorted_wrt (\<lambda>x y. \<not> region_overlaps (snd x) (snd y)) (regions @ [(target, region)])"
    using assms(1) none by (auto simp: decoder_disjoint_def sorted_wrt_append find_None_iff)
  then show ?thesis
    using assms(1,2) unfolding regions' decoder_disjoint_def
    by (subst sorted_wrt_sort_key) (auto simp: region_overlaps_sym)
qed

text \<open>Decoders as the public operations build them.\<close>

inductive decoder_built :: "address_decoder \<Rightarrow> bool" where
  empty: "decoder_built []"
| insert: "decoder_built regions \<Longrightarrow> wf_region region \<Longrightarrow>
    decoder_insert_region regions target region = Inr regions' \<Longrightarrow> decoder_built regions'"

lemma decoder_built_disjoint: "decoder_built regions \<Longrightarrow> decoder_disjoint regions"
  by (induction rule: decoder_built.induct)
     (auto simp: decoder_disjoint_def [of "[]"] dest: decoder_insert_region_disjoint)

lemma sorted_wrt_two:
  assumes "sorted_wrt R xs" and "1 < length (filter P xs)"
  shows "\<exists>x \<in> set xs. \<exists>y \<in> set xs. P x \<and> P y \<and> R x y"
proof -
  obtain x y zs where "filter P xs = x # y # zs"
    using assms(2) by (metis One_nat_def Suc_less_eq length_Cons length_greater_0_conv less_nat_zero_code
        list.exhaust list.size(3))
  moreover have "sorted_wrt R (filter P xs)" using assms(1) by (rule sorted_wrt_filter)
  ultimately have "R x y" "x \<in> set (filter P xs)" "y \<in> set (filter P xs)" by auto
  then show ?thesis by auto
qed

text \<open>Two regions that do not overlap share an address only through stripes of different packings.\<close>

lemma shared_address:
  assumes wf: "wf_region r" "wf_region s" and disjoint: "\<not> region_overlaps r s"
    and a: "region_contains r a" "region_contains s a"
  shows "rg_interleave r \<noteq> None \<and> rg_interleave s \<noteq> None \<and> range_overlaps (rg_base r) (rg_base s) \<and>
    sparse_offset r a \<noteq> sparse_offset s a"
proof -
  have "range_contains (rg_base r) a" "range_contains (rg_base s) a"
    using a by (simp_all add: region_contains_iff region_free_def)
  then have ov: "range_overlaps (rg_base r) (rg_base s)"
    by (auto simp: range_overlaps_def range_contains_def)
  with disjoint obtain i j where i: "rg_interleave r = Some i" and j: "rg_interleave s = Some j"
    and d: "disjoint_from i j"
    by (auto simp: region_overlaps_def split: option.splits)
  have "local_offset i (sparse_offset r a) \<noteq> None" "local_offset j (sparse_offset s a) \<noteq> None"
    using a i j by (auto simp: region_contains_iff)
  then have "contains_offset i (sparse_offset r a)" "contains_offset j (sparse_offset s a)"
    by (auto simp: local_offset_def split: if_splits)
  with d have "sparse_offset r a \<noteq> sparse_offset s a"
    by (auto simp: contains_offset_def disjoint_from_def ucast_u64_eq_iff)
  with i j ov show ?thesis by simp
qed

definition interleaves_aligned :: "address_decoder \<Rightarrow> bool" where
  "interleaves_aligned regions \<longleftrightarrow> (\<forall>(_, r) \<in> set regions. \<forall>(_, s) \<in> set regions.
     rg_interleave r \<noteq> None \<and> rg_interleave s \<noteq> None \<and> range_overlaps (rg_base r) (rg_base s) \<longrightarrow>
     rg_base r = rg_base s \<and> rg_holes r = rg_holes s)"

lemma decoder_unique:
  assumes "decoder_disjoint regions" and "interleaves_aligned regions"
  shows "length (filter (\<lambda>(_, r). region_contains r a) regions) \<le> 1"
proof (rule ccontr)
  assume "\<not> ?thesis"
  then obtain x y where xy: "x \<in> set regions" "y \<in> set regions" "region_contains (snd x) a"
    "region_contains (snd y) a" "\<not> region_overlaps (snd x) (snd y)"
    using sorted_wrt_two [of "\<lambda>x y. \<not> region_overlaps (snd x) (snd y)" regions "\<lambda>(_, r). region_contains r a"]
      assms(1) by (auto simp: decoder_disjoint_def split: prod.splits)
  then have wf: "wf_region (snd x)" "wf_region (snd y)"
    using assms(1) by (auto simp: decoder_disjoint_def)
  note sh = shared_address [OF wf xy(5,3,4)]
  then have "rg_base (snd x) = rg_base (snd y) \<and> rg_holes (snd x) = rg_holes (snd y)"
    using assms(2) xy(1,2) by (fastforce simp: interleaves_aligned_def)
  with sh show False by (simp add: sparse_offset_def)
qed

lemma decode_range_with_sound:
  assumes "decoder_disjoint regions" and "wf_range rng" and "decode_range_with e regions rng = Inr d"
    and "a \<in> range_set rng"
  shows "(dec_target d, dec_region d) \<in> set regions \<and>
    (\<exists>x. region_offset (dec_region d) a = Some x \<and>
      unat x = unat (dec_offset d) + (unat a - unat (range_start rng)))"
proof -
  obtain target region where f: "List.find (\<lambda>(_, region). region_contains region (range_start rng)) regions =
      Some (target, region)"
    and cr: "region_contains_range region rng"
    and d: "d = \<lparr>dec_target = target, dec_region = region,
                 dec_offset = the (region_offset region (range_start rng))\<rparr>"
    using assms(3) by (auto simp: decode_range_with_def split: option.splits if_splits)
  have mem: "(target, region) \<in> set regions" using find_SomeD [OF f] by simp
  then have wf: "wf_region region" using assms(1) by (auto simp: decoder_disjoint_def)
  have all: "\<forall>a \<in> range_set rng. region_contains region a"
    using cr by (simp only: region_contains_range_iff [OF wf assms(2)])
  have set: "range_set rng = {range_start rng .. range_end rng - 1}"
    and le: "range_start rng \<le> range_end rng - 1" using wf_range_last [OF assms(2)] by simp_all
  obtain x where x: "region_offset region (range_start rng) = Some x"
    using all le unfolding set region_contains_def by fastforce
  obtain y where y: "region_offset region a = Some y"
    using all assms(4) by (auto simp: region_contains_def)
  have "unat x + (unat a - unat (range_start rng)) = unat y"
  proof (cases "range_start rng < a")
    case True
    show ?thesis
      using all assms(4) by (intro region_contains_all [OF wf _ True x y]) (auto simp: set)
  next
    case False
    with assms(4) have "a = range_start rng" by (simp add: set)
    with x y show ?thesis by simp
  qed
  with mem d x y show ?thesis by simp
qed

section \<open>Properties\<close>

text \<open>
  C18. No aliasing inside a region.  In every well-formed region, sparse and interleaved or not, two
  addresses with the same offset are the same address.
\<close>

theorem region_offset_injective:
  assumes "wf_region r" and "region_offset r a = Some x" and "region_offset r b = Some x"
  shows "a = b"
  using assms by (rule region_offset_inj)

text \<open>The region that the examples use: 256 bytes at 4096 with a hole, the odd stripe of 16 bytes.\<close>

definition example_region :: address_region where
  "example_region =
     \<lparr>rg_base = \<lparr>range_start = 4096, range_size = 256, range_end = 4352\<rparr>,
      rg_holes = [\<lparr>range_start = 4112, range_size = 16, range_end = 4128\<rparr>],
      rg_interleave = Some \<lparr>il_granularity = 16, il_stripes = 2, il_match_index = 1\<rparr>\<rparr>"

lemma example_region_wf: "wf_region example_region"
  by (simp add: example_region_def wf_region_def wf_range_def range_new_def range_contains_range_def
      wf_interleave_def)

theorem region_offset_injective_witness:
  "wf_region example_region \<and> {b. region_offset example_region b = Some 2} = {4130}"
proof -
  have "region_offset example_region 4130 = Some 2" by code_simp
  then show ?thesis using region_offset_injective [OF example_region_wf] example_region_wf by blast
qed

text \<open>
  C19. A decoded request stays in its region.  In a decoder built by the public operations, if a
  request decodes, then its region is one of the decoder, every address of the request lies in it,
  and the offsets run consecutively from the decoded one.
\<close>

theorem decode_request_sound:
  assumes "decoder_built regions" and "wf_range (rq_range r)"
    and "decode_request_detail regions r = Inr d" and "a \<in> range_set (rq_range r)"
  shows "(dec_target d, dec_region d) \<in> set regions \<and>
    (\<exists>x. region_offset (dec_region d) a = Some x \<and>
      unat x = unat (dec_offset d) + (unat a - unat (range_start (rq_range r))))"
  using decode_range_with_sound [OF decoder_built_disjoint [OF assms(1)] assms(2) _ assms(4)] assms(3)
  by (simp add: decode_request_detail_def)

theorem decode_request_sound_witness:
  "\<exists>d. decode_request_detail [(7, example_region)]
      ((example_request ReadShared 1)\<lparr>rq_range := \<lparr>range_start = 4130, range_size = 8, range_end = 4138\<rparr>\<rparr>) = Inr d \<and>
    dec_target d = 7 \<and> region_offset (dec_region d) 4137 = Some 9"
proof -
  let ?r = "(example_request ReadShared 1)\<lparr>rq_range := \<lparr>range_start = 4130, range_size = 8, range_end = 4138\<rparr>\<rparr>"
  have ins: "decoder_insert_region [] 7 example_region = Inr [(7, example_region)]"
    by (simp add: decoder_insert_region_def)
  have "region_offset example_region 4130 = Some 2" "region_offset example_region 4137 = Some 9"
    by code_simp+
  then have d: "decode_request_detail [(7, example_region)] ?r =
      Inr \<lparr>dec_target = 7, dec_region = example_region, dec_offset = 2\<rparr>"
    by (simp add: decode_request_detail_def decode_range_with_def region_contains_def
        region_contains_range_def)
  have wf: "wf_range (rq_range ?r)" by (simp add: wf_range_def range_new_def)
  have mem: "4137 \<in> range_set (rq_range ?r)" by (simp add: range_set_def range_contains_def)
  have "\<exists>x. region_offset example_region 4137 = Some x \<and> unat x = 9"
    using decode_request_sound [OF decoder_built.insert [OF decoder_built.empty example_region_wf ins] wf d mem]
    by simp
  then show ?thesis using d by (auto simp: word_unat_eq_iff)
qed




end
