(* ===== verification/Memory_Store.thy ===== *)
theory Memory_Store
  imports Address_Map
begin

text \<open>
  The backing store of \<^verbatim>\<open>crates/rem6-memory/src/lib.rs\<close>: \<open>LineMemoryStore\<close>, which keeps whole
  cache lines and the load-reserved granules of each agent and answers every kind of request.
  The lemmas show that it refines a memory of bytes.
\<close>

section \<open>The line store\<close>

record line_memory_store =
  ms_layout :: line_layout
  ms_lines :: "address \<rightharpoonup> u8 list"
  ms_locked :: "agent_id \<rightharpoonup> address"

definition store_new :: "line_layout \<Rightarrow> line_memory_store" where
  "store_new layout = \<lparr>ms_layout = layout, ms_lines = Map.empty, ms_locked = Map.empty\<rparr>"

definition store_line_data :: "line_memory_store \<Rightarrow> address \<Rightarrow> u8 list option" where
  "store_line_data s line = ms_lines s (line_address (ms_layout s) line)"

definition clear_locked_reservations_for_range ::
  "address_range \<Rightarrow> line_memory_store \<Rightarrow> line_memory_store" where
  "clear_locked_reservations_for_range rng s =
     s\<lparr>ms_locked := (\<lambda>agent. case ms_locked s agent of
         None \<Rightarrow> None
       | Some reserved \<Rightarrow> if llsc_reservation_overlaps_range reserved rng then None else Some reserved)\<rparr>"

definition clear_locked_reservations :: "memory_request \<Rightarrow> line_memory_store \<Rightarrow> line_memory_store" where
  "clear_locked_reservations r s =
     s\<lparr>ms_locked := (\<lambda>agent. case ms_locked s agent of
         None \<Rightarrow> None
       | Some reserved \<Rightarrow> if overlaps_llsc_reservation r reserved then None else Some reserved)\<rparr>"

definition track_load_locked :: "memory_request \<Rightarrow> line_memory_store \<Rightarrow> line_memory_store" where
  "track_load_locked r s =
     s\<lparr>ms_locked := (ms_locked s)(rid_agent (rq_id r) \<mapsto> llsc_reservation_address r)\<rparr>"

definition store_conditional_allowed :: "line_memory_store \<Rightarrow> memory_request \<Rightarrow> bool" where
  "store_conditional_allowed s r \<longleftrightarrow>
     ms_locked s (rid_agent (rq_id r)) = Some (llsc_reservation_address r)"

definition validate_line_data :: "line_memory_store \<Rightarrow> u64 \<Rightarrow> MemoryError + unit" where
  "validate_line_data s actual =
    (if actual \<noteq> layout_bytes (ms_layout s) then
       res_bind (access_size_new (layout_bytes (ms_layout s))) (\<lambda>expected.
       Inl (PayloadSizeMismatch expected actual))
     else Inr ())"

definition store_insert_line ::
  "line_memory_store \<Rightarrow> address \<Rightarrow> u8 list \<Rightarrow> MemoryError + line_memory_store" where
  "store_insert_line s line data =
    (if line_offset (ms_layout s) line \<noteq> 0
     then Inl (UnalignedLineAddress line (layout_bytes (ms_layout s)))
     else
       res_bind (validate_line_data s (len_u64 data)) (\<lambda>_.
       res_bind (access_size_new (layout_bytes (ms_layout s))) (\<lambda>sz.
       res_bind (range_new line sz) (\<lambda>rng.
       let s = clear_locked_reservations_for_range rng s
       in Inr (s\<lparr>ms_lines := (ms_lines s)(line \<mapsto> data)\<rparr>)))))"

definition check_line_layout :: "line_memory_store \<Rightarrow> memory_request \<Rightarrow> MemoryError + unit" where
  "check_line_layout s r =
    (if rq_line_layout r \<noteq> ms_layout s
     then Inl (LineLayoutMismatch (rq_id r) (ms_layout s) (rq_line_layout r))
     else Inr ())"

definition check_single_line :: "line_memory_store \<Rightarrow> memory_request \<Rightarrow> MemoryError + unit" where
  "check_single_line s r =
    (if rq_line_span r \<noteq> 1
     then Inl (CrossLineAccess (rq_id r) (range_start (rq_range r)) (rq_size r) (layout_bytes (ms_layout s)))
     else Inr ())"

definition line_ref :: "line_memory_store \<Rightarrow> address \<Rightarrow> MemoryError + u8 list" where
  "line_ref s line =
    (let line = line_address (ms_layout s) line in ok_or (UnmappedLine line) (ms_lines s line))"

definition require_line :: "line_memory_store \<Rightarrow> address \<Rightarrow> MemoryError + unit" where
  "require_line s line =
    (if ms_lines s (line_address (ms_layout s) line) \<noteq> None then Inr ()
     else Inl (UnmappedLine (line_address (ms_layout s) line)))"

definition read_slice :: "line_memory_store \<Rightarrow> memory_request \<Rightarrow> MemoryError + u8 list" where
  "read_slice s r =
    (let offset = unat (rq_line_offset r); sz = unat (rq_size r)
     in res_bind (line_ref s (rq_line_address r)) (\<lambda>line. Inr (take sz (drop offset line))))"

text \<open>\<^verbatim>\<open>mask.is_none_or(|mask| mask.bits()[index])\<close>.\<close>

definition mask_bit :: "byte_mask option \<Rightarrow> nat \<Rightarrow> bool" where
  "mask_bit msk index \<longleftrightarrow> (case msk of None \<Rightarrow> True | Some bits \<Rightarrow> bits ! index)"

text \<open>The loop of \<open>apply_write_data\<close> over the payload, from position \<open>index\<close> on.\<close>

fun write_loop :: "byte_mask option \<Rightarrow> nat \<Rightarrow> nat \<Rightarrow> u8 list \<Rightarrow> u8 list \<Rightarrow> u8 list" where
  "write_loop msk offset index [] line = line"
| "write_loop msk offset index (byte # payload) line =
     write_loop msk offset (Suc index) payload
       (if mask_bit msk index then line[offset + index := byte] else line)"

definition apply_write_data ::
  "line_memory_store \<Rightarrow> memory_request \<Rightarrow> u8 list \<Rightarrow> MemoryError + line_memory_store" where
  "apply_write_data s r payload =
    (let offset = unat (rq_line_offset r); line = line_address (ms_layout s) (rq_line_address r)
     in res_bind (line_ref s (rq_line_address r)) (\<lambda>data.
        Inr (s\<lparr>ms_lines := (ms_lines s)(line \<mapsto> write_loop (rq_byte_mask r) offset 0 payload data)\<rparr>)))"

definition apply_write :: "line_memory_store \<Rightarrow> memory_request \<Rightarrow> MemoryError + line_memory_store" where
  "apply_write s r =
     res_bind (ok_or (MissingRequestData (rq_id r)) (rq_data r)) (\<lambda>payload. apply_write_data s r payload)"

definition apply_cache_block_zero ::
  "line_memory_store \<Rightarrow> memory_request \<Rightarrow> MemoryError + line_memory_store" where
  "apply_cache_block_zero s r =
    (let line = line_address (ms_layout s) (rq_line_address r)
     in res_bind (line_ref s (rq_line_address r)) (\<lambda>data.
        Inr (s\<lparr>ms_lines := (ms_lines s)(line \<mapsto> replicate (length data) 0)\<rparr>)))"

definition replace_line :: "line_memory_store \<Rightarrow> memory_request \<Rightarrow> MemoryError + line_memory_store" where
  "replace_line s r =
     res_bind (ok_or (MissingRequestData (rq_id r)) (rq_data r)) (\<lambda>data.
     res_bind (validate_line_data s (len_u64 data)) (\<lambda>_.
     Inr (s\<lparr>ms_lines := (ms_lines s)(rq_line_address r \<mapsto> data)\<rparr>)))"

abbreviation completed_some :: "memory_request \<Rightarrow> u8 list option \<Rightarrow> MemoryError + memory_response option" where
  "completed_some r data \<equiv> map_ok Some (response_completed r data)"

text \<open>The \<^verbatim>\<open>match\<close> of \<open>respond\<close> once the request is known to stay in one line.\<close>

definition store_access ::
  "line_memory_store \<Rightarrow> memory_request \<Rightarrow>
   (line_memory_store, MemoryError, memory_response option) outcome" where
  "store_access s r =
    (if rq_operation r \<in> {InstructionFetch, ReadShared, ReadUnique, LockedRmwRead, StoreConditionalUpgradeFail} then
      st_try s (read_slice s r) (\<lambda>data. (s, completed_some r (Some data)))
    else if rq_operation r = LoadLocked then
      st_try s (read_slice s r) (\<lambda>data. (track_load_locked r s, completed_some r (Some data)))
    else if rq_operation r = StoreConditional then
      if \<not> store_conditional_allowed s r then (s, map_ok Some (response_store_conditional_failed r))
      else st_try s (apply_write s r) (\<lambda>s. (clear_locked_reservations r s, completed_some r None))
    else if rq_operation r = StoreConditionalFail then
      (s, map_ok Some (response_store_conditional_failed r))
    else if rq_operation r \<in> {Write, LockedRmwWrite} then
      st_try s (apply_write s r) (\<lambda>s. (clear_locked_reservations r s, completed_some r None))
    else if rq_operation r = CacheBlockZero then
      st_try s (apply_cache_block_zero s r) (\<lambda>s. (clear_locked_reservations r s, completed_some r None))
    else if rq_operation r \<in> {Atomic, AtomicNoReturn} then
      st_try s (read_slice s r) (\<lambda>data.
      st_try s (atomic_write_data r data) (\<lambda>write_data.
      st_try s (apply_write_data s r write_data) (\<lambda>s.
      (clear_locked_reservations r s,
       completed_some r (if rq_operation r = Atomic then Some data else None)))))
    else if rq_operation r \<in> {StoreConditionalUpgrade, Upgrade, CleanShared, MemoryOperation.Invalidate,
        InvalidateWritable} then
      st_try s (require_line s (rq_line_address r)) (\<lambda>_. (s, completed_some r None))
    else if rq_operation r \<in> {PrefetchRead, PrefetchWrite} then
      st_try s (require_line s (rq_line_address r)) (\<lambda>_.
      if rq_response_required r then (s, completed_some r None) else (s, Inr None))
    else if rq_operation r \<in> {WriteClean, WritebackClean, WritebackDirty} then
      st_try s (replace_line s r) (\<lambda>s. (clear_locked_reservations r s, Inr None))
    else
      st_try s (require_line s (rq_line_address r)) (\<lambda>_. (s, Inr None)))"

definition store_respond ::
  "line_memory_store \<Rightarrow> memory_request \<Rightarrow>
   (line_memory_store, MemoryError, memory_response option) outcome" where
  "store_respond s r =
    st_try s (check_line_layout s r) (\<lambda>_.
    if rq_operation r = NoAccess then (s, completed_some r None)
    else st_try s (check_single_line s r) (\<lambda>_. store_access s r))"

section \<open>Snapshots of the line store\<close>

record line_memory_snapshot =
  lms_layout :: line_layout
  lms_lines :: "(address \<times> u8 list) list"

definition store_snapshot :: "line_memory_store \<Rightarrow> line_memory_snapshot" where
  "store_snapshot s =
     \<lparr>lms_layout = ms_layout s,
      lms_lines = map (\<lambda>line. (line, the (ms_lines s line))) (sorted_list_of_set (dom (ms_lines s)))\<rparr>"

definition store_from_snapshot :: "line_memory_snapshot \<Rightarrow> MemoryError + line_memory_store" where
  "store_from_snapshot snap =
     res_foldl (\<lambda>s (line, data).
         if ms_lines s line \<noteq> None then Inl (DuplicateMemoryLine line)
         else store_insert_line s line data)
       (store_new (lms_layout snap)) (lms_lines snap)"

definition store_restore ::
  "line_memory_store \<Rightarrow> line_memory_snapshot \<Rightarrow> (line_memory_store, MemoryError, unit) outcome" where
  "store_restore s snap =
    (case store_from_snapshot snap of Inl e \<Rightarrow> (s, Inl e) | Inr s' \<Rightarrow> (s', Inr ()))"

text \<open>
  The loop of \<open>validate_access_range\<close> over the lines of a range; \<open>None\<close> stands for a loop that
  does not end.
\<close>

partial_function (option) access_loop ::
  "line_memory_store \<Rightarrow> address \<Rightarrow> address \<Rightarrow> (MemoryError + unit) option" where
  "access_loop s last_line line =
    (case require_line s line of
       Inl e \<Rightarrow> Some (Inl e)
     | Inr _ \<Rightarrow> if line = last_line then Some (Inr ())
                else access_loop s last_line (line + layout_bytes (ms_layout s)))"

definition store_validate_access_range :: "line_memory_store \<Rightarrow> address_range \<Rightarrow> (MemoryError + unit) option" where
  "store_validate_access_range s rng =
     access_loop s (line_address (ms_layout s) (range_end rng - 1))
       (line_address (ms_layout s) (range_start rng))"

section \<open>The invariant\<close>

definition store_inv :: "line_memory_store \<Rightarrow> bool" where
  "store_inv s \<longleftrightarrow> wf_layout (ms_layout s) \<and> finite (dom (ms_lines s)) \<and>
     (\<forall>line data. ms_lines s line = Some data \<longrightarrow>
        line_offset (ms_layout s) line = 0 \<and> length data = line_bytes (ms_layout s) \<and>
        unat line + line_bytes (ms_layout s) < U64_RANGE)"

text \<open>
  A request as the constructors make it, with sizes that are lengths of vectors in memory and a size
  and layout that passed their own constructors.
\<close>

definition valid_request :: "memory_request \<Rightarrow> bool" where
  "valid_request r \<longleftrightarrow> wf_request r \<and> wf_layout (rq_line_layout r) \<and> wf_range (rq_range r) \<and>
     (\<forall>data. rq_data r = Some data \<longrightarrow> length data < U64_RANGE) \<and>
     (\<forall>bits. rq_byte_mask r = Some bits \<longrightarrow> length bits < U64_RANGE) \<and>
     (op_requires_response (rq_operation r) \<longrightarrow> rq_response_required r)"

lemma len_u64_eq: "length xs < U64_RANGE \<Longrightarrow> len_u64 xs = w \<longleftrightarrow> length xs = unat w"
  by (auto simp: word_unat_eq_iff unat_of_nat take_bit_nat_eq_self)

lemma valid_request_data:
  "valid_request r \<Longrightarrow> rq_data r = Some data \<Longrightarrow> length data = unat (rq_size r)"
  by (auto simp: valid_request_def wf_request_def wf_fields_def rq_size_def len_u64_eq split: if_splits)

lemma valid_request_mask:
  "valid_request r \<Longrightarrow> rq_byte_mask r = Some bits \<Longrightarrow> length bits = unat (rq_size r)"
  by (auto simp: valid_request_def wf_request_def wf_fields_def rq_size_def len_u64_eq split: if_splits)

lemma line_bytes_unat: "line_bytes l = unat (layout_bytes l)"
  by (simp add: line_bytes_def)

lemma line_0_iff: "wf_layout l \<Longrightarrow> line_offset l a = 0 \<longleftrightarrow> line_address l a = a"
  by (auto simp: line_offset_def)

lemma line_address_unat: "wf_layout l \<Longrightarrow> unat a = unat (line_address l a) + unat (line_offset l a)"
  by (simp add: line_address_div line_offset_mod)

text \<open>A request that spans one line: every address of it is in that line.\<close>

lemma line_span_1:
  assumes l: "wf_layout l" and rng: "wf_range rng" and span: "line_span l rng = 1" and a: "a \<in> range_set rng"
  shows "line_address l a = line_address l (range_start rng)"
    and "unat (line_offset l a) = unat (line_offset l (range_start rng)) + (unat a - unat (range_start rng))"
proof -
  let ?n = "line_bytes l" and ?s = "range_start rng" and ?e = "range_end rng - 1"
  have n: "0 < ?n" using l by (rule line_bytes_pos)
  have a: "?s \<le> a" "a \<le> ?e" and se: "?s \<le> ?e" using wf_range_last [OF rng] assms(4) by simp_all
  have le: "unat ?s div ?n \<le> unat a div ?n" "unat a div ?n \<le> unat ?e div ?n" "unat ?s div ?n \<le> unat ?e div ?n"
    using a se by (simp_all add: div_le_mono word_le_nat_alt)
  have z: "(line_address l ?e - line_address l ?s) div layout_bytes l = 0"
    using span by (simp add: line_span_def Let_def)
  have "line_address l ?s \<le> line_address l ?e"
    using le(3) by (simp add: word_le_nat_alt line_address_div [OF l])
  then have "unat (line_address l ?e - line_address l ?s) = unat (line_address l ?e) - unat (line_address l ?s)"
    by (rule unat_sub)
  moreover have "unat (line_address l ?e - line_address l ?s) div ?n = 0"
    unfolding line_bytes_unat unat_div [symmetric] z by simp
  ultimately have "(unat (line_address l ?e) - unat (line_address l ?s)) div ?n = 0" by (simp only:)
  then have "(unat ?e div ?n - unat ?s div ?n) * ?n div ?n = 0"
    by (simp add: line_address_div [OF l] diff_mult_distrib)
  then have "unat ?e div ?n = unat ?s div ?n" using n le by simp
  with le have eq: "unat a div ?n = unat ?s div ?n" by simp
  then show la: "line_address l a = line_address l ?s" by (simp add: line_address_eq_iff [OF l])
  have "unat ?s \<le> unat a" using a by (simp add: word_le_nat_alt)
  with la line_address_unat [OF l, of a] line_address_unat [OF l, of ?s]
  show "unat (line_offset l a) = unat (line_offset l ?s) + (unat a - unat ?s)" by simp
qed

lemma single_line_bound:
  assumes "wf_layout l" and "wf_range rng" and "line_span l rng = 1"
  shows "unat (line_offset l (range_start rng)) + unat (range_size rng) \<le> line_bytes l"
proof -
  let ?e = "range_end rng - 1"
  have e: "?e \<in> range_set rng" and u: "unat ?e + 1 = unat (range_start rng) + unat (range_size rng)"
    using wf_range_last [OF assms(2)] by simp_all
  have "0 < unat (range_size rng)" using assms(2) by (simp add: wf_range_def unat_gt_0)
  with line_span_1(2) [OF assms e] line_offset_less [OF assms(1), of ?e] u show ?thesis by linarith
qed

section \<open>The store as a memory of bytes\<close>

lemma length_write_loop [simp]: "length (write_loop msk offset index payload line) = length line"
  by (induction msk offset index payload line rule: write_loop.induct) auto

lemma nth_write_loop:
  "j < length line \<Longrightarrow> write_loop msk offset index payload line ! j =
    (if offset + index \<le> j \<and> j < offset + index + length payload \<and> mask_bit msk (j - offset)
     then payload ! (j - offset - index) else line ! j)"
proof (induction msk offset index payload line rule: write_loop.induct)
  case (2 msk offset index byte payload line)
  then show ?case
    by (cases "j = offset + index") (auto simp: nth_Cons' nth_list_update simp del: not_less)
qed auto

definition byte_at :: "line_memory_store \<Rightarrow> address \<Rightarrow> u8 option" where
  "byte_at s a = map_option (\<lambda>data. data ! unat (line_offset (ms_layout s) a))
     (ms_lines s (line_address (ms_layout s) a))"

text \<open>The same operations on a memory of bytes.\<close>

type_synonym byte_memory = "address \<rightharpoonup> u8"

definition mem_read :: "byte_memory \<Rightarrow> address_range \<Rightarrow> u8 list" where
  "mem_read mem rng = map (\<lambda>i. the (mem (range_start rng + of_nat i))) [0..<unat (range_size rng)]"

definition mem_write :: "byte_memory \<Rightarrow> address_range \<Rightarrow> byte_mask option \<Rightarrow> u8 list \<Rightarrow> byte_memory" where
  "mem_write mem rng msk payload = (\<lambda>a.
     let i = unat a - unat (range_start rng)
     in if a \<in> range_set rng \<and> mask_bit msk i then Some (payload ! i) else mem a)"

lemma range_index:
  assumes "wf_range rng" and "i < unat (range_size rng)"
  shows "range_start rng + of_nat i \<in> range_set rng"
    and "unat (range_start rng + of_nat i) = unat (range_start rng) + i"
proof -
  have e: "unat (range_end rng) = unat (range_start rng) + unat (range_size rng)"
    using assms(1) by (simp add: wf_range_unat)
  have "unat (range_end rng) < U64_RANGE" by (rule order_less_le_trans [OF unsigned_less]) simp
  with e assms(2) show u: "unat (range_start rng + of_nat i) = unat (range_start rng) + i"
    by (simp add: unat_word_ariths(1) unat_of_nat take_bit_nat_eq_self)
  with e assms(2) show "range_start rng + of_nat i \<in> range_set rng"
    by (simp add: range_set_def range_contains_def word_le_nat_alt word_less_nat_alt)
qed

text \<open>What the checks of \<open>respond\<close> give for the access to one line.\<close>

definition one_line :: "line_memory_store \<Rightarrow> memory_request \<Rightarrow> bool" where
  "one_line s r \<longleftrightarrow> store_inv s \<and> valid_request r \<and> rq_line_layout r = ms_layout s \<and> rq_line_span r = 1"

lemma one_line_facts:
  assumes "one_line s r"
  shows "wf_layout (ms_layout s)" "wf_range (rq_range r)" "line_span (ms_layout s) (rq_range r) = 1"
    "line_address (ms_layout s) (rq_line_address r) = rq_line_address r"
    "rq_line_address r = line_address (ms_layout s) (range_start (rq_range r))"
    "rq_line_offset r = line_offset (ms_layout s) (range_start (rq_range r))"
    "unat (rq_line_offset r) + unat (rq_size r) \<le> line_bytes (ms_layout s)"
proof -
  show l: "wf_layout (ms_layout s)" and rng: "wf_range (rq_range r)"
    and span: "line_span (ms_layout s) (rq_range r) = 1"
    using assms by (auto simp: one_line_def store_inv_def valid_request_def rq_line_span_def)
  show la: "rq_line_address r = line_address (ms_layout s) (range_start (rq_range r))"
    and lo: "rq_line_offset r = line_offset (ms_layout s) (range_start (rq_range r))"
    using assms by (simp_all add: one_line_def rq_line_address_def rq_line_offset_def)
  show "line_address (ms_layout s) (rq_line_address r) = rq_line_address r"
    using l by (simp add: la line_address_idem)
  show "unat (rq_line_offset r) + unat (rq_size r) \<le> line_bytes (ms_layout s)"
    using single_line_bound [OF l rng span] by (simp add: lo rq_size_def)
qed

lemma one_line_address:
  assumes "one_line s r" and "a \<in> range_set (rq_range r)"
  shows "line_address (ms_layout s) a = rq_line_address r"
    and "unat (line_offset (ms_layout s) a) = unat (rq_line_offset r) + (unat a - unat (range_start (rq_range r)))"
  using line_span_1 [OF one_line_facts(1-3) [OF assms(1)] assms(2)] one_line_facts(5,6) [OF assms(1)] by simp_all

lemma read_slice_bytes:
  assumes ol: "one_line s r" and "read_slice s r = Inr data"
  shows "data = mem_read (byte_at s) (rq_range r)" "length data = unat (rq_size r)"
proof -
  note f = one_line_facts [OF ol]
  obtain line where line: "ms_lines s (rq_line_address r) = Some line"
    and data: "data = take (unat (rq_size r)) (drop (unat (rq_line_offset r)) line)"
    using assms(2) f(4) by (auto simp: read_slice_def line_ref_def Let_def result_simps)
  have len: "length line = line_bytes (ms_layout s)"
    using ol line by (auto simp: one_line_def store_inv_def)
  then show l: "length data = unat (rq_size r)" using f(7) by (simp add: data)
  show "data = mem_read (byte_at s) (rq_range r)"
  proof (rule nth_equalityI)
    show "length data = length (mem_read (byte_at s) (rq_range r))"
      by (simp add: l mem_read_def rq_size_def)
  next
    fix i assume "i < length data"
    then have i: "i < unat (range_size (rq_range r))" using l by (simp add: rq_size_def)
    note ri = range_index [OF f(2) i]
    show "data ! i = mem_read (byte_at s) (rq_range r) ! i"
      using i l len f(7) one_line_address [OF ol ri(1)] ri(2)
      by (simp add: mem_read_def byte_at_def line data rq_size_def)
  qed
qed

lemma apply_write_data_bytes:
  assumes ol: "one_line s r" and "apply_write_data s r payload = Inr s'" and "length payload = unat (rq_size r)"
  shows "byte_at s' = mem_write (byte_at s) (rq_range r) (rq_byte_mask r) payload"
    and "store_inv s'" and "ms_layout s' = ms_layout s" and "ms_locked s' = ms_locked s"
proof -
  note f = one_line_facts [OF ol]
  obtain line where line: "ms_lines s (rq_line_address r) = Some line"
    and s': "s' = s\<lparr>ms_lines := (ms_lines s)(rq_line_address r \<mapsto>
        write_loop (rq_byte_mask r) (unat (rq_line_offset r)) 0 payload line)\<rparr>"
    using assms(2) f(4) by (auto simp: apply_write_data_def line_ref_def Let_def result_simps)
  have len: "length line = line_bytes (ms_layout s)"
    using ol line by (auto simp: one_line_def store_inv_def)
  show "store_inv s'" using ol line by (auto simp: one_line_def store_inv_def s')
  show "ms_layout s' = ms_layout s" "ms_locked s' = ms_locked s" by (simp_all add: s')
  show "byte_at s' = mem_write (byte_at s) (rq_range r) (rq_byte_mask r) payload"
  proof
    fix a
    let ?l = "ms_layout s" and ?off = "unat (rq_line_offset r)" and ?st = "unat (range_start (rq_range r))"
    show "byte_at s' a = mem_write (byte_at s) (rq_range r) (rq_byte_mask r) payload a"
    proof (cases "line_address ?l a = rq_line_address r")
      case False
      then have "a \<notin> range_set (rq_range r)" using one_line_address(1) [OF ol] by blast
      with False show ?thesis by (simp add: byte_at_def mem_write_def s')
    next
      case True
      let ?j = "unat (line_offset ?l a)"
      have "unat a = unat (rq_line_address r) + ?j" using line_address_unat [OF f(1), of a] True by simp
      moreover have "?st = unat (rq_line_address r) + ?off"
        using line_address_unat [OF f(1), of "range_start (rq_range r)"] f(5,6) by simp
      moreover have "unat (range_end (rq_range r)) = ?st + unat (rq_size r)"
        using wf_range_unat [OF f(2)] by (simp add: rq_size_def)
      ultimately have i: "?j - ?off = unat a - ?st"
        "?off \<le> ?j \<and> ?j < ?off + length payload \<longleftrightarrow> a \<in> range_set (rq_range r)"
        using assms(3)
        by (auto simp: range_set_def range_contains_def word_le_nat_alt word_less_nat_alt)
      have "?j < length line" using line_offset_less [OF f(1)] by (simp add: len)
      from nth_write_loop [OF this, of "rq_byte_mask r" ?off 0 payload] i show ?thesis
        using True by (simp add: byte_at_def mem_write_def s' line conj_assoc [symmetric] Let_def)
    qed
  qed
qed

lemma whole_line:
  assumes ol: "one_line s r" and "unat (rq_size r) = line_bytes (ms_layout s)"
  shows "rq_line_address r = range_start (rq_range r)"
    and "a \<in> range_set (rq_range r) \<longleftrightarrow> line_address (ms_layout s) a = rq_line_address r"
    and "line_address (ms_layout s) a = rq_line_address r \<Longrightarrow>
      unat a - unat (range_start (rq_range r)) = unat (line_offset (ms_layout s) a)"
    and "line_offset (ms_layout s) (rq_line_address r) = 0 \<and>
      unat (rq_line_address r) + line_bytes (ms_layout s) < U64_RANGE"
proof -
  note f = one_line_facts [OF ol]
  have "rq_line_offset r = 0" using f(7) assms(2) by (simp add: unat_eq_zero)
  then show st: "rq_line_address r = range_start (rq_range r)" using f(5,6) by (simp add: line_offset_def)
  have e: "unat (range_end (rq_range r)) = unat (rq_line_address r) + line_bytes (ms_layout s)"
    using wf_range_unat [OF f(2)] assms(2) by (simp add: st rq_size_def)
  moreover have "unat (range_end (rq_range r)) < U64_RANGE" by (rule order_less_le_trans [OF unsigned_less]) simp
  ultimately show "line_offset (ms_layout s) (rq_line_address r) = 0 \<and>
      unat (rq_line_address r) + line_bytes (ms_layout s) < U64_RANGE"
    using f(4) by (simp add: line_offset_def)
  show i: "line_address (ms_layout s) a = rq_line_address r \<Longrightarrow>
      unat a - unat (range_start (rq_range r)) = unat (line_offset (ms_layout s) a)"
    using line_address_unat [OF f(1), of a] by (simp add: st)
  show "a \<in> range_set (rq_range r) \<longleftrightarrow> line_address (ms_layout s) a = rq_line_address r"
  proof
    assume "a \<in> range_set (rq_range r)"
    then show "line_address (ms_layout s) a = rq_line_address r" by (rule one_line_address(1) [OF ol])
  next
    assume "line_address (ms_layout s) a = rq_line_address r"
    with line_address_unat [OF f(1), of a] line_offset_less [OF f(1), of a] e
    show "a \<in> range_set (rq_range r)"
      by (simp add: range_set_def range_contains_def word_le_nat_alt word_less_nat_alt st)
  qed
qed

lemma set_line_bytes:
  assumes ol: "one_line s r" and "unat (rq_size r) = line_bytes (ms_layout s)"
    and "length data = line_bytes (ms_layout s)"
    and "s' = s\<lparr>ms_lines := (ms_lines s)(rq_line_address r \<mapsto> data)\<rparr>"
  shows "byte_at s' = mem_write (byte_at s) (rq_range r) None data" and "store_inv s'"
proof -
  note w = whole_line [OF ol assms(2)]
  show "byte_at s' = mem_write (byte_at s) (rq_range r) None data"
    using w(3) by (auto simp: fun_eq_iff byte_at_def mem_write_def mask_bit_def assms(4) w(2) Let_def)
  show "store_inv s'"
    using ol w(4) assms(3) by (auto simp: one_line_def store_inv_def assms(4))
qed

lemma zero_line_bytes:
  assumes ol: "one_line s r" and op: "rq_operation r = CacheBlockZero"
    and "apply_cache_block_zero s r = Inr s'"
  shows "byte_at s' = mem_write (byte_at s) (rq_range r) None (replicate (unat (rq_size r)) 0)"
    and "store_inv s'" and "ms_layout s' = ms_layout s" and "ms_locked s' = ms_locked s"
proof -
  note f = one_line_facts [OF ol]
  obtain line where line: "ms_lines s (rq_line_address r) = Some line"
    and s': "s' = s\<lparr>ms_lines := (ms_lines s)(rq_line_address r \<mapsto> replicate (length line) 0)\<rparr>"
    using assms(3) f(4) by (auto simp: apply_cache_block_zero_def line_ref_def Let_def result_simps)
  have len: "length line = line_bytes (ms_layout s)"
    using ol line by (auto simp: one_line_def store_inv_def)
  have "rq_size r = layout_bytes (ms_layout s)"
    using ol op by (auto simp: one_line_def valid_request_def wf_request_def wf_fields_def rq_size_def)
  then have sz: "unat (rq_size r) = line_bytes (ms_layout s)" by (simp add: line_bytes_unat)
  show "byte_at s' = mem_write (byte_at s) (rq_range r) None (replicate (unat (rq_size r)) 0)" "store_inv s'"
    using set_line_bytes [OF ol sz _ s'] by (simp_all add: len sz)
  show "ms_layout s' = ms_layout s" "ms_locked s' = ms_locked s" by (simp_all add: s')
qed

lemma replace_line_bytes:
  assumes ol: "one_line s r" and "replace_line s r = Inr s'"
  shows "byte_at s' = mem_write (byte_at s) (rq_range r) None (the (rq_data r))"
    and "store_inv s'" and "ms_layout s' = ms_layout s" and "ms_locked s' = ms_locked s"
proof -
  obtain data where data: "rq_data r = Some data" and "len_u64 data = layout_bytes (ms_layout s)"
    and s': "s' = s\<lparr>ms_lines := (ms_lines s)(rq_line_address r \<mapsto> data)\<rparr>"
    using assms(2) by (auto simp: replace_line_def validate_line_data_def result_simps split: if_splits)
  moreover have "length data < U64_RANGE" using ol data by (auto simp: one_line_def valid_request_def)
  ultimately have len: "length data = line_bytes (ms_layout s)" by (simp add: len_u64_eq line_bytes_unat)
  moreover have "unat (rq_size r) = length data"
    using ol data by (auto simp: one_line_def dest: valid_request_data)
  ultimately have sz: "unat (rq_size r) = line_bytes (ms_layout s)" by simp
  show "byte_at s' = mem_write (byte_at s) (rq_range r) None (the (rq_data r))" "store_inv s'"
    using set_line_bytes [OF ol sz len s'] by (simp_all add: data)
  show "ms_layout s' = ms_layout s" "ms_locked s' = ms_locked s" by (simp_all add: s')
qed

lemma reservation_frame [simp]:
  "byte_at (clear_locked_reservations r s) = byte_at s" "byte_at (track_load_locked r s) = byte_at s"
  "store_inv (clear_locked_reservations r s) = store_inv s" "store_inv (track_load_locked r s) = store_inv s"
  "ms_layout (clear_locked_reservations r s) = ms_layout s" "ms_layout (track_load_locked r s) = ms_layout s"
  by (auto simp: clear_locked_reservations_def track_load_locked_def fun_eq_iff byte_at_def store_inv_def)

section \<open>Every request as a step of the byte memory\<close>

definition mem_step :: "bool \<Rightarrow> memory_request \<Rightarrow> byte_memory \<Rightarrow> byte_memory \<times> u8 list option" where
  "mem_step reserved r mem =
    (let op = rq_operation r; rng = rq_range r; old = mem_read mem rng
     in if op \<in> {InstructionFetch, ReadShared, ReadUnique, LockedRmwRead, StoreConditionalUpgradeFail, LoadLocked}
        then (mem, Some old)
        else if op \<in> {Write, LockedRmwWrite} \<or> op = StoreConditional \<and> reserved
        then (mem_write mem rng (rq_byte_mask r) (the (rq_data r)), None)
        else if op = CacheBlockZero then (mem_write mem rng None (replicate (unat (rq_size r)) 0), None)
        else if op \<in> {Atomic, AtomicNoReturn}
        then (mem_write mem rng (rq_byte_mask r) (projr (atomic_write_data r old)),
              if op = Atomic then Some old else None)
        else if op \<in> {WriteClean, WritebackClean, WritebackDirty}
        then (mem_write mem rng None (the (rq_data r)), None)
        else (mem, None))"

lemma completed_data: "response_completed r data = Inr resp \<Longrightarrow> rs_data resp = data"
  by (auto simp: response_completed_def result_simps split: if_splits)

lemma sc_failed_data: "response_store_conditional_failed r = Inr resp \<Longrightarrow> rs_data resp = None"
  by (auto simp: response_store_conditional_failed_def result_simps split: if_splits)

lemma atomic_write_length:
  assumes v: "valid_request r" and "atomic_write_data r old = Inr new" and "length old = unat (rq_size r)"
  shows "length new = unat (rq_size r)"
proof -
  obtain operand aop where f: "is_atomic (rq_operation r)" "rq_data r = Some operand" "rq_atomic_op r = Some aop"
    using assms(2) by (auto simp: atomic_write_data_def result_simps split: if_splits)
  have cmp: "aop = CompareSwap \<Longrightarrow> rq_atomic_compare r \<noteq> None"
    using v f by (auto simp: valid_request_def wf_request_def wf_fields_def)
  from atomic_write_data_meaning [OF f assms(3) valid_request_data [OF v f(2)] cmp assms(2)] assms(3)
  show ?thesis by (simp add: atomic_meaning_def)
qed

lemma apply_write_bytes:
  assumes "one_line s r" and "apply_write s r = Inr s'"
  shows "byte_at s' = mem_write (byte_at s) (rq_range r) (rq_byte_mask r) (the (rq_data r))"
    and "store_inv s'" and "ms_layout s' = ms_layout s" and "ms_locked s' = ms_locked s"
proof -
  obtain data where data: "rq_data r = Some data" "apply_write_data s r data = Inr s'"
    using assms(2) by (auto simp: apply_write_def result_simps)
  have "length data = unat (rq_size r)" using assms(1) data by (auto simp: one_line_def dest: valid_request_data)
  from apply_write_data_bytes [OF assms(1) data(2) this]
  show "byte_at s' = mem_write (byte_at s) (rq_range r) (rq_byte_mask r) (the (rq_data r))"
    "store_inv s'" "ms_layout s' = ms_layout s" "ms_locked s' = ms_locked s" by (simp_all add: data)
qed


text \<open>The ways to answer a request.\<close>

lemma store_access_cases:
  obtains (read) "rq_operation r \<in> {InstructionFetch, ReadShared, ReadUnique, LockedRmwRead, StoreConditionalUpgradeFail}"
      "store_access s r = st_try s (read_slice s r) (\<lambda>data. (s, completed_some r (Some data)))"
  | (load_locked) "rq_operation r = LoadLocked"
      "store_access s r = st_try s (read_slice s r) (\<lambda>data. (track_load_locked r s, completed_some r (Some data)))"
  | (sc_failed) "rq_operation r \<in> {StoreConditional, StoreConditionalFail}"
      "rq_operation r = StoreConditional \<Longrightarrow> \<not> store_conditional_allowed s r"
      "store_access s r = (s, map_ok Some (response_store_conditional_failed r))"
  | (writing) "rq_operation r \<in> {Write, LockedRmwWrite} \<or> rq_operation r = StoreConditional \<and> store_conditional_allowed s r"
      "store_access s r = st_try s (apply_write s r) (\<lambda>s. (clear_locked_reservations r s, completed_some r None))"
  | (zero) "rq_operation r = CacheBlockZero"
      "store_access s r = st_try s (apply_cache_block_zero s r) (\<lambda>s. (clear_locked_reservations r s, completed_some r None))"
  | (atomic) "rq_operation r \<in> {Atomic, AtomicNoReturn}"
      "store_access s r = st_try s (read_slice s r) (\<lambda>data. st_try s (atomic_write_data r data) (\<lambda>write_data.
        st_try s (apply_write_data s r write_data) (\<lambda>s. (clear_locked_reservations r s,
          completed_some r (if rq_operation r = Atomic then Some data else None)))))"
  | (present) "rq_operation r \<in> {StoreConditionalUpgrade, Upgrade, CleanShared, MemoryOperation.Invalidate,
        InvalidateWritable, PrefetchRead, PrefetchWrite}" "rq_response_required r \<or> op_requires_response (rq_operation r)"
      "store_access s r = st_try s (require_line s (rq_line_address r)) (\<lambda>_. (s, completed_some r None))"
  | (silent) "rq_operation r \<in> {PrefetchRead, PrefetchWrite, CleanEvict, NoAccess}"
      "store_access s r = st_try s (require_line s (rq_line_address r)) (\<lambda>_. (s, Inr None))"
  | (writeback) "rq_operation r \<in> {WriteClean, WritebackClean, WritebackDirty}"
      "store_access s r = st_try s (replace_line s r) (\<lambda>s. (clear_locked_reservations r s, Inr None))"
proof (cases "rq_operation r")
  case StoreConditional
  then show thesis using sc_failed writing by (cases "store_conditional_allowed s r") (simp_all add: store_access_def)
next
  case PrefetchRead
  then show thesis using present silent by (cases "rq_response_required r") (simp_all add: store_access_def)
next
  case PrefetchWrite
  then show thesis using present silent by (cases "rq_response_required r") (simp_all add: store_access_def)
qed (simp_all add: store_access_def read load_locked sc_failed writing zero atomic present silent writeback op_requires_response_def)

lemma store_access_Inr:
  assumes ol: "one_line s r" and step: "store_access s r = (s', Inr resp)" and "rq_operation r \<noteq> NoAccess"
  shows "store_inv s' \<and> (byte_at s', Option.bind resp rs_data) =
    mem_step (store_conditional_allowed s r) r (byte_at s)"
proof (cases rule: store_access_cases [of r s])
  case read
  from step obtain data x where d: "read_slice s r = Inr data" "response_completed r (Some data) = Inr x"
    "resp = Some x" "s' = s" by (auto simp: read(2) result_simps)
  have "mem_step (store_conditional_allowed s r) r (byte_at s) = (byte_at s, Some (mem_read (byte_at s) (rq_range r)))"
    using read(1) by (auto simp: mem_step_def)
  with d ol show ?thesis
    by (simp add: completed_data read_slice_bytes(1) [OF ol d(1), symmetric] one_line_def)
next
  case load_locked
  from step obtain data x where d: "read_slice s r = Inr data" "response_completed r (Some data) = Inr x"
    "resp = Some x" "s' = track_load_locked r s" by (auto simp: load_locked(2) result_simps)
  with ol show ?thesis
    by (simp add: completed_data read_slice_bytes(1) [OF ol d(1), symmetric] one_line_def mem_step_def
        load_locked(1))
next
  case sc_failed
  from step obtain x where d: "response_store_conditional_failed r = Inr x" "resp = Some x" "s' = s"
    by (auto simp: sc_failed(3) result_simps)
  have "mem_step (store_conditional_allowed s r) r (byte_at s) = (byte_at s, None)"
    using sc_failed(1,2) by (auto simp: mem_step_def)
  with d ol show ?thesis by (simp add: sc_failed_data one_line_def)
next
  case writing
  from step obtain s1 x where d: "apply_write s r = Inr s1" "response_completed r None = Inr x"
    "resp = Some x" "s' = clear_locked_reservations r s1" by (auto simp: writing(2) result_simps)
  have "mem_step (store_conditional_allowed s r) r (byte_at s) =
      (mem_write (byte_at s) (rq_range r) (rq_byte_mask r) (the (rq_data r)), None)"
    using writing(1) by (auto simp: mem_step_def)
  with d apply_write_bytes [OF ol d(1)] show ?thesis by (simp add: completed_data)
next
  case zero
  from step obtain s1 x where d: "apply_cache_block_zero s r = Inr s1" "response_completed r None = Inr x"
    "resp = Some x" "s' = clear_locked_reservations r s1" by (auto simp: zero(2) result_simps)
  with zero_line_bytes [OF ol zero(1) d(1)] show ?thesis by (simp add: completed_data mem_step_def zero(1))
next
  case atomic
  from step obtain old new s1 x where d: "read_slice s r = Inr old" "atomic_write_data r old = Inr new"
    "apply_write_data s r new = Inr s1" "resp = Some x" "s' = clear_locked_reservations r s1"
    "response_completed r (if rq_operation r = Atomic then Some old else None) = Inr x"
    by (auto simp: atomic(2) result_simps)
  note old = read_slice_bytes [OF ol d(1)]
  have "length new = unat (rq_size r)"
    using ol by (intro atomic_write_length [OF _ d(2) old(2)]) (simp add: one_line_def)
  note w = apply_write_data_bytes [OF ol d(3) this]
  have "mem_step (store_conditional_allowed s r) r (byte_at s) =
      (mem_write (byte_at s) (rq_range r) (rq_byte_mask r) new, if rq_operation r = Atomic then Some old else None)"
    using atomic(1) d(2) by (auto simp: mem_step_def old(1) [symmetric])
  with d w show ?thesis by (simp add: completed_data)
next
  case present
  from step obtain x where d: "response_completed r None = Inr x" "resp = Some x" "s' = s"
    by (auto simp: present(3) result_simps)
  have "mem_step (store_conditional_allowed s r) r (byte_at s) = (byte_at s, None)"
    using present(1) by (auto simp: mem_step_def)
  with d ol show ?thesis by (simp add: completed_data one_line_def)
next
  case silent
  have "mem_step (store_conditional_allowed s r) r (byte_at s) = (byte_at s, None)"
    using silent(1) by (auto simp: mem_step_def)
  with step ol show ?thesis by (auto simp: silent(2) result_simps one_line_def)
next
  case writeback
  from step obtain s1 where d: "replace_line s r = Inr s1" "resp = None" "s' = clear_locked_reservations r s1"
    by (auto simp: writeback(2) result_simps)
  have "mem_step (store_conditional_allowed s r) r (byte_at s) =
      (mem_write (byte_at s) (rq_range r) None (the (rq_data r)), None)"
    using writeback(1) by (auto simp: mem_step_def)
  with d replace_line_bytes [OF ol d(1)] show ?thesis by simp
qed

lemma store_respond_checks:
  assumes "store_respond s r = (s', res)"
  shows "(\<exists>e. res = Inl e \<and> s' = s) \<or> rq_operation r = NoAccess \<and> s' = s \<and> res = completed_some r None \<or>
    rq_operation r \<noteq> NoAccess \<and> rq_line_layout r = ms_layout s \<and> rq_line_span r = 1 \<and> store_access s r = (s', res)"
  using assms
  by (auto simp: store_respond_def check_line_layout_def check_single_line_def split: if_splits)

lemma store_respond_Inr:
  assumes s: "store_inv s" and r: "valid_request r" and step: "store_respond s r = (s', Inr resp)"
  shows "store_inv s' \<and> (byte_at s', Option.bind resp rs_data) =
    mem_step (store_conditional_allowed s r) r (byte_at s)"
  using store_respond_checks [OF step]
proof (elim disjE)
  assume "rq_operation r = NoAccess \<and> s' = s \<and> Inr resp = completed_some r None"
  moreover from this obtain x where "response_completed r None = Inr x" "resp = Some x"
    by (cases "response_completed r None") auto
  ultimately show ?thesis using s by (simp add: mem_step_def completed_data)
next
  assume "rq_operation r \<noteq> NoAccess \<and> rq_line_layout r = ms_layout s \<and> rq_line_span r = 1 \<and>
    store_access s r = (s', Inr resp)"
  with s r show ?thesis by (intro store_access_Inr) (auto simp: one_line_def)
qed simp

text \<open>An error leaves the store as it was: what a step changes cannot be followed by a refusal.\<close>

lemma completed_ok:
  assumes "valid_request r" and "rq_response_required r \<or> op_requires_response (rq_operation r)"
    and "data = (if op_returns_data (rq_operation r) then Some bytes else None)" and "length bytes = unat (rq_size r)"
  shows "\<exists>x. response_completed r data = Inr x"
  using assms by (auto simp: response_completed_def validate_response_data_def valid_request_def)

lemma store_respond_Inl:
  assumes s: "store_inv s" and r: "valid_request r" and step: "store_respond s r = (s', Inl e)"
  shows "s' = s"
  using store_respond_checks [OF step]
proof (elim disjE)
  assume c: "rq_operation r \<noteq> NoAccess \<and> rq_line_layout r = ms_layout s \<and> rq_line_span r = 1 \<and>
    store_access s r = (s', Inl e)"
  then have ol: "one_line s r" and st: "store_access s r = (s', Inl e)" using s r by (simp_all add: one_line_def)
  let ?bytes = "replicate (unat (rq_size r)) 0"
  have none: "\<exists>x. response_completed r None = Inr x"
    if "op_requires_response (rq_operation r)" "\<not> op_returns_data (rq_operation r)"
    using that by (intro completed_ok [OF r, of None ?bytes]) simp_all
  have some: "\<exists>x. response_completed r (Some data) = Inr x"
    if "op_requires_response (rq_operation r)" "op_returns_data (rq_operation r)" "read_slice s r = Inr data" for data
    using that read_slice_bytes(2) [OF ol that(3)] by (intro completed_ok [OF r, of "Some data" data]) simp_all
  show "s' = s"
  proof (cases rule: store_access_cases [of r s])
    case load_locked
    from st some show ?thesis by (auto simp: load_locked result_simps op_predicates)
  next
    case writing
    then have "\<exists>x. response_completed r None = Inr x" by (intro none) (auto simp: op_predicates)
    with st show ?thesis by (auto simp: writing(2) result_simps)
  next
    case zero
    then have "\<exists>x. response_completed r None = Inr x" by (intro none) (auto simp: op_predicates)
    with st show ?thesis by (auto simp: zero(2) result_simps)
  next
    case atomic
    have "\<exists>x. response_completed r (if rq_operation r = Atomic then Some data else None) = Inr x"
      if "read_slice s r = Inr data" for data
      using atomic(1) some [OF _ _ that] none by (auto simp: op_predicates)
    with st show ?thesis by (auto simp: atomic(2) result_simps)
  next
    case read
    from st show ?thesis by (auto simp: read(2) result_simps)
  next
    case sc_failed
    from st show ?thesis by (simp add: sc_failed(3))
  next
    case present
    from st show ?thesis by (auto simp: present(3) result_simps)
  next
    case silent
    from st show ?thesis by (auto simp: silent(2) result_simps)
  next
    case writeback
    from st show ?thesis by (auto simp: writeback(2) result_simps)
  qed
qed simp_all

section \<open>Lines brought in and out\<close>

lemma store_insert_line_bytes:
  assumes inv: "store_inv s" and ins: "store_insert_line s line data = Inr s'" and len: "length data < U64_RANGE"
  shows "store_inv s'" and "ms_layout s' = ms_layout s" and "ms_lines s' = (ms_lines s)(line \<mapsto> data)"
proof -
  have off: "line_offset (ms_layout s) line = 0" and "len_u64 data = layout_bytes (ms_layout s)"
    and rng: "\<exists>rng. range_new line (layout_bytes (ms_layout s)) = Inr rng"
    and lines: "ms_lines s' = (ms_lines s)(line \<mapsto> data)" and layout: "ms_layout s' = ms_layout s"
    using ins
    by (auto simp: store_insert_line_def validate_line_data_def access_size_new_def Let_def result_simps
        clear_locked_reservations_for_range_def split: if_splits)
  then have d: "length data = line_bytes (ms_layout s)" using len by (simp add: len_u64_eq line_bytes_unat)
  have "unat line + line_bytes (ms_layout s) < U64_RANGE"
    using rng by (auto simp: range_new_def line_bytes_unat result_simps split: if_splits)
  with inv off d show "store_inv s'" by (auto simp: store_inv_def lines layout)
  show "ms_layout s' = ms_layout s" "ms_lines s' = (ms_lines s)(line \<mapsto> data)" by (fact layout lines)+
qed

lemma store_insert_line_ok:
  assumes "wf_layout (ms_layout s)" and "line_offset (ms_layout s) line = 0"
    and "length data = line_bytes (ms_layout s)" and "unat line + line_bytes (ms_layout s) < U64_RANGE"
    and "ms_locked s = Map.empty"
  shows "store_insert_line s line data = Inr (s\<lparr>ms_lines := (ms_lines s)(line \<mapsto> data)\<rparr>)"
proof -
  have n: "layout_bytes (ms_layout s) \<noteq> 0" using line_bytes_pos [OF assms(1)] by (auto simp: line_bytes_unat)
  have "len_u64 data = layout_bytes (ms_layout s)" by (simp add: assms(3) line_bytes_unat)
  with assms n show ?thesis
    by (simp add: store_insert_line_def validate_line_data_def access_size_new_def range_new_def Let_def
        clear_locked_reservations_for_range_def line_bytes_unat)
qed

lemma from_snapshot_loop:
  assumes "store_inv s" and "distinct ls" and "set ls \<subseteq> dom (ms_lines s)"
    and "dom (ms_lines s0) \<inter> set ls = {}" and "ms_layout s0 = ms_layout s" and "ms_locked s0 = Map.empty"
  shows "res_foldl (\<lambda>s (line, data).
         if ms_lines s line \<noteq> None then Inl (DuplicateMemoryLine line) else store_insert_line s line data)
       s0 (map (\<lambda>line. (line, the (ms_lines s line))) ls) =
     Inr (s0\<lparr>ms_lines := ms_lines s0 ++ (ms_lines s |` set ls)\<rparr>)"
  using assms(2-)
proof (induction ls arbitrary: s0)
  case (Cons line ls)
  obtain data where data: "ms_lines s line = Some data" using Cons.prems(2) by auto
  define m1 where "m1 = (ms_lines s0)(line \<mapsto> data)"
  let ?s1 = "s0\<lparr>ms_lines := m1\<rparr>"
  have "store_insert_line s0 line data = Inr ?s1"
    using assms(1) data Cons.prems unfolding m1_def by (intro store_insert_line_ok) (auto simp: store_inv_def)
  moreover have "ms_lines s0 line = None" using Cons.prems(3) by auto
  moreover have "m1 ++ (ms_lines s |` set ls) = ms_lines s0 ++ (ms_lines s |` set (line # ls))"
    using Cons.prems(1,3) data by (auto simp: m1_def fun_eq_iff map_add_def restrict_map_def split: option.splits)
  moreover have "dom m1 \<inter> set ls = {}" using Cons.prems(1,3) by (auto simp: m1_def)
  ultimately show ?case using Cons.IH [of ?s1] Cons.prems data by simp
qed simp

lemma store_snapshot_restore:
  assumes "store_inv s"
  shows "store_from_snapshot (store_snapshot s) = Inr (s\<lparr>ms_locked := Map.empty\<rparr>)"
proof -
  have fin: "finite (dom (ms_lines s))" using assms by (simp add: store_inv_def)
  have "ms_lines s |` dom (ms_lines s) = ms_lines s"
    by (auto simp: fun_eq_iff restrict_map_def domIff)
  with from_snapshot_loop [OF assms distinct_sorted_list_of_set, of "dom (ms_lines s)" "store_new (ms_layout s)"] fin
  show ?thesis by (simp add: store_from_snapshot_def store_snapshot_def store_new_def)
qed

section \<open>The check of a range of lines\<close>

definition nth_line :: "line_layout \<Rightarrow> nat \<Rightarrow> address" where
  "nth_line l i = of_nat (i * line_bytes l)"

lemma nth_line_simps:
  assumes l: "wf_layout l" and i: "i * line_bytes l < U64_RANGE"
  shows "unat (nth_line l i) = i * line_bytes l" and "line_address l (nth_line l i) = nth_line l i"
proof -
  show u: "unat (nth_line l i) = i * line_bytes l"
    using i by (simp add: nth_line_def unat_of_nat take_bit_nat_eq_self del: of_nat_mult)
  then show "line_address l (nth_line l i) = nth_line l i"
    using line_bytes_pos [OF l] by (simp add: word_unat_eq_iff line_address_div [OF l])
qed

lemma nth_line_Suc: "nth_line l i + layout_bytes l = nth_line l (Suc i)"
  by (simp add: nth_line_def line_bytes_unat algebra_simps)

lemma line_address_nth: "wf_layout l \<Longrightarrow> line_address l a = nth_line l (unat a div line_bytes l)"
  by (simp add: nth_line_def line_address_div [symmetric] del: of_nat_mult)

lemma access_loop_returns:
  assumes l: "wf_layout (ms_layout s)" and p: "p * line_bytes (ms_layout s) < U64_RANGE" and "q \<le> p"
  shows "\<exists>res. access_loop s (nth_line (ms_layout s) p) (nth_line (ms_layout s) q) = Some res \<and>
    (res = Inr () \<longleftrightarrow> (\<forall>i. q \<le> i \<and> i \<le> p \<longrightarrow> ms_lines s (nth_line (ms_layout s) i) \<noteq> None))"
  using \<open>q \<le> p\<close>
proof (induction q rule: inc_induct)
  case base
  have "p \<le> i \<and> i \<le> p \<longleftrightarrow> i = p" for i by auto
  then show ?case
    by (subst access_loop.simps) (simp add: require_line_def nth_line_simps(2) [OF l p])
next
  case (step q)
  let ?n = "line_bytes (ms_layout s)" and ?L = "nth_line (ms_layout s)"
  have lt: "q * ?n < p * ?n" using step(2) line_bytes_pos [OF l] by simp
  with p have q: "q * ?n < U64_RANGE" by linarith
  have ne: "?L q \<noteq> ?L p"
    using nth_line_simps(1) [OF l q] nth_line_simps(1) [OF l p] lt by (auto dest!: arg_cong [where f = unat])
  have split: "(\<forall>i. q \<le> i \<and> i \<le> p \<longrightarrow> ms_lines s (?L i) \<noteq> None) \<longleftrightarrow>
      ms_lines s (?L q) \<noteq> None \<and> (\<forall>i. Suc q \<le> i \<and> i \<le> p \<longrightarrow> ms_lines s (?L i) \<noteq> None)"
    using step(2) by (metis Suc_leD Suc_leI le_eq_less_or_eq)
  show ?case
  proof (cases "ms_lines s (?L q)")
    case None
    then show ?thesis
      unfolding split by (subst access_loop.simps) (simp add: require_line_def nth_line_simps(2) [OF l q])
  next
    case (Some data)
    then have "access_loop s (?L p) (?L q) = access_loop s (?L p) (?L (Suc q))"
      using ne by (subst access_loop.simps) (simp add: require_line_def nth_line_simps(2) [OF l q] nth_line_Suc)
    with Some step.IH show ?thesis unfolding split by simp
  qed
qed

lemma range_lines:
  assumes l: "wf_layout l" and rng: "wf_range rng"
  shows "(\<forall>a \<in> range_set rng. P (line_address l a)) \<longleftrightarrow>
    (\<forall>i. unat (range_start rng) div line_bytes l \<le> i \<and> i \<le> unat (range_end rng - 1) div line_bytes l \<longrightarrow>
       P (nth_line l i))" (is "?A \<longleftrightarrow> ?B")
proof
  let ?s = "range_start rng" and ?e = "range_end rng - 1" and ?n = "line_bytes l"
  have set: "range_set rng = {?s .. ?e}" and le: "?s \<le> ?e" using wf_range_last [OF rng] by simp_all
  show ?A if ?B
  proof
    fix a assume "a \<in> range_set rng"
    then have "unat ?s div ?n \<le> unat a div ?n" "unat a div ?n \<le> unat ?e div ?n"
      by (simp_all add: set div_le_mono word_le_nat_alt)
    with \<open>?B\<close> show "P (line_address l a)" by (simp only: line_address_nth [OF l])
  qed
  show ?B if ?A
  proof (intro allI impI)
    fix i assume i: "unat ?s div ?n \<le> i \<and> i \<le> unat ?e div ?n"
    define k where "k = max (unat ?s) (i * ?n)"
    have ie: "i * ?n \<le> unat ?e"
      using i by (meson div_times_less_eq_dividend le_trans mult_le_mono1)
    have e: "unat ?e < U64_RANGE" by (rule order_less_le_trans [OF unsigned_less]) simp
    have k: "unat ?s \<le> k" "k \<le> unat ?e" using ie le by (simp_all add: k_def word_le_nat_alt)
    have u: "unat (of_nat k :: u64) = k" using k e by (simp add: unat_of_nat take_bit_nat_eq_self)
    then have mem: "of_nat k \<in> range_set rng" using k by (simp add: set word_le_nat_alt)
    have "unat ?s < (unat ?s div ?n + 1) * ?n" using dividend_less_times_div [of ?n "unat ?s"] line_bytes_pos [OF l]
      by (simp add: algebra_simps)
    also have "\<dots> \<le> (i + 1) * ?n" using i by (intro mult_le_mono1) simp
    finally have "k < (i + 1) * ?n" "i * ?n \<le> k" using line_bytes_pos [OF l] by (simp_all add: k_def)
    then have "k div ?n = i" by (simp add: div_nat_eqI mult.commute)
    with \<open>?A\<close> mem show "P (nth_line l i)" using line_address_nth [OF l, of "of_nat k"] u by metis
  qed
qed

lemma validate_access_range_returns:
  assumes l: "wf_layout (ms_layout s)" and rng: "wf_range rng"
  shows "\<exists>res. store_validate_access_range s rng = Some res \<and>
    (res = Inr () \<longleftrightarrow> (\<forall>a \<in> range_set rng. byte_at s a \<noteq> None))"
proof -
  let ?n = "line_bytes (ms_layout s)"
  have "unat (range_start rng) div ?n \<le> unat (range_end rng - 1) div ?n"
    using wf_range_last [OF rng] by (simp add: div_le_mono word_le_nat_alt)
  moreover have "unat (range_end rng - 1) div ?n * ?n < U64_RANGE"
    by (rule order_le_less_trans [OF div_times_less_eq_dividend]) (rule order_less_le_trans [OF unsigned_less], simp)
  ultimately show ?thesis
    using access_loop_returns [OF l, of "unat (range_end rng - 1) div ?n" "unat (range_start rng) div ?n"]
      range_lines [OF l rng, of "\<lambda>line. ms_lines s line \<noteq> None"]
    by (simp only: store_validate_access_range_def line_address_nth [OF l] byte_at_def option.map_disc_iff)
qed

section \<open>Properties\<close>

text \<open>The store and the requests that the examples use.\<close>

definition example_store :: line_memory_store where
  "example_store = \<lparr>ms_layout = \<lparr>layout_bytes = 64\<rparr>, ms_lines = [0 \<mapsto> replicate 64 0], ms_locked = Map.empty\<rparr>"

definition example_write :: memory_request where
  "example_write = fresh_request \<lparr>rid_agent = 2, rid_sequence = 0\<rparr> Write
     \<lparr>range_start = 0, range_size = 2, range_end = 2\<rparr> \<lparr>layout_bytes = 64\<rparr> (payload_write [5, 6] [True, True])"

definition example_read :: "MemoryOperation \<Rightarrow> memory_request" where
  "example_read op = fresh_request \<lparr>rid_agent = 1, rid_sequence = 0\<rparr> op
     \<lparr>range_start = 0, range_size = 2, range_end = 2\<rparr> \<lparr>layout_bytes = 64\<rparr> payload_empty"

lemma example_layout_wf: "wf_layout \<lparr>layout_bytes = 64\<rparr>"
  by (simp add: wf_layout_def layout_new_def) code_simp

lemma example_store_inv: "store_inv example_store"
  by (auto simp: store_inv_def example_store_def example_layout_wf line_bytes_def line_offset_def
      line_address_def split: if_splits)

lemma example_valid:
  "valid_request example_write"
  "op \<in> {LoadLocked, ReadShared} \<Longrightarrow> valid_request (example_read op)"
  by (auto simp: valid_request_def example_write_def example_read_def wf_request_def wf_fields_def wf_range_def
      range_new_def payload_write_def payload_empty_def op_predicates masked_operation_def attributes_default_def
      attributes_new_def example_layout_wf)

lemmas example_respond_simps = store_respond_def st_try_def check_line_layout_def check_single_line_def
  store_access_def rq_line_span_def line_span_def line_address_def apply_write_def apply_write_data_def
  line_ref_def read_slice_def rq_size_def rq_line_address_def rq_line_offset_def line_offset_def response_completed_def validate_response_data_def
  op_predicates payload_write_def payload_empty_def map_ok_def ok_or_def res_bind_def Let_def
  example_store_def example_write_def example_read_def

lemma example_write_ok: "\<exists>s' x. store_respond example_store example_write = (s', Inr x)"
  by (simp add: example_respond_simps)

lemma example_read_ok: "op \<in> {LoadLocked, ReadShared} \<Longrightarrow> \<exists>x. snd (store_respond example_store (example_read op)) = Inr x"
  by (auto simp add: example_respond_simps)

text \<open>
  C6. The store is a memory of bytes.  A refused request changes nothing.  An answered one keeps the
  invariant, and its effect and its data are those of the same operation on the bytes at the store's
  addresses: reads and load-locked return the bytes of the range; writes, successful store
  conditionals and atomics change the selected bytes of the range; line zero and write-back replace
  the whole line; everything else changes nothing.
\<close>

theorem store_respond_refines:
  assumes "store_inv s" and "valid_request r" and "store_respond s r = (s', res)"
  shows "case res of Inl e \<Rightarrow> s' = s
    | Inr resp \<Rightarrow> store_inv s' \<and> (byte_at s', Option.bind resp rs_data) =
        mem_step (store_conditional_allowed s r) r (byte_at s)"
  using store_respond_Inr [OF assms(1,2)] store_respond_Inl [OF assms(1,2)] assms(3)
  by (cases res) simp_all

theorem store_respond_refines_witness:
  "\<exists>s' resp. store_respond example_store example_write = (s', Inr resp) \<and> byte_at s' 1 = Some 6 \<and> byte_at s' 2 = Some 0"
proof -
  obtain s' resp where st: "store_respond example_store example_write = (s', Inr resp)" using example_write_ok by blast
  have b: "byte_at s' = fst (mem_step (store_conditional_allowed example_store example_write) example_write (byte_at example_store))"
    using store_respond_refines [OF example_store_inv example_valid(1) st] by (simp add: prod_eq_iff)
  have "byte_at s' 1 = Some 6 \<and> byte_at s' 2 = Some 0"
    unfolding b by (simp add: mem_step_def mem_write_def mask_bit_def example_write_def payload_write_def range_set_def
        range_contains_def byte_at_def example_store_def line_address_def line_offset_def)
  with st show ?thesis by blast
qed

text \<open>
  C16. Range checks end and are exact.  For every store with a well-formed layout and every
  well-formed range the loop over the lines of the range ends, and it accepts the range exactly when
  every byte of it is present.
\<close>

theorem validate_access_range_decides:
  assumes "wf_layout (ms_layout s)" and "wf_range rng"
  shows "\<exists>res. store_validate_access_range s rng = Some res \<and>
    (res = Inr () \<longleftrightarrow> (\<forall>a \<in> range_set rng. byte_at s a \<noteq> None))"
  using assms by (rule validate_access_range_returns)

theorem validate_access_range_decides_witness:
  "\<exists>e. store_validate_access_range example_store \<lparr>range_start = 60, range_size = 8, range_end = 68\<rparr> = Some (Inl e)"
proof -
  let ?rng = "\<lparr>range_start = 60, range_size = 8, range_end = 68\<rparr>"
  have "wf_layout (ms_layout example_store)" by (simp add: example_store_def example_layout_wf)
  moreover have "wf_range ?rng" by (simp add: wf_range_def range_new_def)
  moreover have "64 \<in> range_set ?rng" "byte_at example_store 64 = None"
    by (simp_all add: range_set_def range_contains_def byte_at_def example_store_def line_address_def)
  ultimately obtain res where "store_validate_access_range example_store ?rng = Some res" "res \<noteq> Inr ()"
    using validate_access_range_decides [of example_store ?rng] by blast
  then show ?thesis by (cases res) auto
qed

text \<open>
  C17. Round trip of stores.  Restoring the snapshot of a store that satisfies the invariant succeeds
  and gives the same layout and lines; reservations are not part of a snapshot.
\<close>

theorem store_snapshot_roundtrip:
  assumes "store_inv s"
  shows "store_from_snapshot (store_snapshot s) = Inr (s\<lparr>ms_locked := Map.empty\<rparr>)"
  using assms by (rule store_snapshot_restore)

theorem store_snapshot_roundtrip_witness:
  "store_from_snapshot (store_snapshot example_store) = Inr example_store"
  using store_snapshot_roundtrip [OF example_store_inv] by (simp add: example_store_def)

end
