(* ===== verification/Memory_Device.thy ===== *)
theory Memory_Device
  imports Memory_Store
begin

text \<open>
  The contract of a memory that answers requests, met by the line store of
  \<^verbatim>\<open>crates/rem6-memory/src/lib.rs\<close>: reads return the last data stored, in any run of requests, and
  load-locked reservations last exactly until a conflicting write.
\<close>

section \<open>Memories that answer requests\<close>

text \<open>The requests of a list one after the other.\<close>

definition device_run :: "('s \<Rightarrow> 'r \<Rightarrow> ('s, 'e, 'a) outcome) \<Rightarrow> 's \<Rightarrow> 'r list \<Rightarrow> 's" where
  "device_run respond s rs = foldl (\<lambda>s r. fst (respond s r)) s rs"

lemma device_run_simps [simp]:
  "device_run respond s [] = s"
  "device_run respond s (r # rs) = device_run respond (fst (respond s r)) rs"
  "device_run respond s (rs @ [r]) = fst (respond (device_run respond s rs) r)"
  by (simp_all add: device_run_def)

definition writes_memory :: "memory_request \<Rightarrow> bool" where
  "writes_memory r \<longleftrightarrow> rq_operation r \<in> {Write, LockedRmwWrite, StoreConditional, CacheBlockZero, Atomic,
     AtomicNoReturn, WriteClean, WritebackClean, WritebackDirty}"

definition reads_memory :: "memory_request \<Rightarrow> bool" where
  "reads_memory r \<longleftrightarrow> rq_operation r \<in> {InstructionFetch, ReadShared, ReadUnique, LockedRmwRead,
     StoreConditionalUpgradeFail, LoadLocked, Atomic}"

definition stores_data :: "memory_request \<Rightarrow> bool" where
  "stores_data r \<longleftrightarrow> rq_operation r \<in> {Write, LockedRmwWrite} \<and> list_all id (the (rq_byte_mask r)) \<or>
     rq_operation r \<in> {WriteClean, WritebackClean, WritebackDirty}"

lemma mem_step_frame:
  "writes_memory r \<longrightarrow> a \<notin> range_set (rq_range r) \<Longrightarrow> fst (mem_step reserved r mem) a = mem a"
  by (auto simp: mem_step_def mem_write_def writes_memory_def Let_def)

lemma mem_step_read:
  "reads_memory r \<Longrightarrow> snd (mem_step reserved r mem) = Some (mem_read mem (rq_range r))"
  by (auto simp: mem_step_def reads_memory_def Let_def)

lemma range_distance:
  "wf_range rng \<Longrightarrow> a \<in> range_set rng \<Longrightarrow> unat a - unat (range_start rng) < unat (range_size rng)"
  using wf_range_unat [of rng] by (auto simp: range_set_def range_contains_def word_le_nat_alt word_less_nat_alt)

lemma full_mask_write:
  assumes r: "valid_request r" and "list_all id (the (rq_byte_mask r))"
  shows "mem_write mem (rq_range r) (rq_byte_mask r) data = mem_write mem (rq_range r) None data"
proof (cases "rq_byte_mask r")
  case (Some bits)
  have "wf_range (rq_range r)" using r by (simp add: valid_request_def)
  then have "a \<in> range_set (rq_range r) \<Longrightarrow> bits ! (unat a - unat (range_start (rq_range r)))" for a
    using range_distance [of "rq_range r" a] valid_request_mask [OF r Some] assms(2) Some
    by (auto simp: list_all_length rq_size_def)
  then show ?thesis by (auto simp: mem_write_def mask_bit_def Some fun_eq_iff Let_def)
qed simp

lemma mem_step_store:
  "valid_request r \<Longrightarrow> stores_data r \<Longrightarrow>
     fst (mem_step reserved r mem) = mem_write mem (rq_range r) None (the (rq_data r))"
  by (auto simp: mem_step_def stores_data_def Let_def full_mask_write)

lemma mem_read_write:
  assumes "wf_range rng" and "length data = unat (range_size rng)"
    and "\<And>a. a \<in> range_set rng \<Longrightarrow> mem a = mem_write mem0 rng None data a"
  shows "mem_read mem rng = data"
proof (rule nth_equalityI)
  fix i assume "i < length (mem_read mem rng)"
  then have i: "i < unat (range_size rng)" by (simp add: mem_read_def)
  with range_index [OF assms(1) i] assms(3) show "mem_read mem rng ! i = data ! i"
    by (simp add: mem_read_def mem_write_def mask_bit_def)
qed (simp add: mem_read_def assms(2))

text \<open>
  The contract of a component that answers requests: an answer is a step of the byte memory that the
  component's state stands for, and a refusal changes nothing.
\<close>

locale memory_device =
  fixes respond :: "'s \<Rightarrow> memory_request \<Rightarrow> ('s, MemoryError, 'a) outcome"
    and inv :: "'s \<Rightarrow> bool"
    and view :: "'s \<Rightarrow> byte_memory"
    and reserved :: "'s \<Rightarrow> memory_request \<Rightarrow> bool"
    and data_of :: "'a \<Rightarrow> u8 list option"
  assumes respond_ok: "inv s \<Longrightarrow> valid_request r \<Longrightarrow> respond s r = (s', Inr x) \<Longrightarrow>
      inv s' \<and> (view s', data_of x) = mem_step (reserved s r) r (view s)"
    and respond_failed: "inv s \<Longrightarrow> valid_request r \<Longrightarrow> respond s r = (s', Inl e) \<Longrightarrow> s' = s"
begin

lemma respond_inv: "inv s \<Longrightarrow> valid_request r \<Longrightarrow> inv (fst (respond s r))"
  using respond_ok [of s r] respond_failed [of s r] by (cases "respond s r"; cases "snd (respond s r)") auto

lemma respond_frame:
  assumes "inv s" and "valid_request r" and "writes_memory r \<longrightarrow> a \<notin> range_set (rq_range r)"
  shows "view (fst (respond s r)) a = view s a"
proof (cases "snd (respond s r)")
  case (Inl e)
  with respond_failed [OF assms(1,2), of "fst (respond s r)" e] show ?thesis by (cases "respond s r") auto
next
  case (Inr x)
  with respond_ok [OF assms(1,2), of "fst (respond s r)" x] mem_step_frame [OF assms(3)]
  show ?thesis by (metis fst_conv prod.collapse)
qed

lemma run_inv: "inv s \<Longrightarrow> list_all valid_request rs \<Longrightarrow> inv (device_run respond s rs)"
  by (induction rs arbitrary: s) (auto simp: respond_inv)

lemma run_frame:
  assumes "inv s" and "list_all valid_request rs"
    and "\<forall>r \<in> set rs. writes_memory r \<longrightarrow> a \<notin> range_set (rq_range r)"
  shows "view (device_run respond s rs) a = view s a"
  using assms by (induction rs arbitrary: s) (auto simp: respond_inv respond_frame)

lemma read_back:
  assumes s: "inv s" and w: "valid_request w" "stores_data w" "rq_data w = Some data"
    and step: "respond s w = (s1, Inr x)"
    and rs: "list_all valid_request rs"
      "\<forall>r \<in> set rs. writes_memory r \<longrightarrow> range_set (rq_range r) \<inter> range_set (rq_range w) = {}"
    and r: "valid_request r" "reads_memory r" "rq_range r = rq_range w"
    and answer: "respond (device_run respond s1 rs) r = (s2, Inr y)"
  shows "data_of y = Some data"
proof -
  from respond_ok [OF s w(1) step]
  have 1: "inv s1" and v: "view s1 = fst (mem_step (reserved s w) w (view s))" by (metis fst_conv)+
  have v: "view s1 = mem_write (view s) (rq_range w) None data"
    using w(3) by (simp add: v mem_step_store [OF w(1,2)])
  have "view (device_run respond s1 rs) a = mem_write (view s) (rq_range w) None data a"
    if a: "a \<in> range_set (rq_range w)" for a
  proof -
    have "\<forall>r \<in> set rs. writes_memory r \<longrightarrow> a \<notin> range_set (rq_range r)" using rs(2) a by blast
    then show ?thesis by (simp only: run_frame [OF 1 rs(1)] v)
  qed
  moreover have "wf_range (rq_range w)" "length data = unat (range_size (rq_range w))"
    using w(1) valid_request_data [OF w(1,3)] by (simp_all add: valid_request_def rq_size_def)
  ultimately have read: "mem_read (view (device_run respond s1 rs)) (rq_range r) = data"
    unfolding r(3) by (intro mem_read_write)
  have "data_of y = snd (mem_step (reserved (device_run respond s1 rs) r) r (view (device_run respond s1 rs)))"
    using respond_ok [OF run_inv [OF 1 rs(1)] r(1) answer] by (metis snd_conv)
  then show ?thesis by (simp only: mem_step_read [OF r(2)] read)
qed

end

interpretation line_store: memory_device store_respond store_inv byte_at store_conditional_allowed
  "\<lambda>resp. Option.bind resp rs_data"
  by unfold_locales (rule store_respond_Inr store_respond_Inl, assumption+)+

section \<open>Reservations\<close>

definition store_writes :: "line_memory_store \<Rightarrow> memory_request \<Rightarrow> bool" where
  "store_writes s r \<longleftrightarrow>
     rq_operation r \<in> {Write, LockedRmwWrite, CacheBlockZero, Atomic, AtomicNoReturn, WriteClean, WritebackClean,
       WritebackDirty} \<or> rq_operation r = StoreConditional \<and> store_conditional_allowed s r"

lemma apply_data_locked:
  "apply_write s r = Inr s' \<Longrightarrow> ms_locked s' = ms_locked s"
  "apply_cache_block_zero s r = Inr s' \<Longrightarrow> ms_locked s' = ms_locked s"
  "apply_write_data s r data = Inr s' \<Longrightarrow> ms_locked s' = ms_locked s"
  "replace_line s r = Inr s' \<Longrightarrow> ms_locked s' = ms_locked s"
  by (auto simp: apply_write_def apply_write_data_def apply_cache_block_zero_def replace_line_def Let_def result_simps)

lemma cleared_locked:
  "ms_locked (clear_locked_reservations r s) agent = Some g \<longleftrightarrow>
     ms_locked s agent = Some g \<and> \<not> overlaps_llsc_reservation r g"
  by (auto simp: clear_locked_reservations_def split: option.splits)

lemma store_respond_locked:
  assumes "store_respond s r = (s', Inr resp)"
  shows "ms_locked s' agent = Some g \<longleftrightarrow>
    (if rq_operation r = LoadLocked \<and> rid_agent (rq_id r) = agent then llsc_reservation_address r = g
     else ms_locked s agent = Some g \<and> \<not> (store_writes s r \<and> overlaps_llsc_reservation r g))"
  using store_respond_checks [OF assms]
proof (elim disjE)
  assume c: "rq_operation r \<noteq> NoAccess \<and> rq_line_layout r = ms_layout s \<and> rq_line_span r = 1 \<and>
    store_access s r = (s', Inr resp)"
  then have st: "store_access s r = (s', Inr resp)" by simp
  show ?thesis
  proof (cases rule: store_access_cases [of r s])
    case read
    then have "\<not> store_writes s r" "rq_operation r \<noteq> LoadLocked" by (auto simp: store_writes_def)
    with st show ?thesis by (auto simp: read(2) result_simps)
  next
    case load_locked
    with st show ?thesis by (auto simp: store_writes_def track_load_locked_def load_locked result_simps)
  next
    case sc_failed
    then have "\<not> store_writes s r" "rq_operation r \<noteq> LoadLocked" by (auto simp: store_writes_def)
    with st show ?thesis by (auto simp: sc_failed(3) result_simps)
  next
    case writing
    then have "store_writes s r" "rq_operation r \<noteq> LoadLocked" by (auto simp: store_writes_def)
    with st show ?thesis by (auto simp: writing(2) result_simps cleared_locked apply_data_locked)
  next
    case zero
    then have "store_writes s r" "rq_operation r \<noteq> LoadLocked" by (auto simp: store_writes_def)
    with st show ?thesis by (auto simp: zero(2) result_simps cleared_locked apply_data_locked)
  next
    case atomic
    then have "store_writes s r" "rq_operation r \<noteq> LoadLocked" by (auto simp: store_writes_def)
    with st show ?thesis by (auto simp: atomic(2) result_simps cleared_locked apply_data_locked)
  next
    case present
    then have "\<not> store_writes s r" "rq_operation r \<noteq> LoadLocked" by (auto simp: store_writes_def)
    with st show ?thesis by (auto simp: present(3) result_simps)
  next
    case silent
    then have "\<not> store_writes s r" "rq_operation r \<noteq> LoadLocked" by (auto simp: store_writes_def)
    with st show ?thesis by (auto simp: silent(2) result_simps)
  next
    case writeback
    then have "store_writes s r" "rq_operation r \<noteq> LoadLocked" by (auto simp: store_writes_def)
    with st show ?thesis by (auto simp: writeback(2) result_simps cleared_locked apply_data_locked)
  qed
qed (auto simp: store_writes_def)

abbreviation store_run :: "line_memory_store \<Rightarrow> memory_request list \<Rightarrow> line_memory_store" where
  "store_run \<equiv> device_run store_respond"

text \<open>What the request at position \<open>i\<close> of a run did, in the state it found.\<close>

definition answered :: "line_memory_store \<Rightarrow> memory_request list \<Rightarrow> nat \<Rightarrow> bool" where
  "answered s rs i \<longleftrightarrow> (\<exists>resp. snd (store_respond (store_run s (take i rs)) (rs ! i)) = Inr resp)"

definition reserves :: "line_memory_store \<Rightarrow> memory_request list \<Rightarrow> nat \<Rightarrow> agent_id \<Rightarrow> bool" where
  "reserves s rs i agent \<longleftrightarrow> answered s rs i \<and> rq_operation (rs ! i) = LoadLocked \<and>
     rid_agent (rq_id (rs ! i)) = agent"

definition breaks :: "line_memory_store \<Rightarrow> memory_request list \<Rightarrow> nat \<Rightarrow> address \<Rightarrow> bool" where
  "breaks s rs i g \<longleftrightarrow> answered s rs i \<and> store_writes (store_run s (take i rs)) (rs ! i) \<and>
     overlaps_llsc_reservation (rs ! i) g"

lemma history_snoc [simp]:
  "i < length rs \<Longrightarrow> reserves s (rs @ [r]) i agent = reserves s rs i agent"
  "i < length rs \<Longrightarrow> breaks s (rs @ [r]) i g = breaks s rs i g"
  by (simp_all add: reserves_def breaks_def answered_def nth_append)

lemma last_event_Suc:
  "(\<exists>i < Suc n. R i \<and> G i \<and> (\<forall>j. i < j \<and> j < Suc n \<longrightarrow> \<not> R j \<and> \<not> B j)) \<longleftrightarrow>
   (if R n then G n else (\<exists>i < n. R i \<and> G i \<and> (\<forall>j. i < j \<and> j < n \<longrightarrow> \<not> R j \<and> \<not> B j)) \<and> \<not> B n)"
  by (auto simp: less_Suc_eq)

lemma reservation_history:
  assumes "store_inv s" and "ms_locked s = Map.empty" and "list_all valid_request rs"
  shows "ms_locked (store_run s rs) agent = Some g \<longleftrightarrow>
    (\<exists>i < length rs. reserves s rs i agent \<and> llsc_reservation_address (rs ! i) = g \<and>
      (\<forall>j. i < j \<and> j < length rs \<longrightarrow> \<not> reserves s rs j agent \<and> \<not> breaks s rs j g))"
  using assms(3)
proof (induction rs rule: rev_induct)
  case Nil
  then show ?case using assms(2) by simp
next
  case (snoc r rs)
  let ?s = "store_run s rs" and ?n = "length rs"
  have inv: "store_inv ?s" and r: "valid_request r" using snoc.prems assms(1) line_store.run_inv by auto
  obtain s' res where step: "store_respond ?s r = (s', res)" by fastforce
  have ans: "answered s (rs @ [r]) ?n \<longleftrightarrow> (\<exists>resp. res = Inr resp)" by (simp add: answered_def step)
  have run: "store_run s (rs @ [r]) = s'" by (simp add: step)
  have res: "reserves s (rs @ [r]) ?n agent \<longleftrightarrow> (\<exists>resp. res = Inr resp) \<and> rq_operation r = LoadLocked \<and> rid_agent (rq_id r) = agent"
    by (simp add: reserves_def ans)
  have brk: "breaks s (rs @ [r]) ?n g \<longleftrightarrow> (\<exists>resp. res = Inr resp) \<and> store_writes ?s r \<and> overlaps_llsc_reservation r g"
    by (simp add: breaks_def ans)
  have IH: "ms_locked ?s agent = Some g \<longleftrightarrow>
    (\<exists>i < ?n. reserves s (rs @ [r]) i agent \<and> llsc_reservation_address ((rs @ [r]) ! i) = g \<and>
      (\<forall>j. i < j \<and> j < ?n \<longrightarrow> \<not> reserves s (rs @ [r]) j agent \<and> \<not> breaks s (rs @ [r]) j g))"
    using snoc by (auto simp: nth_append)
  have "ms_locked s' agent = Some g \<longleftrightarrow>
    (if reserves s (rs @ [r]) ?n agent then llsc_reservation_address r = g
     else ms_locked ?s agent = Some g \<and> \<not> breaks s (rs @ [r]) ?n g)"
  proof (cases res)
    case (Inl e)
    then have "s' = ?s" using store_respond_Inl [OF inv r] step by simp
    with Inl show ?thesis by (simp add: res brk)
  next
    case (Inr resp)
    with store_respond_locked [of ?s r s' resp agent g] step show ?thesis by (simp add: res brk)
  qed
  then show ?case
    unfolding run IH length_append_singleton last_event_Suc by simp
qed

section \<open>Properties\<close>

text \<open>
  C7. When a store conditional may succeed.  After any run of requests on a store that starts without
  reservations, a store conditional is allowed exactly when some answered load-locked of the same
  agent to the same granule is followed by no further load-locked of that agent and by no write to
  the granule, by any agent, that took effect.
\<close>

theorem store_conditional_history:
  assumes "store_inv s" and "ms_locked s = Map.empty" and "list_all valid_request rs"
  shows "store_conditional_allowed (store_run s rs) r \<longleftrightarrow>
    (\<exists>i < length rs. reserves s rs i (rid_agent (rq_id r)) \<and>
      llsc_reservation_address (rs ! i) = llsc_reservation_address r \<and>
      (\<forall>j. i < j \<and> j < length rs \<longrightarrow>
        \<not> reserves s rs j (rid_agent (rq_id r)) \<and> \<not> breaks s rs j (llsc_reservation_address r)))"
  unfolding store_conditional_allowed_def using assms by (rule reservation_history)

theorem store_conditional_history_witness:
  "store_conditional_allowed (store_run example_store [example_read LoadLocked]) (example_read StoreConditional)"
proof -
  have "reserves example_store [example_read LoadLocked] 0 1"
    using example_read_ok [of LoadLocked] by (simp add: reserves_def answered_def) (simp add: example_read_def)
  moreover have "ms_locked example_store = Map.empty" by (simp add: example_store_def)
  ultimately show ?thesis
    using store_conditional_history [OF example_store_inv, of "[example_read LoadLocked]" "example_read StoreConditional"]
      example_valid(2) [of LoadLocked]
    by (simp add: example_read_def llsc_reservation_address_def)
qed

end
