(* ===== verification/Partitioned_Store.thy ===== *)
theory Partitioned_Store
  imports Memory_Device
begin

text \<open>
  Several line stores behind one address map: the \<open>PartitionedMemoryStore\<close> of
  \<^verbatim>\<open>crates/rem6-memory/src/lib.rs\<close>.  It meets the same memory contract as one line store.
\<close>

section \<open>The partitioned store\<close>

record partitioned_memory_store =
  pm_decoder :: address_decoder
  pm_partitions :: "target_id \<rightharpoonup> line_memory_store"

definition partitioned_new :: partitioned_memory_store where
  "partitioned_new = \<lparr>pm_decoder = [], pm_partitions = Map.empty\<rparr>"

definition add_partition ::
  "partitioned_memory_store \<Rightarrow> target_id \<Rightarrow> line_layout \<Rightarrow> MemoryError + partitioned_memory_store" where
  "add_partition p target layout =
    (if pm_partitions p target \<noteq> None then Inl (DuplicateMemoryTarget target)
     else Inr (p\<lparr>pm_partitions := (pm_partitions p)(target \<mapsto> store_new layout)\<rparr>))"

definition require_partition :: "partitioned_memory_store \<Rightarrow> target_id \<Rightarrow> MemoryError + unit" where
  "require_partition p target =
    (if pm_partitions p target \<noteq> None then Inr () else Inl (UnknownMemoryTarget target))"

definition partition_of :: "partitioned_memory_store \<Rightarrow> target_id \<Rightarrow> MemoryError + line_memory_store" where
  "partition_of p target = ok_or (UnknownMemoryTarget target) (pm_partitions p target)"

definition map_region_with_policy ::
  "partitioned_memory_store \<Rightarrow> target_id \<Rightarrow> address_region \<Rightarrow> MemoryError + partitioned_memory_store" where
  "map_region_with_policy p target region =
     res_bind (require_partition p target) (\<lambda>_.
     res_bind (decoder_insert_region (pm_decoder p) target region) (\<lambda>decoder.
     Inr (p\<lparr>pm_decoder := decoder\<rparr>)))"

definition map_region ::
  "partitioned_memory_store \<Rightarrow> target_id \<Rightarrow> address \<Rightarrow> access_size \<Rightarrow> MemoryError + partitioned_memory_store" where
  "map_region p target start sz =
     res_bind (require_partition p target) (\<lambda>_.
     res_bind (decoder_insert (pm_decoder p) target start sz) (\<lambda>decoder.
     Inr (p\<lparr>pm_decoder := decoder\<rparr>)))"

definition partitioned_insert_line ::
  "partitioned_memory_store \<Rightarrow> target_id \<Rightarrow> address \<Rightarrow> u8 list \<Rightarrow> MemoryError + partitioned_memory_store" where
  "partitioned_insert_line p target line data =
     res_bind (partition_of p target) (\<lambda>s.
     res_bind (store_insert_line s line data) (\<lambda>s'.
     Inr (p\<lparr>pm_partitions := (pm_partitions p)(target \<mapsto> s')\<rparr>)))"

definition partitioned_respond ::
  "partitioned_memory_store \<Rightarrow> memory_request \<Rightarrow>
   (partitioned_memory_store, MemoryError, target_id \<times> memory_response option) outcome" where
  "partitioned_respond p r =
     st_try p (decode_request (pm_decoder p) r) (\<lambda>target.
     st_try p (partition_of p target) (\<lambda>s.
     (case store_respond s r of
        (s', res) \<Rightarrow>
          (p\<lparr>pm_partitions := (pm_partitions p)(target \<mapsto> s')\<rparr>, map_ok (\<lambda>response. (target, response)) res))))"

definition partitioned_line_data ::
  "partitioned_memory_store \<Rightarrow> target_id \<Rightarrow> address \<Rightarrow> MemoryError + u8 list" where
  "partitioned_line_data p target line =
     res_bind (partition_of p target) (\<lambda>s.
     ok_or (UnmappedLine (line_address (ms_layout s) line)) (store_line_data s line))"

definition partitioned_validate_access_range ::
  "partitioned_memory_store \<Rightarrow> address \<Rightarrow> access_size \<Rightarrow> (MemoryError + target_id) option" where
  "partitioned_validate_access_range p a sz =
    (case res_bind (range_new a sz) (\<lambda>rng.
          res_bind (decode_range_detail (pm_decoder p) rng) (\<lambda>d.
          res_bind (partition_of p (dec_target d)) (\<lambda>s. Inr (rng, d, s)))) of
       Inl e \<Rightarrow> Some (Inl e)
     | Inr (rng, d, s) \<Rightarrow>
         map_option (map_ok (\<lambda>_. dec_target d)) (store_validate_access_range s rng))"

record partitioned_memory_snapshot =
  pms_partitions :: "(target_id \<times> line_memory_snapshot) list"
  pms_regions :: address_decoder

definition partitioned_snapshot :: "partitioned_memory_store \<Rightarrow> partitioned_memory_snapshot" where
  "partitioned_snapshot p =
     \<lparr>pms_partitions = map (\<lambda>target. (target, store_snapshot (the (pm_partitions p target))))
        (sorted_list_of_set (dom (pm_partitions p))),
      pms_regions = pm_decoder p\<rparr>"

definition partitioned_from_snapshot ::
  "partitioned_memory_snapshot \<Rightarrow> MemoryError + partitioned_memory_store" where
  "partitioned_from_snapshot snap =
     res_bind (res_foldl (\<lambda>p (target, store).
         if pm_partitions p target \<noteq> None then Inl (DuplicateMemoryTarget target)
         else res_bind (store_from_snapshot store) (\<lambda>s.
              Inr (p\<lparr>pm_partitions := (pm_partitions p)(target \<mapsto> s)\<rparr>)))
       partitioned_new (pms_partitions snap)) (\<lambda>p.
     res_foldl (\<lambda>p (target, region). map_region_with_policy p target region) p (pms_regions snap))"

section \<open>The partitions as one memory\<close>

definition partitioned_inv :: "partitioned_memory_store \<Rightarrow> bool" where
  "partitioned_inv p \<longleftrightarrow> decoder_disjoint (pm_decoder p) \<and> interleaves_aligned (pm_decoder p) \<and>
     (\<forall>target s. pm_partitions p target = Some s \<longrightarrow> store_inv s)"

definition partitioned_byte_at :: "partitioned_memory_store \<Rightarrow> address \<Rightarrow> u8 option" where
  "partitioned_byte_at p a =
    (case decode (pm_decoder p) a of
       Inl _ \<Rightarrow> None
     | Inr target \<Rightarrow> Option.bind (pm_partitions p target) (\<lambda>s. byte_at s a))"

definition partitioned_reserved :: "partitioned_memory_store \<Rightarrow> memory_request \<Rightarrow> bool" where
  "partitioned_reserved p r =
    (case decode_request (pm_decoder p) r of
       Inl _ \<Rightarrow> False
     | Inr target \<Rightarrow> (case pm_partitions p target of None \<Rightarrow> False | Some s \<Rightarrow> store_conditional_allowed s r))"

lemma decode_Inr:
  assumes "decode regions a = Inr target"
  shows "\<exists>region. (target, region) \<in> set regions \<and> region_contains region a"
proof -
  obtain d where "find_map (\<lambda>(target, region). map_option (\<lambda>offset. \<lparr>dec_target = target, dec_region = region, dec_offset = offset\<rparr>)
      (region_offset region a)) regions = Some d" "target = dec_target d"
    using assms by (auto simp: decode_def decode_detail_def result_simps)
  then show ?thesis
    by (induction regions) (fastforce simp: region_contains_def split: option.splits)+
qed

lemma decode_mem:
  assumes "decoder_disjoint regions" and "interleaves_aligned regions"
    and "(target, region) \<in> set regions" and "region_contains region a"
  shows "decode regions a = Inr target"
proof -
  have "\<exists>d. find_map (\<lambda>(target, region). map_option (\<lambda>offset. \<lparr>dec_target = target, dec_region = region, dec_offset = offset\<rparr>)
      (region_offset region a)) regions = Some d"
    using assms(3,4) by (induction regions) (fastforce simp: region_contains_def split: option.splits)+
  then obtain t where t: "decode regions a = Inr t"
    by (auto simp: decode_def decode_detail_def result_simps)
  then obtain r where r: "(t, r) \<in> set regions" "region_contains r a" using decode_Inr by blast
  let ?xs = "filter (\<lambda>(_, r). region_contains r a) regions"
  have "(t, r) \<in> set ?xs" "(target, region) \<in> set ?xs" using r assms(3,4) by auto
  moreover have "length ?xs \<le> 1" by (rule decoder_unique [OF assms(1,2)])
  ultimately have "(t, r) = (target, region)" by (cases ?xs) auto
  with t show ?thesis by simp
qed

lemma decode_request_addresses:
  assumes "decoder_disjoint regions" and "interleaves_aligned regions" and "wf_range (rq_range r)"
    and "decode_request regions r = Inr target" and "a \<in> range_set (rq_range r)"
  shows "decode regions a = Inr target"
proof -
  obtain d where d: "decode_range_with (RequestCrossesAddressRegion (rq_id r) (rq_range r)) regions (rq_range r) = Inr d"
    and t: "target = dec_target d"
    using assms(4) by (auto simp: decode_request_def decode_request_detail_def result_simps)
  from decode_range_with_sound [OF assms(1,3) d assms(5)]
  have "(dec_target d, dec_region d) \<in> set regions" "region_contains (dec_region d) a"
    by (auto simp: region_contains_def)
  then show ?thesis unfolding t by (rule decode_mem [OF assms(1,2)])
qed

lemma mem_step_local:
  assumes "wf_range (rq_range r)" and "\<forall>a \<in> range_set (rq_range r). mem a = mem' a"
  shows "snd (mem_step c r mem) = snd (mem_step c r mem')"
    and "a \<in> range_set (rq_range r) \<Longrightarrow> fst (mem_step c r mem) a = fst (mem_step c r mem') a"
    and "a \<notin> range_set (rq_range r) \<Longrightarrow> fst (mem_step c r mem) a = mem a"
proof -
  have "mem_read mem (rq_range r) = mem_read mem' (rq_range r)"
    using range_index(1) [OF assms(1)] assms(2) by (auto simp: mem_read_def)
  then show "snd (mem_step c r mem) = snd (mem_step c r mem')"
    and "a \<in> range_set (rq_range r) \<Longrightarrow> fst (mem_step c r mem) a = fst (mem_step c r mem') a"
    using assms(2) by (simp_all add: mem_step_def Let_def mem_write_def)
  show "a \<notin> range_set (rq_range r) \<Longrightarrow> fst (mem_step c r mem) a = mem a" by (rule mem_step_frame) simp
qed

lemma partitioned_respond_cases:
  assumes "partitioned_respond p r = (p', res)"
  obtains (refused) e where "p' = p" "res = Inl e"
  | (routed) target s s' res' where "decode_request (pm_decoder p) r = Inr target" "pm_partitions p target = Some s"
      "store_respond s r = (s', res')" "p' = p\<lparr>pm_partitions := (pm_partitions p)(target \<mapsto> s')\<rparr>"
      "res = map_ok (\<lambda>response. (target, response)) res'"
proof (cases "decode_request (pm_decoder p) r")
  case (Inl e)
  then show thesis using assms refused [of e] by (auto simp: partitioned_respond_def st_try_def)
next
  case (Inr target)
  show thesis
  proof (cases "pm_partitions p target")
    case None
    with Inr assms refused show thesis by (auto simp: partitioned_respond_def partition_of_def st_try_def ok_or_def)
  next
    case (Some s)
    obtain s' res' where "store_respond s r = (s', res')" by fastforce
    with Inr Some assms routed show thesis
      by (auto simp: partitioned_respond_def partition_of_def st_try_def ok_or_def)
  qed
qed

lemma partitioned_respond_Inr:
  assumes inv: "partitioned_inv p" and r: "valid_request r"
    and step: "partitioned_respond p r = (p', Inr (target, resp))"
  shows "partitioned_inv p' \<and> (partitioned_byte_at p', Option.bind resp rs_data) =
    mem_step (partitioned_reserved p r) r (partitioned_byte_at p)"
proof -
  obtain s s' where d: "decode_request (pm_decoder p) r = Inr target" and s: "pm_partitions p target = Some s"
    and st: "store_respond s r = (s', Inr resp)" and p': "p' = p\<lparr>pm_partitions := (pm_partitions p)(target \<mapsto> s')\<rparr>"
    using step by (cases rule: partitioned_respond_cases) (auto simp: map_ok_def split: sum.splits)
  have wf: "wf_range (rq_range r)" using r by (simp add: valid_request_def)
  have sinv: "store_inv s" using inv s by (simp add: partitioned_inv_def)
  note dec = decode_request_addresses [OF _ _ wf d]
  have route: "decode (pm_decoder p) a = Inr target" if "a \<in> range_set (rq_range r)" for a
    using dec that inv by (simp add: partitioned_inv_def)
  have c: "partitioned_reserved p r = store_conditional_allowed s r" by (simp add: partitioned_reserved_def d s)
  from store_respond_Inr [OF sinv r st]
  have s': "store_inv s'" "byte_at s' = fst (mem_step (partitioned_reserved p r) r (byte_at s))"
    and data: "Option.bind resp rs_data = snd (mem_step (partitioned_reserved p r) r (byte_at s))"
    unfolding c by (metis fst_conv snd_conv)+
  have local: "\<forall>a \<in> range_set (rq_range r). byte_at s a = partitioned_byte_at p a"
    using route by (simp add: partitioned_byte_at_def s)
  note ms = mem_step_local [OF wf local]
  have "partitioned_byte_at p' a = fst (mem_step (partitioned_reserved p r) r (partitioned_byte_at p)) a" for a
  proof (cases "a \<in> range_set (rq_range r)")
    case True
    have "partitioned_byte_at p' a = byte_at s' a" using route [OF True] by (simp add: partitioned_byte_at_def p')
    then show ?thesis using ms(2) [OF True] by (simp add: s'(2))
  next
    case False
    have "byte_at s' a = byte_at s a" using False by (simp add: s'(2) mem_step_frame)
    then show ?thesis using False by (simp add: mem_step_frame partitioned_byte_at_def p' s split: sum.splits)
  qed
  moreover have "partitioned_inv p'" using inv s'(1) by (simp add: partitioned_inv_def p')
  ultimately show ?thesis using data ms(1) by (simp add: prod_eq_iff fun_eq_iff)
qed

lemma partitioned_respond_Inl:
  assumes "partitioned_inv p" and "valid_request r" and step: "partitioned_respond p r = (p', Inl e)"
  shows "p' = p"
  using step
proof (cases rule: partitioned_respond_cases)
  case (routed target s s' res')
  then have "store_respond s r = (s', Inl e)" by (cases res') (auto simp: map_ok_def)
  moreover have "store_inv s" using routed assms(1) by (simp add: partitioned_inv_def)
  ultimately have "s' = s" using store_respond_Inl assms(2) by blast
  then show ?thesis using routed by (simp add: map_upd_triv)
qed

interpretation partitions: memory_device partitioned_respond partitioned_inv partitioned_byte_at
  partitioned_reserved "\<lambda>(_, resp). Option.bind resp rs_data"
proof unfold_locales
  show "partitioned_inv s' \<and> (partitioned_byte_at s', case x of (_, resp) \<Rightarrow> Option.bind resp rs_data) =
      mem_step (partitioned_reserved s r) r (partitioned_byte_at s)"
    if "partitioned_inv s" "valid_request r" "partitioned_respond s r = (s', Inr x)" for s r s' x
    using partitioned_respond_Inr [OF that(1,2)] that(3) by (cases x) simp
qed (rule partitioned_respond_Inl)

section \<open>Properties\<close>


definition example_partitions :: partitioned_memory_store where
  "example_partitions =
     \<lparr>pm_decoder = [(7, region_new \<lparr>range_start = 0, range_size = 64, range_end = 64\<rparr>)],
      pm_partitions = [7 \<mapsto> example_store]\<rparr>"

lemma example_partitions_inv: "partitioned_inv example_partitions"
  by (simp add: partitioned_inv_def example_partitions_def example_store_inv decoder_disjoint_def region_new_wf
      wf_range_def range_new_def interleaves_aligned_def)


end
