(* ===== verification/Line_Directory.thy ===== *)
theory Line_Directory
  imports Line_Protocol Memory_Request
begin

text \<open>
  What the four directories of \<^verbatim>\<open>crates/rem6-directory\<close> share.  Each keeps a map from line
  addresses to stored lines, looks the line of a request up, runs an operation of that line,
  and writes the result back, dropping a line nobody holds any more.  The records are the
  decision structs the four modules declare with the same fields; the locale is the contract of
  a directory over its line operation, and its lemmas lift facts about one line to the whole
  directory: other lines are untouched, the invariant holds after every request sequence,
  requests to different lines commute and a snapshot restores the directory.
\<close>

section \<open>Shared structs\<close>

record ('st, 'src) directory_grant =
  dg_request :: request_id
  dg_line :: address
  dg_state :: 'st
  dg_data_source :: 'src

record 'ev directory_snoop =
  ds_target :: agent_id
  ds_event :: 'ev

record ('ls, 'ev, 'st, 'src) directory_decision =
  dd_line :: address
  dd_request :: request_id
  dd_before :: 'ls
  dd_after :: 'ls
  dd_snoops :: "'ev directory_snoop list"
  dd_grant :: "('st, 'src) directory_grant option"

record 'l directory =
  dir_lines :: "address \<rightharpoonup> 'l"

definition directory_empty :: "'l directory" where
  "directory_empty = \<lparr>dir_lines = Map.empty\<rparr>"

text \<open>Reading and writing one line: absent and empty lines are the same thing.\<close>

definition lookup_line :: "'l \<Rightarrow> 'l directory \<Rightarrow> address \<Rightarrow> 'l" where
  "lookup_line empty_line d line = (case dir_lines d line of None \<Rightarrow> empty_line | Some l \<Rightarrow> l)"

definition store_line :: "('l \<Rightarrow> bool) \<Rightarrow> 'l directory \<Rightarrow> address \<Rightarrow> 'l \<Rightarrow> 'l directory" where
  "store_line is_empty d line l =
     (if is_empty l then d\<lparr>dir_lines := (dir_lines d)(line := None)\<rparr>
      else d\<lparr>dir_lines := (dir_lines d)(line \<mapsto> l)\<rparr>)"

definition snoops_to :: "'ev \<Rightarrow> agent_id list \<Rightarrow> 'ev directory_snoop list" where
  "snoops_to ev targets = map (\<lambda>t. \<lparr>ds_target = t, ds_event = ev\<rparr>) targets"

text \<open>A \<open>BTreeSet\<close> without one element, in iteration order.\<close>

definition others :: "agent_id \<Rightarrow> agent_id set \<Rightarrow> agent_id list" where
  "others requester agents = filter (\<lambda>a. a \<noteq> requester) (sorted_list_of_set agents)"

lemma set_others [simp]: "finite A \<Longrightarrow> set (others r A) = A - {r}"
  by (auto simp: others_def)

lemma distinct_others [simp]: "distinct (others r A)"
  by (simp add: others_def)

lemma map_snoops_to [simp]:
  "map ds_target (snoops_to ev ts) = ts" "set (snoops_to ev ts) = (\<lambda>t. \<lparr>ds_target = t, ds_event = ev\<rparr>) ` set ts"
  by (simp_all add: snoops_to_def comp_def)

text \<open>\<open>with_sharer\<close> of the line-state structs: push if absent, then sort.\<close>

definition push_sharer :: "agent_id list \<Rightarrow> agent_id \<Rightarrow> agent_id list" where
  "push_sharer sharers s = (if s \<in> set sharers then sharers else sort (sharers @ [s]))"

lemma foldl_push_sharer:
  "sorted_wrt (<) (xs @ ys) \<Longrightarrow> foldl push_sharer xs ys = xs @ ys"
proof (induction ys arbitrary: xs)
  case (Cons y ys)
  then have "y \<notin> set xs" and "sorted (xs @ [y])"
    by (auto simp: sorted_wrt_append intro: strict_sorted_imp_sorted)
  then have "push_sharer xs y = xs @ [y]"
    by (simp add: push_sharer_def sorted_sort_id)
  with Cons show ?case by simp
qed simp

lemma foldl_push_sharer_set [simp]:
  "foldl push_sharer [] (sorted_list_of_set A) = sorted_list_of_set A"
  by (rule foldl_push_sharer [of "[]", simplified]) simp

section \<open>What the caches do with a decision\<close>

text \<open>
  A cache answers a snoop by the transition of its protocol; \<open>snoop_result\<close> is the state it
  ends in, if the protocol accepts the event.  \<open>apply_snoops\<close> runs all snoops of a decision on
  the states of the caches.
\<close>

definition snoop_result ::
  "(('st, 'ev) cache_line \<Rightarrow> 'ev \<Rightarrow> 'er + ('st, 'ev, 'ac) line_transition) \<Rightarrow> 'st \<Rightarrow> 'ev \<Rightarrow> 'st option" where
  "snoop_result transition s ev =
    (case transition \<lparr>cl_agent = 0, cl_line = 0, cl_state = s, cl_trace = []\<rparr> ev of
       Inl _ \<Rightarrow> None | Inr t \<Rightarrow> Some (t_after t))"

fun apply_snoops ::
  "('st \<Rightarrow> 'ev \<Rightarrow> 'st option) \<Rightarrow> (agent_id \<Rightarrow> 'st) \<Rightarrow> 'ev directory_snoop list \<Rightarrow>
   (agent_id \<Rightarrow> 'st) option" where
  "apply_snoops step caches [] = Some caches"
| "apply_snoops step caches (s # ss) =
     (case step (caches (ds_target s)) (ds_event s) of
        None \<Rightarrow> None
      | Some st \<Rightarrow> apply_snoops step (caches(ds_target s := st)) ss)"

lemma apply_snoops_to:
  assumes "distinct ts" and "\<And>t. t \<in> set ts \<Longrightarrow> step (caches t) ev = Some (f t)"
  shows "apply_snoops step caches (snoops_to ev ts) =
    Some (\<lambda>a. if a \<in> set ts then f a else caches a)"
  using assms
proof (induction ts arbitrary: caches)
  case (Cons t ts)
  have "apply_snoops step (caches(t := f t)) (snoops_to ev ts) =
      Some (\<lambda>a. if a \<in> set ts then f a else (caches(t := f t)) a)"
    using Cons.prems by (intro Cons.IH) auto
  with Cons.prems show ?case by (auto simp: snoops_to_def fun_eq_iff)
qed (simp add: snoops_to_def)

lemma snoops_to_Nil [simp]: "snoops_to ev [] = []"
  by (simp add: snoops_to_def)

lemma others_empty [simp]: "others r {} = []"
  by (simp add: others_def)

section \<open>The contract of a directory\<close>

locale line_directory =
  fixes accept :: "'l directory \<Rightarrow> memory_request \<Rightarrow>
          'er + 'l directory \<times> ('ls, 'ev, 'st, 'src) directory_decision"
    and line_step :: "address \<Rightarrow> request_id \<Rightarrow> MemoryOperation \<Rightarrow> 'l \<Rightarrow>
          'er + 'l \<times> 'ev directory_snoop list \<times> ('st, 'src) directory_grant option"
    and snapshot :: "'l \<Rightarrow> address \<Rightarrow> 'ls"
    and restore :: "'l directory \<Rightarrow> 'ls \<Rightarrow> 'l directory option"
    and empty_line :: 'l
    and is_empty :: "'l \<Rightarrow> bool"
    and inv :: "'l \<Rightarrow> bool"
  assumes accept: "accept d r =
      res_bind (line_step (rq_line_address r) (rq_id r) (rq_operation r)
                  (lookup_line empty_line d (rq_line_address r)))
        (\<lambda>(l', snoops, grant).
          Inr (store_line is_empty d (rq_line_address r) l',
               \<lparr>dd_line = rq_line_address r, dd_request = rq_id r,
                dd_before = snapshot (lookup_line empty_line d (rq_line_address r)) (rq_line_address r),
                dd_after = snapshot l' (rq_line_address r), dd_snoops = snoops, dd_grant = grant\<rparr>))"
    and is_empty: "is_empty l \<longleftrightarrow> l = empty_line"
    and inv_empty: "inv empty_line"
    and inv_step: "inv l \<Longrightarrow> line_step a rid op l = Inr (l', snoops, grant) \<Longrightarrow> inv l'"
    and restore_snapshot: "inv l \<Longrightarrow> restore d (snapshot l a) = Some (store_line is_empty d a l)"
begin

abbreviation view :: "'l directory \<Rightarrow> address \<Rightarrow> 'l" where
  "view d \<equiv> lookup_line empty_line d"

text \<open>Stored lines are never empty, satisfy the line invariant, and are finitely many.\<close>

definition dir_inv :: "'l directory \<Rightarrow> bool" where
  "dir_inv d \<longleftrightarrow> finite (dom (dir_lines d)) \<and>
     (\<forall>line l. dir_lines d line = Some l \<longrightarrow> inv l \<and> \<not> is_empty l)"

lemma view_store: "view (store_line is_empty d line l) = (view d)(line := l)"
  by (auto simp: lookup_line_def store_line_def fun_eq_iff is_empty)

lemma dir_inv_empty: "dir_inv directory_empty"
  by (simp add: dir_inv_def directory_empty_def)

lemma dir_inv_store: "dir_inv d \<Longrightarrow> inv l \<Longrightarrow> dir_inv (store_line is_empty d line l)"
  by (auto simp: dir_inv_def store_line_def split: if_splits)

lemma dir_inv_view: "dir_inv d \<Longrightarrow> inv (view d line)"
  by (auto simp: dir_inv_def lookup_line_def inv_empty split: option.splits)

text \<open>A directory satisfying the invariant is determined by what it says about each line.\<close>

lemma dir_inv_ext:
  assumes "dir_inv d" and "dir_inv d'" and "view d = view d'"
  shows "d = d'"
proof -
  have "dir_lines d line = dir_lines d' line" for line
    using assms(1,2) fun_cong [OF assms(3), of line]
    by (auto simp: dir_inv_def lookup_line_def is_empty split: option.splits)
  then show ?thesis by (cases d; cases d') (simp add: fun_eq_iff)
qed

lemma accept_Inr:
  "accept d r = Inr (d', dec) \<longleftrightarrow>
     (\<exists>l' snoops grant.
       line_step (rq_line_address r) (rq_id r) (rq_operation r) (view d (rq_line_address r)) =
         Inr (l', snoops, grant) \<and>
       d' = store_line is_empty d (rq_line_address r) l' \<and>
       dec = \<lparr>dd_line = rq_line_address r, dd_request = rq_id r,
              dd_before = snapshot (view d (rq_line_address r)) (rq_line_address r),
              dd_after = snapshot l' (rq_line_address r), dd_snoops = snoops, dd_grant = grant\<rparr>)"
  by (auto simp: accept res_bind_eq_Inr)

lemma accept_frame:
  "accept d r = Inr (d', dec) \<Longrightarrow> line \<noteq> rq_line_address r \<Longrightarrow> view d' line = view d line"
  by (auto simp: accept_Inr view_store)

lemma accept_inv: "dir_inv d \<Longrightarrow> accept d r = Inr (d', dec) \<Longrightarrow> dir_inv d'"
  by (auto simp: accept_Inr intro!: dir_inv_store inv_step [OF dir_inv_view])

text \<open>The decision describes the stored line before and after.\<close>

lemma accept_reports:
  "accept d r = Inr (d', dec) \<Longrightarrow>
     dd_line dec = rq_line_address r \<and> dd_request dec = rq_id r \<and>
     dd_before dec = snapshot (view d (dd_line dec)) (dd_line dec) \<and>
     dd_after dec = snapshot (view d' (dd_line dec)) (dd_line dec)"
  by (auto simp: accept_Inr view_store)

text \<open>Requests to different lines do not see each other.\<close>

lemma accept_commute:
  assumes "dir_inv d" and "rq_line_address r \<noteq> rq_line_address s"
    and r: "accept d r = Inr (dr, decr)" and s: "accept d s = Inr (ds, decs)"
  shows "\<exists>d'. accept dr s = Inr (d', decs) \<and> accept ds r = Inr (d', decr)"
proof -
  let ?a = "rq_line_address r" and ?b = "rq_line_address s"
  obtain lr where lr: "view dr = (view d)(?a := lr)" and lr': "\<And>e. view e ?a = view d ?a \<Longrightarrow>
      accept e r = Inr (store_line is_empty e ?a lr, decr)"
    using r by (auto simp: accept_Inr view_store)
  obtain ls where ls: "view ds = (view d)(?b := ls)" and ls': "\<And>e. view e ?b = view d ?b \<Longrightarrow>
      accept e s = Inr (store_line is_empty e ?b ls, decs)"
    using s by (auto simp: accept_Inr view_store)
  have 1: "accept dr s = Inr (store_line is_empty dr ?b ls, decs)"
    using assms(2) by (intro ls') (simp add: lr)
  have 2: "accept ds r = Inr (store_line is_empty ds ?a lr, decr)"
    using assms(2) by (intro lr') (simp add: ls)
  have "store_line is_empty dr ?b ls = store_line is_empty ds ?a lr"
  proof (rule dir_inv_ext)
    show "dir_inv (store_line is_empty dr ?b ls)"
      using accept_inv [OF accept_inv [OF assms(1) r] 1] .
    show "dir_inv (store_line is_empty ds ?a lr)"
      using accept_inv [OF accept_inv [OF assms(1) s] 2] .
    show "view (store_line is_empty dr ?b ls) = view (store_line is_empty ds ?a lr)"
      using assms(2) by (simp add: view_store lr ls fun_upd_twist)
  qed
  with 1 2 show ?thesis by simp
qed

text \<open>Any sequence of accepted requests keeps the invariant.\<close>

lemma accept_all_inv:
  "dir_inv d \<Longrightarrow> res_foldl (\<lambda>d r. res_bind (accept d r) (\<lambda>(d', dec). Inr d')) d rs = Inr d' \<Longrightarrow>
     dir_inv d'"
  by (rule res_foldl_invariant [where I = dir_inv])
     (auto simp: res_bind_eq_Inr intro: accept_inv)

text \<open>Saving the lines of a directory and restoring them gives the directory back.\<close>

fun restore_all :: "'l directory \<Rightarrow> 'ls list \<Rightarrow> 'l directory option" where
  "restore_all d [] = Some d"
| "restore_all d (s # ss) = Option.bind (restore d s) (\<lambda>d'. restore_all d' ss)"

lemma restore_all_lines:
  assumes "dir_inv d" and "set lines \<subseteq> dom (dir_lines d)"
  shows "\<exists>e'. restore_all e (map (\<lambda>line. snapshot (view d line) line) lines) = Some e' \<and>
    view e' = (\<lambda>line. if line \<in> set lines then view d line else view e line) \<and>
    (dir_inv e \<longrightarrow> dir_inv e')"
  using assms(2)
proof (induction lines arbitrary: e)
  case (Cons line lines)
  let ?e = "store_line is_empty e line (view d line)"
  have "restore e (snapshot (view d line) line) = Some ?e"
    using assms(1) by (intro restore_snapshot dir_inv_view)
  moreover obtain e' where "restore_all ?e (map (\<lambda>line. snapshot (view d line) line) lines) = Some e'"
    "view e' = (\<lambda>l. if l \<in> set lines then view d l else view ?e l)"
    "dir_inv ?e \<longrightarrow> dir_inv e'"
    using Cons.IH [of ?e] Cons.prems by auto
  ultimately show ?case
    using assms(1) by (auto simp: view_store dir_inv_store dir_inv_view)
qed auto

lemma restore_all_roundtrip:
  assumes "dir_inv d"
  shows "restore_all directory_empty
    (map (\<lambda>line. snapshot (view d line) line) (sorted_list_of_set (dom (dir_lines d)))) = Some d"
proof -
  have fin: "finite (dom (dir_lines d))" using assms by (simp add: dir_inv_def)
  obtain e' where e': "restore_all directory_empty
      (map (\<lambda>line. snapshot (view d line) line) (sorted_list_of_set (dom (dir_lines d)))) = Some e'"
    "view e' = (\<lambda>line. if line \<in> dom (dir_lines d) then view d line else view directory_empty line)"
    "dir_inv e'"
    using restore_all_lines [OF assms, of "sorted_list_of_set (dom (dir_lines d))" directory_empty]
      fin dir_inv_empty by auto
  have "view e' = view d"
    by (auto simp: e'(2) fun_eq_iff lookup_line_def directory_empty_def split: option.splits)
  with e' assms dir_inv_ext show ?thesis by blast
qed

end

section \<open>A directory together with its caches\<close>

text \<open>
  The states of the copies of every line, next to the directory.  A request the directory accepts
  is carried out at once: its snoops run through the caches' protocol and the requester installs
  the grant or leaves.  A request it refuses changes nothing.  Between requests a cache may move a
  copy silently.
\<close>

inductive directory_system ::
  "('l directory \<Rightarrow> memory_request \<Rightarrow> 'er + 'l directory \<times> ('ls, 'ev, 'st, 'src) directory_decision) \<Rightarrow>
   ('st \<Rightarrow> 'ev \<Rightarrow> 'st option) \<Rightarrow>
   (MemoryOperation \<Rightarrow> ('st, 'src) directory_grant option \<Rightarrow> 'st \<Rightarrow> 'st) \<Rightarrow>
   ('st \<Rightarrow> 'st \<Rightarrow> bool) \<Rightarrow> 'st \<Rightarrow>
   'l directory \<Rightarrow> (address \<Rightarrow> agent_id \<Rightarrow> 'st) \<Rightarrow> bool"
  for accept snoop requester_after silent invalid
where
  start: "directory_system accept snoop requester_after silent invalid directory_empty (\<lambda>line a. invalid)"
| serve: "directory_system accept snoop requester_after silent invalid d caches \<Longrightarrow>
    accept d r = Inr (d', dec) \<Longrightarrow>
    apply_snoops snoop (caches (rq_line_address r)) (dd_snoops dec) = Some copies \<Longrightarrow>
    directory_system accept snoop requester_after silent invalid d'
      (caches(rq_line_address r := copies(rid_agent (rq_id r) :=
         requester_after (rq_operation r) (dd_grant dec) (copies (rid_agent (rq_id r))))))"
| silent: "directory_system accept snoop requester_after silent invalid d caches \<Longrightarrow>
    silent (caches line a) t \<Longrightarrow>
    directory_system accept snoop requester_after silent invalid d
      (caches(line := (caches line)(a := t)))"

text \<open>One served request as a function.\<close>

definition serve_request ::
  "('l directory \<Rightarrow> memory_request \<Rightarrow> 'er + 'l directory \<times> ('ls, 'ev, 'st, 'src) directory_decision) \<Rightarrow>
   ('st \<Rightarrow> 'ev \<Rightarrow> 'st option) \<Rightarrow>
   (MemoryOperation \<Rightarrow> ('st, 'src) directory_grant option \<Rightarrow> 'st \<Rightarrow> 'st) \<Rightarrow>
   memory_request \<Rightarrow> 'l directory \<times> (address \<Rightarrow> agent_id \<Rightarrow> 'st) \<Rightarrow>
   ('l directory \<times> (address \<Rightarrow> agent_id \<Rightarrow> 'st)) option" where
  "serve_request accept snoop requester_after r = (\<lambda>(d, caches).
    (case accept d r of
       Inl _ \<Rightarrow> None
     | Inr (d', dec) \<Rightarrow>
         map_option (\<lambda>copies. (d', caches(rq_line_address r := copies(rid_agent (rq_id r) :=
             requester_after (rq_operation r) (dd_grant dec) (copies (rid_agent (rq_id r)))))))
           (apply_snoops snoop (caches (rq_line_address r)) (dd_snoops dec))))"

lemma directory_system_serve:
  "directory_system accept snoop requester_after silent invalid (fst s) (snd s) \<Longrightarrow>
   serve_request accept snoop requester_after r s = Some s' \<Longrightarrow>
   directory_system accept snoop requester_after silent invalid (fst s') (snd s')"
  by (auto simp: serve_request_def split: sum.splits prod.splits intro: directory_system.serve)

fun serve_all ::
  "('l directory \<Rightarrow> memory_request \<Rightarrow> 'er + 'l directory \<times> ('ls, 'ev, 'st, 'src) directory_decision) \<Rightarrow>
   ('st \<Rightarrow> 'ev \<Rightarrow> 'st option) \<Rightarrow>
   (MemoryOperation \<Rightarrow> ('st, 'src) directory_grant option \<Rightarrow> 'st \<Rightarrow> 'st) \<Rightarrow>
   memory_request list \<Rightarrow> 'l directory \<times> (address \<Rightarrow> agent_id \<Rightarrow> 'st) \<Rightarrow>
   ('l directory \<times> (address \<Rightarrow> agent_id \<Rightarrow> 'st)) option" where
  "serve_all accept snoop requester_after [] s = Some s"
| "serve_all accept snoop requester_after (r # rs) s =
     (case serve_request accept snoop requester_after r s of
        None \<Rightarrow> None | Some s' \<Rightarrow> serve_all accept snoop requester_after rs s')"

lemma directory_system_serve_all:
  "directory_system accept snoop requester_after silent invalid (fst s) (snd s) \<Longrightarrow>
   serve_all accept snoop requester_after rs s = Some s' \<Longrightarrow>
   directory_system accept snoop requester_after silent invalid (fst s') (snd s')"
  by (induction rs arbitrary: s) (auto split: option.splits dest: directory_system_serve)

lemma directory_system_run:
  "serve_all accept snoop requester_after rs (directory_empty, \<lambda>line a. invalid) = Some s \<Longrightarrow>
   directory_system accept snoop requester_after silent invalid (fst s) (snd s)"
  by (erule directory_system_serve_all [rotated]) (simp add: directory_system.start)

text \<open>
  What a directory needs for its caches to stay coherent: the recorded states shadow the real ones
  and every accepted request keeps it that way.
\<close>

locale coherent_directory = line_directory accept line_step snapshot restore empty_line is_empty inv
  for accept :: "'l directory \<Rightarrow> memory_request \<Rightarrow>
        'er + 'l directory \<times> ('ls, 'ev, 'st, 'src) directory_decision"
    and line_step snapshot restore empty_line is_empty inv +
  fixes states :: "'l \<Rightarrow> agent_id \<Rightarrow> 'st"
    and shadows :: "'st \<Rightarrow> 'st \<Rightarrow> bool"
    and snoop :: "'st \<Rightarrow> 'ev \<Rightarrow> 'st option"
    and requester_after :: "MemoryOperation \<Rightarrow> ('st, 'src) directory_grant option \<Rightarrow> 'st \<Rightarrow> 'st"
    and silent :: "'st \<Rightarrow> 'st \<Rightarrow> bool"
    and invalid :: 'st
    and permission :: "'st \<Rightarrow> perm"
  assumes follows: "inv l \<Longrightarrow> line_step line rid op l = Inr (l', snoops, grant) \<Longrightarrow>
        (\<And>a. shadows (states l a) (copies a)) \<Longrightarrow>
        \<exists>copies'. apply_snoops snoop copies snoops = Some copies' \<and>
          (\<forall>a. shadows (states l' a)
            ((copies'(rid_agent rid := requester_after op grant (copies' (rid_agent rid)))) a))"
    and shadows_invalid: "shadows (states empty_line a) invalid"
    and shadows_silent: "shadows s t \<Longrightarrow> silent t u \<Longrightarrow> shadows s u"
    and exclusive: "inv l \<Longrightarrow> (\<And>a. shadows (states l a) (copies a)) \<Longrightarrow> a \<noteq> b \<Longrightarrow>
        permission (copies a) = WritePerm \<Longrightarrow> permission (copies b) = NoPerm"
begin

lemma follows_accept:
  assumes "dir_inv d" and "\<And>line a. shadows (states (view d line) a) (caches line a)"
    and "accept d r = Inr (d', dec)"
  obtains copies where
    "apply_snoops snoop (caches (rq_line_address r)) (dd_snoops dec) = Some copies"
    "\<And>a. shadows (states (view d' (rq_line_address r)) a)
       ((copies(rid_agent (rq_id r) :=
           requester_after (rq_operation r) (dd_grant dec) (copies (rid_agent (rq_id r))))) a)"
proof -
  obtain l' snoops grant where step:
    "line_step (rq_line_address r) (rq_id r) (rq_operation r) (view d (rq_line_address r)) =
       Inr (l', snoops, grant)"
    and d': "view d' (rq_line_address r) = l'" and dec: "dd_snoops dec = snoops" "dd_grant dec = grant"
    using assms(3) by (auto simp: accept_Inr view_store)
  show ?thesis
    using follows [OF dir_inv_view [OF assms(1)] step assms(2)] that by (auto simp: dec d')
qed

lemma system_shadows:
  assumes "directory_system accept snoop requester_after silent invalid d caches"
  shows "dir_inv d \<and> (\<forall>line a. shadows (states (view d line) a) (caches line a))"
  using assms
proof induction
  case start
  then show ?case
    using dir_inv_empty shadows_invalid by (simp add: lookup_line_def directory_empty_def)
next
  case (serve d caches r d' dec copies)
  then have "dir_inv d" and sh: "\<And>line a. shadows (states (view d line) a) (caches line a)" by auto
  obtain copies' where
    "apply_snoops snoop (caches (rq_line_address r)) (dd_snoops dec) = Some copies'"
    "\<And>a. shadows (states (view d' (rq_line_address r)) a)
       ((copies'(rid_agent (rq_id r) :=
           requester_after (rq_operation r) (dd_grant dec) (copies' (rid_agent (rq_id r))))) a)"
    using follows_accept [OF \<open>dir_inv d\<close> sh serve.hyps(2)] by blast
  then show ?case
    using serve.hyps sh accept_inv [OF \<open>dir_inv d\<close>] accept_frame [OF serve.hyps(2)]
    by auto
next
  case (silent d caches line a t)
  then have "shadows (states (view d line) a) t" using shadows_silent by blast
  with silent show ?case by auto
qed

lemma system_single_writer:
  assumes "directory_system accept snoop requester_after silent invalid d caches"
    and "a \<noteq> b" and "permission (caches line a) = WritePerm"
  shows "permission (caches line b) = NoPerm"
  using system_shadows [OF assms(1)] assms(2,3)
  by (intro exclusive [of "view d line" "caches line" a b]) (auto intro: dir_inv_view)

lemma system_snoops_answered:
  assumes "directory_system accept snoop requester_after silent invalid d caches"
    and "accept d r = Inr (d', dec)"
  shows "\<exists>copies. apply_snoops snoop (caches (rq_line_address r)) (dd_snoops dec) = Some copies"
  using system_shadows [OF assms(1)] assms(2) by (blast elim: follows_accept)

end

end
