(* ===== verification/Directory_Msi.thy ===== *)
theory Directory_Msi
  imports Line_Directory Protocol_Msi
begin

text \<open>
  The MSI directory of \<^verbatim>\<open>crates/rem6-directory/src/lib.rs\<close> (lines 24 to 566): line states,
  the operation per request kind, \<open>accept\<close>, and restoring saved line states.
\<close>

section \<open>Data\<close>

datatype DirectoryDataSource = BackingMemory | ModifiedOwner agent_id | NoData

type_synonym DirectoryGrant = "(MsiState, DirectoryDataSource) directory_grant"
type_synonym DirectorySnoop = "MsiEvent directory_snoop"

record DirectoryLineState =
  dls_line :: address
  dls_owner :: "agent_id option"
  dls_sharers :: "agent_id list"

definition dls_new :: "address \<Rightarrow> DirectoryLineState" where
  "dls_new line = \<lparr>dls_line = line, dls_owner = None, dls_sharers = []\<rparr>"

definition dls_with_owner :: "DirectoryLineState \<Rightarrow> agent_id \<Rightarrow> DirectoryLineState" where
  "dls_with_owner s owner = s\<lparr>dls_owner := Some owner, dls_sharers := []\<rparr>"

definition dls_with_sharer :: "DirectoryLineState \<Rightarrow> agent_id \<Rightarrow> DirectoryLineState" where
  "dls_with_sharer s sharer = s\<lparr>dls_sharers := push_sharer (dls_sharers s) sharer\<rparr>"

definition dls_protocol_snapshot :: "DirectoryLineState \<Rightarrow> MsiDirectoryLineSnapshot" where
  "dls_protocol_snapshot s =
    (let snap = msi_snapshot_new (dls_line s);
         snap = (case dls_owner s of
                   None \<Rightarrow> snap | Some owner \<Rightarrow> msi_with_cache snap owner MsiState.Modified)
     in foldl (\<lambda>snap sharer. msi_with_cache snap sharer MsiState.Shared) snap (dls_sharers s))"

type_synonym DirectoryDecision =
  "(DirectoryLineState, MsiEvent, MsiState, DirectoryDataSource) directory_decision"

datatype DirectoryError =
    UpgradeRequesterNotSharer address agent_id
  | WritebackFromNonOwner address agent_id "agent_id option"
  | EvictFromNonHolder address agent_id

record DirectoryLine =
  dl_owner :: "agent_id option"
  dl_sharers :: "agent_id set"

definition dl_default :: DirectoryLine where
  "dl_default = \<lparr>dl_owner = None, dl_sharers = {}\<rparr>"

definition dl_is_empty :: "DirectoryLine \<Rightarrow> bool" where
  "dl_is_empty l \<longleftrightarrow> dl_owner l = None \<and> dl_sharers l = {}"

definition dl_from_snapshot :: "DirectoryLineState \<Rightarrow> DirectoryLine" where
  "dl_from_snapshot s = \<lparr>dl_owner = dls_owner s, dl_sharers = set (dls_sharers s)\<rparr>"

definition dl_snapshot :: "DirectoryLine \<Rightarrow> address \<Rightarrow> DirectoryLineState" where
  "dl_snapshot l line =
    (let s = dls_new line;
         s = (case dl_owner l of None \<Rightarrow> s | Some owner \<Rightarrow> dls_with_owner s owner)
     in foldl dls_with_sharer s (sorted_list_of_set (dl_sharers l)))"

type_synonym MsiDirectory = "DirectoryLine directory"

section \<open>Operations of a line\<close>

type_synonym msi_outcome =
  "DirectoryLine \<times> DirectorySnoop list \<times> DirectoryGrant option"

abbreviation msi_grant ::
  "request_id \<Rightarrow> address \<Rightarrow> MsiState \<Rightarrow> DirectoryDataSource \<Rightarrow> DirectoryGrant option" where
  "msi_grant request line s src \<equiv>
     Some \<lparr>dg_request = request, dg_line = line, dg_state = s, dg_data_source = src\<rparr>"

definition msi_accept_read_shared ::
  "address \<Rightarrow> request_id \<Rightarrow> agent_id \<Rightarrow> DirectoryLine \<Rightarrow> msi_outcome" where
  "msi_accept_read_shared line request requester l =
    (if dl_owner l = Some requester then
       (l, [], msi_grant request line MsiState.Modified NoData)
     else case dl_owner l of
       Some owner \<Rightarrow>
         (l\<lparr>dl_owner := None, dl_sharers := insert requester (insert owner (dl_sharers l))\<rparr>,
          [\<lparr>ds_target = owner, ds_event = MsiEvent.SnoopRead\<rparr>],
          msi_grant request line MsiState.Shared (ModifiedOwner owner))
     | None \<Rightarrow>
         (l\<lparr>dl_sharers := insert requester (dl_sharers l)\<rparr>, [],
          msi_grant request line MsiState.Shared BackingMemory))"

definition msi_accept_read_unique ::
  "address \<Rightarrow> request_id \<Rightarrow> agent_id \<Rightarrow> DirectoryLine \<Rightarrow> msi_outcome" where
  "msi_accept_read_unique line request requester l =
    (let (owner_snoops, data_source) =
       (case dl_owner l of
          Some owner \<Rightarrow>
            if owner = requester then ([], NoData)
            else ([\<lparr>ds_target = owner, ds_event = MsiEvent.SnoopWrite\<rparr>], ModifiedOwner owner)
        | None \<Rightarrow> if requester \<in> dl_sharers l then ([], NoData) else ([], BackingMemory));
       snoops = owner_snoops @ snoops_to MsiEvent.SnoopWrite (others requester (dl_sharers l))
     in (l\<lparr>dl_owner := Some requester, dl_sharers := {}\<rparr>, snoops,
         msi_grant request line MsiState.Modified data_source))"

definition msi_accept_upgrade ::
  "address \<Rightarrow> request_id \<Rightarrow> agent_id \<Rightarrow> DirectoryLine \<Rightarrow> DirectoryError + msi_outcome" where
  "msi_accept_upgrade line request requester l =
    (if dl_owner l = Some requester then
       Inr (l, [], msi_grant request line MsiState.Modified NoData)
     else if requester \<notin> dl_sharers l then Inl (UpgradeRequesterNotSharer line requester)
     else Inr (l\<lparr>dl_owner := Some requester, dl_sharers := {}\<rparr>,
               snoops_to MsiEvent.SnoopWrite (others requester (dl_sharers l)),
               msi_grant request line MsiState.Modified NoData))"

definition msi_accept_dirty_writeback ::
  "address \<Rightarrow> agent_id \<Rightarrow> DirectoryLine \<Rightarrow> DirectoryError + msi_outcome" where
  "msi_accept_dirty_writeback line requester l =
    (if dl_owner l \<noteq> Some requester
     then Inl (WritebackFromNonOwner line requester (dl_owner l))
     else Inr (l\<lparr>dl_owner := None\<rparr>, [], None))"

definition msi_accept_write_clean ::
  "address \<Rightarrow> agent_id \<Rightarrow> DirectoryLine \<Rightarrow> DirectoryError + msi_outcome" where
  "msi_accept_write_clean line requester l =
    (if dl_owner l = Some requester then
       Inr (l\<lparr>dl_owner := None, dl_sharers := insert requester (dl_sharers l)\<rparr>, [], None)
     else if requester \<in> dl_sharers l then Inr (l, [], None)
     else Inl (EvictFromNonHolder line requester))"

definition msi_accept_clean_departure ::
  "address \<Rightarrow> agent_id \<Rightarrow> DirectoryLine \<Rightarrow> DirectoryError + msi_outcome" where
  "msi_accept_clean_departure line requester l =
    (if dl_owner l = Some requester then Inr (l\<lparr>dl_owner := None\<rparr>, [], None)
     else if requester \<in> dl_sharers l then
       Inr (l\<lparr>dl_sharers := dl_sharers l - {requester}\<rparr>, [], None)
     else Inl (EvictFromNonHolder line requester))"

text \<open>The match of \<open>accept\<close> on the operation.\<close>

definition msi_accept_operation ::
  "address \<Rightarrow> request_id \<Rightarrow> MemoryOperation \<Rightarrow> DirectoryLine \<Rightarrow> DirectoryError + msi_outcome" where
  "msi_accept_operation line request op l =
    (let requester = rid_agent request in
     case op of
       NoAccess \<Rightarrow> Inr (l, [], None)
     | InstructionFetch \<Rightarrow> Inr (msi_accept_read_shared line request requester l)
     | ReadShared \<Rightarrow> Inr (msi_accept_read_shared line request requester l)
     | LoadLocked \<Rightarrow> Inr (msi_accept_read_shared line request requester l)
     | PrefetchRead \<Rightarrow> Inr (msi_accept_read_shared line request requester l)
     | ReadUnique \<Rightarrow> Inr (msi_accept_read_unique line request requester l)
     | LockedRmwRead \<Rightarrow> Inr (msi_accept_read_unique line request requester l)
     | StoreConditionalUpgradeFail \<Rightarrow> Inr (msi_accept_read_unique line request requester l)
     | Write \<Rightarrow> Inr (msi_accept_read_unique line request requester l)
     | CacheBlockZero \<Rightarrow> Inr (msi_accept_read_unique line request requester l)
     | StoreConditional \<Rightarrow> Inr (msi_accept_read_unique line request requester l)
     | StoreConditionalFail \<Rightarrow> Inr (msi_accept_read_unique line request requester l)
     | LockedRmwWrite \<Rightarrow> Inr (msi_accept_read_unique line request requester l)
     | Atomic \<Rightarrow> Inr (msi_accept_read_unique line request requester l)
     | AtomicNoReturn \<Rightarrow> Inr (msi_accept_read_unique line request requester l)
     | PrefetchWrite \<Rightarrow> Inr (msi_accept_read_unique line request requester l)
     | InvalidateWritable \<Rightarrow> Inr (msi_accept_read_unique line request requester l)
     | StoreConditionalUpgrade \<Rightarrow> msi_accept_upgrade line request requester l
     | Upgrade \<Rightarrow> msi_accept_upgrade line request requester l
     | WritebackDirty \<Rightarrow> msi_accept_dirty_writeback line requester l
     | WriteClean \<Rightarrow> msi_accept_write_clean line requester l
     | CleanShared \<Rightarrow> msi_accept_write_clean line requester l
     | WritebackClean \<Rightarrow> msi_accept_clean_departure line requester l
     | CleanEvict \<Rightarrow> msi_accept_clean_departure line requester l
     | MemoryOperation.Invalidate \<Rightarrow> msi_accept_clean_departure line requester l)"

section \<open>The directory\<close>

definition msi_line_state :: "MsiDirectory \<Rightarrow> address \<Rightarrow> DirectoryLineState" where
  "msi_line_state d line =
     (case dir_lines d line of None \<Rightarrow> dls_new line | Some l \<Rightarrow> dl_snapshot l line)"

definition msi_line_addresses :: "MsiDirectory \<Rightarrow> address list" where
  "msi_line_addresses d = sorted_list_of_set (dom (dir_lines d))"

definition msi_line_states :: "MsiDirectory \<Rightarrow> DirectoryLineState list" where
  "msi_line_states d =
     map (\<lambda>line. dl_snapshot (the (dir_lines d line)) line) (sorted_list_of_set (dom (dir_lines d)))"

definition msi_restore_line_state :: "MsiDirectory \<Rightarrow> DirectoryLineState \<Rightarrow> MsiDirectory" where
  "msi_restore_line_state d snap =
    (let line = dls_line snap; stored = dl_from_snapshot snap in
     if dl_is_empty stored then d\<lparr>dir_lines := (dir_lines d)(line := None)\<rparr>
     else d\<lparr>dir_lines := (dir_lines d)(line \<mapsto> stored)\<rparr>)"

definition msi_restore_line_states ::
  "MsiDirectory \<Rightarrow> DirectoryLineState list \<Rightarrow> MsiDirectory" where
  "msi_restore_line_states d snaps =
     foldl msi_restore_line_state (d\<lparr>dir_lines := Map.empty\<rparr>) snaps"

definition msi_accept ::
  "MsiDirectory \<Rightarrow> memory_request \<Rightarrow> DirectoryError + MsiDirectory \<times> DirectoryDecision" where
  "msi_accept d request =
    (let line = rq_line_address request;
         request_id = rq_id request;
         before_line = (case dir_lines d line of None \<Rightarrow> dl_default | Some l \<Rightarrow> l);
         before = dl_snapshot before_line line
     in res_bind (msi_accept_operation line request_id (rq_operation request) before_line)
       (\<lambda>(after_line, snoops, grant).
         let after = dl_snapshot after_line line;
             d' = (if dl_is_empty after_line then d\<lparr>dir_lines := (dir_lines d)(line := None)\<rparr>
                   else d\<lparr>dir_lines := (dir_lines d)(line \<mapsto> after_line)\<rparr>)
         in Inr (d', \<lparr>dd_line = line, dd_request = request_id, dd_before = before,
                      dd_after = after, dd_snoops = snoops, dd_grant = grant\<rparr>)))"

section \<open>The directory contract\<close>

text \<open>A line is exclusively owned or shared, never both.\<close>

definition dl_inv :: "DirectoryLine \<Rightarrow> bool" where
  "dl_inv l \<longleftrightarrow> finite (dl_sharers l) \<and> (dl_owner l \<noteq> None \<longrightarrow> dl_sharers l = {})"

lemmas msi_accept_defs =
  msi_accept_read_shared_def msi_accept_read_unique_def msi_accept_upgrade_def
  msi_accept_dirty_writeback_def msi_accept_write_clean_def msi_accept_clean_departure_def

text \<open>The six line operations and the requests that reach them.\<close>

lemma msi_accept_operation_cases:
  assumes "msi_accept_operation line request op l = Inr out"
  obtains (no_access) "op = NoAccess" "out = (l, [], None)"
  | (read_shared) "op \<in> {InstructionFetch, ReadShared, LoadLocked, PrefetchRead}"
      "out = msi_accept_read_shared line request (rid_agent request) l"
  | (read_unique) "op_requires_writable op" "op \<notin> {StoreConditionalUpgrade, Upgrade}"
      "out = msi_accept_read_unique line request (rid_agent request) l"
  | (upgrade) "op \<in> {StoreConditionalUpgrade, Upgrade}"
      "msi_accept_upgrade line request (rid_agent request) l = Inr out"
  | (dirty_writeback) "op = WritebackDirty"
      "msi_accept_dirty_writeback line (rid_agent request) l = Inr out"
  | (write_clean) "op \<in> {WriteClean, CleanShared}"
      "msi_accept_write_clean line (rid_agent request) l = Inr out"
  | (clean_departure) "op \<in> {WritebackClean, CleanEvict, MemoryOperation.Invalidate}"
      "msi_accept_clean_departure line (rid_agent request) l = Inr out"
  using assms
  by (cases op) (simp_all add: msi_accept_operation_def Let_def op_requires_writable_def)

lemma dl_snapshot_fields:
  "dl_snapshot l line =
     \<lparr>dls_line = line, dls_owner = dl_owner l, dls_sharers = sorted_list_of_set (dl_sharers l)\<rparr>"
proof -
  have "foldl dls_with_sharer s xs = s\<lparr>dls_sharers := foldl push_sharer (dls_sharers s) xs\<rparr>" for s xs
    by (induction xs arbitrary: s) (simp_all add: dls_with_sharer_def)
  then show ?thesis
    by (simp add: dl_snapshot_def dls_new_def dls_with_owner_def Let_def split: option.splits)
qed

lemma dl_inv_step:
  assumes "dl_inv l" and "msi_accept_operation line request op l = Inr (l', snoops, grant)"
  shows "dl_inv l'"
  using assms(2)
  by (cases rule: msi_accept_operation_cases)
     (use assms(1) in \<open>auto simp: dl_inv_def msi_accept_defs Let_def split: if_splits option.splits\<close>)

lemma dl_restore_snapshot:
  "finite (dl_sharers l) \<Longrightarrow>
     msi_restore_line_state d (dl_snapshot l line) = store_line dl_is_empty d line l"
  by (cases l) (simp add: msi_restore_line_state_def dl_snapshot_fields dl_from_snapshot_def
      store_line_def Let_def)

interpretation msi_dir: line_directory msi_accept msi_accept_operation dl_snapshot
  "\<lambda>d s. Some (msi_restore_line_state d s)" dl_default dl_is_empty dl_inv
proof unfold_locales
  show "dl_is_empty l \<longleftrightarrow> l = dl_default" for l
    by (cases l) (simp add: dl_is_empty_def dl_default_def)
  show "dl_inv dl_default" by (simp add: dl_inv_def dl_default_def)
  show "Some (msi_restore_line_state d (dl_snapshot l a)) = Some (store_line dl_is_empty d a l)"
    if "dl_inv l" for d l a
    using that by (simp add: dl_inv_def dl_restore_snapshot)
qed (auto simp: msi_accept_def Let_def lookup_line_def store_line_def dl_inv_step split: option.splits)

section \<open>The directory follows the protocol\<close>

text \<open>The state the directory believes each cache to be in.\<close>

definition dl_states :: "DirectoryLine \<Rightarrow> agent_id \<Rightarrow> MsiState" where
  "dl_states l a =
     (if dl_owner l = Some a then MsiState.Modified
      else if a \<in> dl_sharers l then MsiState.Shared else MsiState.Invalid)"

text \<open>What the requester does to its own copy: it installs the grant, or it leaves.\<close>

definition msi_requester_after ::
  "MemoryOperation \<Rightarrow> DirectoryGrant option \<Rightarrow> MsiState \<Rightarrow> MsiState" where
  "msi_requester_after op grant s =
     (case grant of
        Some g \<Rightarrow> dg_state g
      | None \<Rightarrow> if op = NoAccess then s
                else if op \<in> {WriteClean, CleanShared} then MsiState.Shared
                else MsiState.Invalid)"

lemma msi_snoop_result:
  "snoop_result msi_transition s MsiEvent.SnoopWrite = (if msi_is_stable s then Some MsiState.Invalid else None)"
  "snoop_result msi_transition s MsiEvent.SnoopRead =
     (if msi_is_stable s then Some (if s = MsiState.Modified then MsiState.Shared else s) else None)"
  by (cases s; simp add: snoop_result_def msi_transition_def Let_def msi_state_predicates
      msi_event_predicates)+

lemma dl_states_stable [simp]: "msi_is_stable (dl_states l a)"
  by (simp add: dl_states_def msi_is_stable_def)

lemma msi_snoop_others:
  assumes "finite S"
  shows "apply_snoops (snoop_result msi_transition) (dl_states l)
      (snoops_to MsiEvent.SnoopWrite (others r S)) =
    Some (\<lambda>a. if a \<in> S - {r} then MsiState.Invalid else dl_states l a)"
  using assms by (subst apply_snoops_to [where f = "\<lambda>_. MsiState.Invalid"]) (auto simp: msi_snoop_result)

lemma msi_line_follows_protocol:
  assumes "dl_inv l" and "msi_accept_operation line request op l = Inr (l', snoops, grant)"
  shows "map_option (\<lambda>caches. caches(rid_agent request :=
        msi_requester_after op grant (caches (rid_agent request))))
      (apply_snoops (snoop_result msi_transition) (dl_states l) snoops) = Some (dl_states l')"
  using assms(2)
proof (cases rule: msi_accept_operation_cases)
  case no_access
  then show ?thesis by (simp add: msi_requester_after_def)
next
  case read_shared
  with assms(1) show ?thesis
    by (cases "dl_owner l")
       (auto simp: msi_accept_read_shared_def dl_inv_def msi_snoop_result msi_requester_after_def
          fun_eq_iff dl_states_def msi_is_stable_def
        iff del: map_option_eq_Some split: if_splits)
next
  case read_unique
  with assms(1) show ?thesis
    by (cases "dl_owner l")
       (auto simp: msi_accept_read_unique_def dl_inv_def msi_snoop_others msi_snoop_result
          msi_requester_after_def fun_eq_iff dl_states_def msi_is_stable_def
        iff del: map_option_eq_Some split: if_splits)
next
  case upgrade
  with assms(1) show ?thesis
    by (cases "dl_owner l")
       (auto simp: msi_accept_upgrade_def dl_inv_def msi_snoop_others msi_requester_after_def
          fun_eq_iff dl_states_def msi_is_stable_def
        iff del: map_option_eq_Some split: if_splits)
next
  case dirty_writeback
  with assms(1) show ?thesis
    by (auto simp: msi_accept_dirty_writeback_def dl_inv_def msi_requester_after_def fun_eq_iff
        dl_states_def iff del: map_option_eq_Some split: if_splits)
next
  case write_clean
  with assms(1) show ?thesis
    by (auto simp: msi_accept_write_clean_def dl_inv_def msi_requester_after_def fun_eq_iff
        dl_states_def iff del: map_option_eq_Some split: if_splits)
next
  case clean_departure
  with assms(1) show ?thesis
    by (auto simp: msi_accept_clean_departure_def dl_inv_def msi_requester_after_def fun_eq_iff
        dl_states_def iff del: map_option_eq_Some split: if_splits)
qed

text \<open>Where the directory tells the requester to take the data from.\<close>

lemma msi_line_data_source:
  assumes "dl_inv l" and "msi_accept_operation line request op l = Inr (l', snoops, Some g)"
  shows "case dg_data_source g of
      ModifiedOwner owner \<Rightarrow> dl_states l owner = MsiState.Modified \<and> owner \<noteq> rid_agent request \<and>
        owner \<in> ds_target ` set snoops
    | BackingMemory \<Rightarrow> \<forall>a. dl_states l a \<noteq> MsiState.Modified
    | NoData \<Rightarrow> msi_is_valid (dl_states l (rid_agent request))"
  using assms(2)
proof (cases rule: msi_accept_operation_cases)
  case read_shared
  with assms(1) show ?thesis
    by (auto simp: msi_accept_read_shared_def dl_states_def msi_is_valid_def
        split: if_splits option.splits)
next
  case read_unique
  with assms(1) show ?thesis
    by (auto simp: msi_accept_read_unique_def dl_states_def msi_is_valid_def
        split: if_splits option.splits)
qed (use assms(1) in \<open>auto simp: msi_accept_defs dl_states_def msi_is_valid_def split: if_splits\<close>)

text \<open>The directory view of a line passes the protocol check.\<close>

lemma dls_protocol_snapshot_caches:
  "ls_caches (dls_protocol_snapshot s) =
     (case dls_owner s of None \<Rightarrow> [] | Some owner \<Rightarrow> [(owner, MsiState.Modified)]) @
     map (\<lambda>a. (a, MsiState.Shared)) (dls_sharers s)"
proof -
  have "ls_caches (foldl (\<lambda>snap sharer. msi_with_cache snap sharer MsiState.Shared) snap xs) =
      ls_caches snap @ map (\<lambda>a. (a, MsiState.Shared)) xs" for snap xs
    by (induction xs arbitrary: snap) (simp_all add: msi_with_cache_def)
  then show ?thesis
    by (simp add: dls_protocol_snapshot_def Let_def msi_snapshot_new_def msi_with_cache_def
        split: option.splits)
qed

lemma dl_inv_validates:
  assumes "dl_inv l"
  shows "msi_validate (dls_protocol_snapshot (dl_snapshot l line)) = Inr ()"
  using assms
  by (auto simp: msi_validate_swmr swmr_def dls_protocol_snapshot_caches dl_snapshot_fields
      dl_inv_def sorted_wrt_map swmr_pair_def sorted_wrt_true split: option.splits)

lemma msi_restore_line_states_all:
  "msi_dir.restore_all d snaps = Some (foldl msi_restore_line_state d snaps)"
  by (induction snaps arbitrary: d) simp_all

lemma msi_line_states_view:
  "finite (dom (dir_lines d)) \<Longrightarrow> msi_line_states d =
    map (\<lambda>line. dl_snapshot (msi_dir.view d line) line) (sorted_list_of_set (dom (dir_lines d)))"
  by (auto simp: msi_line_states_def lookup_line_def)

lemma msi_dir_restore:
  assumes "msi_dir.dir_inv d"
  shows "msi_restore_line_states d0 (msi_line_states d) = d"
proof -
  have "finite (dom (dir_lines d))" using assms by (simp add: msi_dir.dir_inv_def)
  moreover have "d0\<lparr>dir_lines := Map.empty\<rparr> = directory_empty"
    by (simp add: directory_empty_def)
  ultimately show ?thesis
    using msi_dir.restore_all_roundtrip [OF assms]
    by (simp add: msi_restore_line_states_all msi_restore_line_states_def msi_line_states_view)
qed

section \<open>The directory with its caches\<close>

text \<open>
  A store that hits moves a copy without a request.  The permission of a copy is the one of the
  protocol theory.
\<close>

definition msi_silent :: "MsiState \<Rightarrow> MsiState \<Rightarrow> bool" where
  "msi_silent s t \<longleftrightarrow>
     snoop_result msi_transition s MsiEvent.CpuWrite = Some t \<and> msi_is_stable t"

abbreviation msi_system :: "MsiDirectory \<Rightarrow> (address \<Rightarrow> agent_id \<Rightarrow> MsiState) \<Rightarrow> bool" where
  "msi_system \<equiv> directory_system msi_accept (snoop_result msi_transition) msi_requester_after
     msi_silent MsiState.Invalid"

lemma msi_silent_iff: "msi_silent s t \<longleftrightarrow> s = MsiState.Modified \<and> t = MsiState.Modified"
  by (cases s) (auto simp: msi_silent_def snoop_result_def msi_transition_def Let_def
      msi_state_predicates msi_event_predicates)

interpretation msi_coherent: coherent_directory msi_accept msi_accept_operation dl_snapshot
  "\<lambda>d s. Some (msi_restore_line_state d s)" dl_default dl_is_empty dl_inv
  dl_states "(=)" "snoop_result msi_transition" msi_requester_after msi_silent MsiState.Invalid
  "\<lambda>s. held (msi_perm_of s)"
proof unfold_locales
  show "\<exists>copies'. apply_snoops (snoop_result msi_transition) copies snoops = Some copies' \<and>
      (\<forall>a. dl_states l' a = (copies'(rid_agent rid :=
        msi_requester_after op grant (copies' (rid_agent rid)))) a)"
    if line: "dl_inv l" "msi_accept_operation line rid op l = Inr (l', snoops, grant)"
      and eq: "\<And>a. dl_states l a = copies a" for l line rid op l' snoops grant copies
  proof -
    have "copies = dl_states l" using eq by (simp add: fun_eq_iff)
    moreover obtain copies' where "apply_snoops (snoop_result msi_transition) (dl_states l) snoops = Some copies'"
      "copies'(rid_agent rid := msi_requester_after op grant (copies' (rid_agent rid))) = dl_states l'"
      using msi_line_follows_protocol [OF line] by auto
    ultimately show ?thesis by metis
  qed
  show "dl_states dl_default a = MsiState.Invalid" for a
    by (simp add: dl_states_def dl_default_def)
  show "s = u" if "s = t" "msi_silent t u" for s t u
    using that by (auto simp: msi_silent_iff)
  show "held (msi_perm_of (copies b)) = NoPerm"
    if "dl_inv l" "\<And>a. dl_states l a = copies a" "a \<noteq> b"
      "held (msi_perm_of (copies a)) = WritePerm" for l copies a b
    using that(1,3,4) by (auto simp: dl_states_def dl_inv_def simp flip: that(2) split: if_splits)
qed

lemmas msi_eval_simps =
  serve_request_def msi_accept_def msi_accept_operation_def msi_accept_read_shared_def
  msi_accept_read_unique_def dl_default_def dl_is_empty_def directory_empty_def Let_def
  msi_requester_after_def msi_snoop_result msi_is_stable_def

section \<open>Properties\<close>



text \<open>
  C12. Round trip.  Saving all lines of a reachable MSI directory and restoring them into any other
  directory gives the saved directory back.
\<close>

theorem msi_directory_roundtrip:
  assumes "msi_system d caches"
  shows "msi_restore_line_states d0 (msi_line_states d) = d"
  using msi_coherent.system_shadows [OF assms] msi_dir_restore by blast

theorem msi_directory_roundtrip_witness:
  "\<exists>d caches. msi_system d caches \<and> dir_lines d \<noteq> Map.empty \<and>
     msi_restore_line_states directory_empty (msi_line_states d) = d"
proof -
  obtain s where
    s: "serve_all msi_accept (snoop_result msi_transition) msi_requester_after
      [example_request ReadUnique 1] (directory_empty, \<lambda>line a. MsiState.Invalid) = Some s"
    and "dir_lines (fst s) \<noteq> Map.empty"
    by (simp add: msi_eval_simps)
  then show ?thesis
    using directory_system_run [OF s] msi_directory_roundtrip [of "fst s" "snd s" directory_empty] by blast
qed

end
