(* ===== verification/Directory_Mesi.thy ===== *)
theory Directory_Mesi
  imports Line_Directory Protocol_Mesi
begin

text \<open>
  The MESI directory of \<^verbatim>\<open>crates/rem6-directory/src/lib.rs\<close> (lines 568 to 1132): line states with the
  owner's protocol state, the operation per request kind, \<open>accept\<close>, and restoring a saved line.
\<close>

section \<open>Data\<close>

datatype MesiDirectoryDataSource = BackingMemory | OwnedCache agent_id | NoData

type_synonym MesiDirectoryGrant = "(MesiState, MesiDirectoryDataSource) directory_grant"
type_synonym MesiDirectorySnoop = "MesiEvent directory_snoop"

record MesiDirectoryLineState =
  mesils_line :: address
  mesils_owner :: "(agent_id \<times> MesiState) option"
  mesils_sharers :: "agent_id list"

definition mesils_new :: "address \<Rightarrow> MesiDirectoryLineState" where
  "mesils_new line = \<lparr>mesils_line = line, mesils_owner = None, mesils_sharers = []\<rparr>"

definition mesils_with_owner ::
  "MesiDirectoryLineState \<Rightarrow> agent_id \<Rightarrow> MesiState \<Rightarrow> MesiDirectoryLineState" where
  "mesils_with_owner ls owner s = ls\<lparr>mesils_owner := Some (owner, s), mesils_sharers := []\<rparr>"

definition mesils_with_sharer :: "MesiDirectoryLineState \<Rightarrow> agent_id \<Rightarrow> MesiDirectoryLineState" where
  "mesils_with_sharer ls sharer = ls\<lparr>mesils_sharers := push_sharer (mesils_sharers ls) sharer\<rparr>"

definition mesils_protocol_snapshot :: "MesiDirectoryLineState \<Rightarrow> MesiDirectoryLineSnapshot" where
  "mesils_protocol_snapshot ls =
    (let snap = mesi_snapshot_new (mesils_line ls);
         snap = (case mesils_owner ls of
                   None \<Rightarrow> snap | Some (owner, s) \<Rightarrow> mesi_with_cache snap owner s)
     in foldl (\<lambda>snap sharer. mesi_with_cache snap sharer MesiState.Shared) snap (mesils_sharers ls))"

type_synonym MesiDirectoryDecision =
  "(MesiDirectoryLineState, MesiEvent, MesiState, MesiDirectoryDataSource) directory_decision"

datatype MesiDirectoryError =
    UpgradeRequesterNotSharer address agent_id
  | InvalidSnapshotOwnerState address MesiState
  | WritebackFromNonOwner address agent_id "agent_id option"
  | EvictFromNonHolder address agent_id

record MesiStoredLine =
  mesil_owner :: "(agent_id \<times> MesiState) option"
  mesil_sharers :: "agent_id set"

definition mesil_default :: MesiStoredLine where
  "mesil_default = \<lparr>mesil_owner = None, mesil_sharers = {}\<rparr>"

definition mesil_is_empty :: "MesiStoredLine \<Rightarrow> bool" where
  "mesil_is_empty l \<longleftrightarrow> mesil_owner l = None \<and> mesil_sharers l = {}"

definition mesil_from_snapshot :: "MesiDirectoryLineState \<Rightarrow> MesiDirectoryError + MesiStoredLine" where
  "mesil_from_snapshot ls =
    (case mesils_owner ls of
       Some (owner, s) \<Rightarrow>
         if \<not> mesi_is_owned s then Inl (InvalidSnapshotOwnerState (mesils_line ls) s)
         else Inr \<lparr>mesil_owner = mesils_owner ls, mesil_sharers = set (mesils_sharers ls)\<rparr>
     | None \<Rightarrow> Inr \<lparr>mesil_owner = mesils_owner ls, mesil_sharers = set (mesils_sharers ls)\<rparr>)"

definition mesil_snapshot :: "MesiStoredLine \<Rightarrow> address \<Rightarrow> MesiDirectoryLineState" where
  "mesil_snapshot l line =
    (let ls = mesils_new line;
         ls = (case mesil_owner l of None \<Rightarrow> ls | Some (owner, s) \<Rightarrow> mesils_with_owner ls owner s)
     in foldl mesils_with_sharer ls (sorted_list_of_set (mesil_sharers l)))"

type_synonym MesiDirectory = "MesiStoredLine directory"

section \<open>Operations of a line\<close>

type_synonym mesi_outcome =
  "MesiStoredLine \<times> MesiDirectorySnoop list \<times> MesiDirectoryGrant option"

abbreviation mesi_grant ::
  "request_id \<Rightarrow> address \<Rightarrow> MesiState \<Rightarrow> MesiDirectoryDataSource \<Rightarrow> MesiDirectoryGrant option" where
  "mesi_grant request line s src \<equiv>
     Some \<lparr>dg_request = request, dg_line = line, dg_state = s, dg_data_source = src\<rparr>"

abbreviation mesil_owned_by :: "MesiStoredLine \<Rightarrow> agent_id \<Rightarrow> bool" where
  "mesil_owned_by l a \<equiv> map_option fst (mesil_owner l) = Some a"

definition mesi_accept_read_shared ::
  "address \<Rightarrow> request_id \<Rightarrow> agent_id \<Rightarrow> MesiStoredLine \<Rightarrow> mesi_outcome" where
  "mesi_accept_read_shared line request requester l =
    (case mesil_owner l of
       Some (owner, owner_state) \<Rightarrow>
         if owner = requester then (l, [], mesi_grant request line owner_state NoData)
         else
           (l\<lparr>mesil_owner := None, mesil_sharers := insert requester (insert owner (mesil_sharers l))\<rparr>,
            [\<lparr>ds_target = owner, ds_event = MesiEvent.SnoopRead\<rparr>],
            mesi_grant request line MesiState.Shared (OwnedCache owner))
     | None \<Rightarrow>
         if mesil_sharers l = {} then
           (l\<lparr>mesil_owner := Some (requester, MesiState.Exclusive)\<rparr>, [],
            mesi_grant request line MesiState.Exclusive BackingMemory)
         else
           (l\<lparr>mesil_sharers := insert requester (mesil_sharers l)\<rparr>, [],
            mesi_grant request line MesiState.Shared BackingMemory))"

definition mesi_accept_read_unique ::
  "address \<Rightarrow> request_id \<Rightarrow> agent_id \<Rightarrow> MesiStoredLine \<Rightarrow> mesi_outcome" where
  "mesi_accept_read_unique line request requester l =
    (let (owner_snoops, data_source) =
       (case mesil_owner l of
          Some (owner, _) \<Rightarrow>
            if owner = requester then ([], NoData)
            else ([\<lparr>ds_target = owner, ds_event = MesiEvent.SnoopWrite\<rparr>], OwnedCache owner)
        | None \<Rightarrow> if requester \<in> mesil_sharers l then ([], NoData) else ([], BackingMemory));
       snoops = owner_snoops @ snoops_to MesiEvent.SnoopWrite (others requester (mesil_sharers l))
     in (l\<lparr>mesil_owner := Some (requester, MesiState.Modified), mesil_sharers := {}\<rparr>, snoops,
         mesi_grant request line MesiState.Modified data_source))"

definition mesi_accept_upgrade ::
  "address \<Rightarrow> request_id \<Rightarrow> agent_id \<Rightarrow> MesiStoredLine \<Rightarrow> MesiDirectoryError + mesi_outcome" where
  "mesi_accept_upgrade line request requester l =
    (if mesil_owned_by l requester then
       Inr (l\<lparr>mesil_owner := Some (requester, MesiState.Modified)\<rparr>, [],
            mesi_grant request line MesiState.Modified NoData)
     else if requester \<notin> mesil_sharers l then Inl (UpgradeRequesterNotSharer line requester)
     else Inr (l\<lparr>mesil_owner := Some (requester, MesiState.Modified), mesil_sharers := {}\<rparr>,
               snoops_to MesiEvent.SnoopWrite (others requester (mesil_sharers l)),
               mesi_grant request line MesiState.Modified NoData))"

definition mesi_accept_dirty_writeback ::
  "address \<Rightarrow> agent_id \<Rightarrow> MesiStoredLine \<Rightarrow> MesiDirectoryError + mesi_outcome" where
  "mesi_accept_dirty_writeback line requester l =
    (if \<not> mesil_owned_by l requester
     then Inl (WritebackFromNonOwner line requester (map_option fst (mesil_owner l)))
     else Inr (l\<lparr>mesil_owner := None\<rparr>, [], None))"

definition mesi_accept_write_clean ::
  "address \<Rightarrow> agent_id \<Rightarrow> MesiStoredLine \<Rightarrow> MesiDirectoryError + mesi_outcome" where
  "mesi_accept_write_clean line requester l =
    (if mesil_owned_by l requester then
       Inr (l\<lparr>mesil_owner := None, mesil_sharers := insert requester (mesil_sharers l)\<rparr>, [], None)
     else if requester \<in> mesil_sharers l then Inr (l, [], None)
     else Inl (EvictFromNonHolder line requester))"

definition mesi_accept_clean_departure ::
  "address \<Rightarrow> agent_id \<Rightarrow> MesiStoredLine \<Rightarrow> MesiDirectoryError + mesi_outcome" where
  "mesi_accept_clean_departure line requester l =
    (if mesil_owned_by l requester then Inr (l\<lparr>mesil_owner := None\<rparr>, [], None)
     else if requester \<in> mesil_sharers l then
       Inr (l\<lparr>mesil_sharers := mesil_sharers l - {requester}\<rparr>, [], None)
     else Inl (EvictFromNonHolder line requester))"

text \<open>The match of \<open>accept\<close> on the operation.\<close>

definition mesi_accept_operation ::
  "address \<Rightarrow> request_id \<Rightarrow> MemoryOperation \<Rightarrow> MesiStoredLine \<Rightarrow> MesiDirectoryError + mesi_outcome" where
  "mesi_accept_operation line request op l =
    (let requester = rid_agent request in
     case op of
       NoAccess \<Rightarrow> Inr (l, [], None)
     | InstructionFetch \<Rightarrow> Inr (mesi_accept_read_shared line request requester l)
     | ReadShared \<Rightarrow> Inr (mesi_accept_read_shared line request requester l)
     | LoadLocked \<Rightarrow> Inr (mesi_accept_read_shared line request requester l)
     | PrefetchRead \<Rightarrow> Inr (mesi_accept_read_shared line request requester l)
     | ReadUnique \<Rightarrow> Inr (mesi_accept_read_unique line request requester l)
     | LockedRmwRead \<Rightarrow> Inr (mesi_accept_read_unique line request requester l)
     | StoreConditionalUpgradeFail \<Rightarrow> Inr (mesi_accept_read_unique line request requester l)
     | Write \<Rightarrow> Inr (mesi_accept_read_unique line request requester l)
     | CacheBlockZero \<Rightarrow> Inr (mesi_accept_read_unique line request requester l)
     | StoreConditional \<Rightarrow> Inr (mesi_accept_read_unique line request requester l)
     | StoreConditionalFail \<Rightarrow> Inr (mesi_accept_read_unique line request requester l)
     | LockedRmwWrite \<Rightarrow> Inr (mesi_accept_read_unique line request requester l)
     | Atomic \<Rightarrow> Inr (mesi_accept_read_unique line request requester l)
     | AtomicNoReturn \<Rightarrow> Inr (mesi_accept_read_unique line request requester l)
     | PrefetchWrite \<Rightarrow> Inr (mesi_accept_read_unique line request requester l)
     | InvalidateWritable \<Rightarrow> Inr (mesi_accept_read_unique line request requester l)
     | StoreConditionalUpgrade \<Rightarrow> mesi_accept_upgrade line request requester l
     | Upgrade \<Rightarrow> mesi_accept_upgrade line request requester l
     | WritebackDirty \<Rightarrow> mesi_accept_dirty_writeback line requester l
     | WriteClean \<Rightarrow> mesi_accept_write_clean line requester l
     | CleanShared \<Rightarrow> mesi_accept_write_clean line requester l
     | WritebackClean \<Rightarrow> mesi_accept_clean_departure line requester l
     | CleanEvict \<Rightarrow> mesi_accept_clean_departure line requester l
     | MemoryOperation.Invalidate \<Rightarrow> mesi_accept_clean_departure line requester l)"

section \<open>The directory\<close>

definition mesi_line_state :: "MesiDirectory \<Rightarrow> address \<Rightarrow> MesiDirectoryLineState" where
  "mesi_line_state d line =
     (case dir_lines d line of None \<Rightarrow> mesils_new line | Some l \<Rightarrow> mesil_snapshot l line)"

definition mesi_restore_line_state ::
  "MesiDirectory \<Rightarrow> MesiDirectoryLineState \<Rightarrow> MesiDirectoryError + MesiDirectory" where
  "mesi_restore_line_state d snap =
    (let line = mesils_line snap in
     res_bind (mesil_from_snapshot snap) (\<lambda>stored.
       Inr (if mesil_is_empty stored then d\<lparr>dir_lines := (dir_lines d)(line := None)\<rparr>
            else d\<lparr>dir_lines := (dir_lines d)(line \<mapsto> stored)\<rparr>)))"

definition mesi_accept ::
  "MesiDirectory \<Rightarrow> memory_request \<Rightarrow> MesiDirectoryError + MesiDirectory \<times> MesiDirectoryDecision" where
  "mesi_accept d request =
    (let line = rq_line_address request;
         request_id = rq_id request;
         before_line = (case dir_lines d line of None \<Rightarrow> mesil_default | Some l \<Rightarrow> l);
         before = mesil_snapshot before_line line
     in res_bind (mesi_accept_operation line request_id (rq_operation request) before_line)
       (\<lambda>(after_line, snoops, grant).
         let after = mesil_snapshot after_line line;
             d' = (if mesil_is_empty after_line then d\<lparr>dir_lines := (dir_lines d)(line := None)\<rparr>
                   else d\<lparr>dir_lines := (dir_lines d)(line \<mapsto> after_line)\<rparr>)
         in Inr (d', \<lparr>dd_line = line, dd_request = request_id, dd_before = before,
                      dd_after = after, dd_snoops = snoops, dd_grant = grant\<rparr>)))"

section \<open>The directory contract\<close>

text \<open>A line is owned by one exclusive or modified cache, or shared, never both.\<close>

definition mesil_inv :: "MesiStoredLine \<Rightarrow> bool" where
  "mesil_inv l \<longleftrightarrow> finite (mesil_sharers l) \<and>
     (\<forall>a s. mesil_owner l = Some (a, s) \<longrightarrow> mesi_is_owned s \<and> mesil_sharers l = {})"

lemmas mesi_accept_defs =
  mesi_accept_read_shared_def mesi_accept_read_unique_def mesi_accept_upgrade_def
  mesi_accept_dirty_writeback_def mesi_accept_write_clean_def mesi_accept_clean_departure_def

text \<open>The six line operations and the requests that reach them.\<close>

lemma mesi_accept_operation_cases:
  assumes "mesi_accept_operation line request op l = Inr out"
  obtains (no_access) "op = NoAccess" "out = (l, [], None)"
  | (read_shared) "op \<in> {InstructionFetch, ReadShared, LoadLocked, PrefetchRead}"
      "out = mesi_accept_read_shared line request (rid_agent request) l"
  | (read_unique) "op_requires_writable op" "op \<notin> {StoreConditionalUpgrade, Upgrade}"
      "out = mesi_accept_read_unique line request (rid_agent request) l"
  | (upgrade) "op \<in> {StoreConditionalUpgrade, Upgrade}"
      "mesi_accept_upgrade line request (rid_agent request) l = Inr out"
  | (dirty_writeback) "op = WritebackDirty"
      "mesi_accept_dirty_writeback line (rid_agent request) l = Inr out"
  | (write_clean) "op \<in> {WriteClean, CleanShared}"
      "mesi_accept_write_clean line (rid_agent request) l = Inr out"
  | (clean_departure) "op \<in> {WritebackClean, CleanEvict, MemoryOperation.Invalidate}"
      "mesi_accept_clean_departure line (rid_agent request) l = Inr out"
  using assms
  by (cases op) (simp_all add: mesi_accept_operation_def Let_def op_requires_writable_def)

lemma mesil_snapshot_fields:
  "mesil_snapshot l line =
     \<lparr>mesils_line = line, mesils_owner = mesil_owner l, mesils_sharers = sorted_list_of_set (mesil_sharers l)\<rparr>"
proof -
  have "foldl mesils_with_sharer ls xs = ls\<lparr>mesils_sharers := foldl push_sharer (mesils_sharers ls) xs\<rparr>" for ls xs
    by (induction xs arbitrary: ls) (simp_all add: mesils_with_sharer_def)
  then show ?thesis
    by (simp add: mesil_snapshot_def mesils_new_def mesils_with_owner_def Let_def split: option.splits prod.splits)
qed

lemma mesil_inv_step:
  assumes "mesil_inv l" and "mesi_accept_operation line request op l = Inr (l', snoops, grant)"
  shows "mesil_inv l'"
  using assms(2)
  by (cases rule: mesi_accept_operation_cases)
     (use assms(1) in \<open>auto simp: mesil_inv_def mesi_accept_defs mesi_is_owned_def Let_def
        split: if_splits option.splits prod.splits MesiState.splits\<close>)

lemma mesil_restore_snapshot:
  "mesil_inv l \<Longrightarrow>
     mesi_restore_line_state d (mesil_snapshot l line) = Inr (store_line mesil_is_empty d line l)"
  by (cases l) (auto simp: mesi_restore_line_state_def mesil_snapshot_fields mesil_from_snapshot_def
      store_line_def mesil_inv_def mesi_state_predicates split: option.splits)

interpretation mesi_dir: line_directory mesi_accept mesi_accept_operation mesil_snapshot
  "\<lambda>d s. case mesi_restore_line_state d s of Inl _ \<Rightarrow> None | Inr d' \<Rightarrow> Some d'"
  mesil_default mesil_is_empty mesil_inv
proof unfold_locales
  show "mesil_is_empty l \<longleftrightarrow> l = mesil_default" for l
    by (cases l) (simp add: mesil_is_empty_def mesil_default_def)
  show "mesil_inv mesil_default" by (simp add: mesil_inv_def mesil_default_def)
qed (auto simp: mesi_accept_def Let_def lookup_line_def store_line_def mesil_inv_step mesil_restore_snapshot
      split: option.splits)

section \<open>The directory follows the protocol\<close>

text \<open>The state the directory records for each cache.\<close>

definition mesil_states :: "MesiStoredLine \<Rightarrow> agent_id \<Rightarrow> MesiState" where
  "mesil_states l a =
     (case mesil_owner l of
        Some (owner, s) \<Rightarrow>
          if a = owner then s else if a \<in> mesil_sharers l then MesiState.Shared else MesiState.Invalid
      | None \<Rightarrow> if a \<in> mesil_sharers l then MesiState.Shared else MesiState.Invalid)"

text \<open>
  A cache may upgrade an exclusive copy to a modified one silently, so the recorded state may
  lag behind the real one in that one way.
\<close>

definition mesi_shadows :: "MesiState \<Rightarrow> MesiState \<Rightarrow> bool" where
  "mesi_shadows recorded actual \<longleftrightarrow>
     recorded = actual \<or> recorded = MesiState.Exclusive \<and> actual = MesiState.Modified"

text \<open>What the requester does to its own copy: it installs the grant, or it leaves.\<close>

definition mesi_requester_after ::
  "MemoryOperation \<Rightarrow> MesiDirectoryGrant option \<Rightarrow> MesiState \<Rightarrow> MesiState" where
  "mesi_requester_after op grant s =
     (case grant of
        Some g \<Rightarrow> dg_state g
      | None \<Rightarrow> if op = NoAccess then s
                else if op \<in> {WriteClean, CleanShared} then MesiState.Shared
                else MesiState.Invalid)"

lemma mesi_snoop_write_result:
  "mesi_is_stable s \<Longrightarrow> snoop_result mesi_transition s MesiEvent.SnoopWrite = Some MesiState.Invalid"
  by (cases s) (simp_all add: snoop_result_def mesi_transition_def Let_def mesi_is_stable_def)

lemma mesi_snoop_others:
  assumes "finite S" and "\<And>a. mesi_is_stable (caches a)"
  shows "apply_snoops (snoop_result mesi_transition) caches
      (snoops_to MesiEvent.SnoopWrite (others r S)) =
    Some (\<lambda>a. if a \<in> S - {r} then MesiState.Invalid else caches a)"
  using assms
  by (subst apply_snoops_to [where f = "\<lambda>_. MesiState.Invalid"]) (auto simp: mesi_snoop_write_result)

lemma mesi_snoop_read_result:
  "s \<in> {MesiState.Exclusive, MesiState.Modified} \<Longrightarrow>
     snoop_result mesi_transition s MesiEvent.SnoopRead = Some MesiState.Shared"
  by (cases s) (simp_all add: snoop_result_def mesi_transition_def Let_def)

text \<open>The caches of a line the directory describes: one owner and nobody else, or sharers.\<close>

lemma mesil_shadow_cases:
  assumes "mesil_inv l" and sh: "\<And>a. mesi_shadows (mesil_states l a) (caches a)"
  obtains (shared) "mesil_owner l = None"
      "caches = (\<lambda>a. if a \<in> mesil_sharers l then MesiState.Shared else MesiState.Invalid)"
  | (owned) owner s t where "mesil_owner l = Some (owner, s)" "mesil_sharers l = {}"
      "caches = (\<lambda>a. if a = owner then t else MesiState.Invalid)" "mesi_shadows s t"
      "s \<in> {MesiState.Exclusive, MesiState.Modified}" "t \<in> {MesiState.Exclusive, MesiState.Modified}"
proof (cases "mesil_owner l")
  case None
  have "caches a = (if a \<in> mesil_sharers l then MesiState.Shared else MesiState.Invalid)" for a
    using sh [of a] None by (auto simp: mesi_shadows_def mesil_states_def split: if_splits)
  then show ?thesis by (intro shared [OF None] ext)
next
  case (Some os)
  obtain owner s where os: "os = (owner, s)" by (cases os)
  have inv: "mesil_sharers l = {}" "s \<in> {MesiState.Exclusive, MesiState.Modified}"
    using Some os assms(1) by (auto simp: mesil_inv_def mesi_is_owned_def)
  have o: "mesi_shadows s (caches owner)"
    using sh [of owner] Some os by (simp add: mesil_states_def)
  have "caches a = MesiState.Invalid" if "a \<noteq> owner" for a
    using sh [of a] Some os inv(1) that by (simp add: mesi_shadows_def mesil_states_def)
  then have c: "caches = (\<lambda>a. if a = owner then caches owner else MesiState.Invalid)" by auto
  have t: "caches owner \<in> {MesiState.Exclusive, MesiState.Modified}"
    using o inv(2) by (auto simp: mesi_shadows_def)
  have "mesil_owner l = Some (owner, s)" using Some os by simp
  from owned [OF this inv(1) c o inv(2) t] show ?thesis .
qed

lemma mesi_requester_after_simps:
  "mesi_requester_after op (Some g) s = dg_state g"
  "mesi_requester_after NoAccess None s = s"
  "op \<in> {WriteClean, CleanShared} \<Longrightarrow> mesi_requester_after op None s = MesiState.Shared"
  "op \<in> {WritebackDirty, WritebackClean, CleanEvict, MemoryOperation.Invalidate} \<Longrightarrow>
     mesi_requester_after op None s = MesiState.Invalid"
  by (auto simp: mesi_requester_after_def)

lemmas mesi_follow_simps =
  mesi_requester_after_simps mesi_shadows_def mesil_states_def mesi_snoop_read_result
  mesi_snoop_write_result mesi_is_stable_def

text \<open>
  Running the snoops of a decision through the caches' protocol, and installing the grant, leaves
  the caches in the states the directory records; no snoop is refused.
\<close>

lemma mesi_line_follows_protocol:
  assumes "mesil_inv l" and step: "mesi_accept_operation line request op l = Inr (l', snoops, grant)"
    and sh: "\<And>a. mesi_shadows (mesil_states l a) (caches a)"
  shows "\<exists>caches'. apply_snoops (snoop_result mesi_transition) caches snoops = Some caches' \<and>
    (\<forall>a. mesi_shadows (mesil_states l' a)
      ((caches'(rid_agent request := mesi_requester_after op grant (caches' (rid_agent request)))) a))"
  using assms(1) sh
proof (cases rule: mesil_shadow_cases)
  case shared
  have fin: "finite (mesil_sharers l)" using assms(1) by (simp add: mesil_inv_def)
  have others: "apply_snoops (snoop_result mesi_transition) caches
      (snoops_to MesiEvent.SnoopWrite (others r (mesil_sharers l))) =
    Some (\<lambda>a. if a \<in> mesil_sharers l - {r} then MesiState.Invalid else caches a)" for r
    using fin by (rule mesi_snoop_others) (simp add: shared mesi_is_stable_def)
  from step show ?thesis
  proof (cases rule: mesi_accept_operation_cases)
    case read_shared
    from read_shared(2) show ?thesis
      by (auto simp: mesi_accept_read_shared_def shared mesi_follow_simps split: if_splits)
  next
    case read_unique
    from read_unique(3) show ?thesis
      by (auto simp: mesi_accept_read_unique_def shared(1) others [unfolded shared(2)] shared(2)
          mesi_follow_simps split: if_splits)
  next
    case upgrade
    from upgrade(2) show ?thesis
      by (auto simp: mesi_accept_upgrade_def shared(1) others [unfolded shared(2)] shared(2)
          mesi_follow_simps split: if_splits)
  next
    case write_clean
    from write_clean(2) mesi_requester_after_simps(3) [OF write_clean(1)] shared(1) show ?thesis
      by (auto simp: mesi_accept_write_clean_def shared(2) mesi_follow_simps split: if_splits)
  qed (auto simp: mesi_accept_defs shared mesi_follow_simps split: if_splits)
next
  case (owned owner s t)
  from step show ?thesis
  proof (cases rule: mesi_accept_operation_cases)
    case read_shared
    from read_shared(2) owned(4-6) show ?thesis
      by (auto simp: mesi_accept_read_shared_def owned(1-3) mesi_follow_simps split: if_splits)
  next
    case read_unique
    from read_unique(3) owned(4-6) show ?thesis
      by (auto simp: mesi_accept_read_unique_def owned(1-3) mesi_follow_simps split: if_splits)
  next
    case upgrade
    from upgrade(2) owned(4-6) show ?thesis
      by (auto simp: mesi_accept_upgrade_def owned(1-3) mesi_follow_simps split: if_splits)
  next
    case write_clean
    from write_clean(2) mesi_requester_after_simps(3) [OF write_clean(1)] show ?thesis
      by (auto simp: mesi_accept_write_clean_def owned(1-3) mesi_follow_simps split: if_splits)
  qed (use owned(4-6) in \<open>auto simp: mesi_accept_defs owned(1-3) mesi_follow_simps split: if_splits\<close>)
qed

text \<open>Where the directory tells the requester to take the data from.\<close>

lemma mesi_line_data_source:
  assumes "mesil_inv l" and "mesi_accept_operation line request op l = Inr (l', snoops, Some g)"
  shows "case dg_data_source g of
      OwnedCache owner \<Rightarrow> mesi_is_owned (mesil_states l owner) \<and> owner \<noteq> rid_agent request \<and>
        owner \<in> ds_target ` set snoops
    | BackingMemory \<Rightarrow> \<forall>a. \<not> mesi_is_owned (mesil_states l a)
    | NoData \<Rightarrow> mesi_is_valid (mesil_states l (rid_agent request))"
  using assms(2)
proof (cases rule: mesi_accept_operation_cases)
  case read_shared
  from read_shared(2) assms(1) show ?thesis
    by (auto simp: mesi_accept_read_shared_def mesil_states_def mesil_inv_def mesi_state_predicates
        split: if_splits option.splits)
next
  case read_unique
  from read_unique(3) assms(1) show ?thesis
    by (auto simp: mesi_accept_read_unique_def mesil_states_def mesil_inv_def mesi_state_predicates
        split: if_splits option.splits)
next
  case upgrade
  from upgrade(2) assms(1) show ?thesis
    by (auto simp: mesi_accept_upgrade_def mesil_states_def mesil_inv_def mesi_state_predicates
        split: if_splits option.splits)
qed (auto simp: mesi_accept_defs split: if_splits)

text \<open>The directory view of a line passes the protocol check.\<close>

lemma mesils_protocol_snapshot_caches:
  "ls_caches (mesils_protocol_snapshot ls) =
     (case mesils_owner ls of None \<Rightarrow> [] | Some (owner, s) \<Rightarrow> [(owner, s)]) @
     map (\<lambda>a. (a, MesiState.Shared)) (mesils_sharers ls)"
proof -
  have "ls_caches (foldl (\<lambda>snap sharer. mesi_with_cache snap sharer MesiState.Shared) snap xs) =
      ls_caches snap @ map (\<lambda>a. (a, MesiState.Shared)) xs" for snap xs
    by (induction xs arbitrary: snap) (simp_all add: mesi_with_cache_def)
  then show ?thesis
    by (simp add: mesils_protocol_snapshot_def Let_def mesi_snapshot_new_def mesi_with_cache_def
        split: option.splits prod.splits)
qed

lemma mesil_inv_validates:
  assumes "mesil_inv l"
  shows "mesi_validate (mesils_protocol_snapshot (mesil_snapshot l line)) = Inr ()"
  using assms
  by (auto simp: mesi_validate_swmr swmr_def mesils_protocol_snapshot_caches mesil_snapshot_fields
      mesil_inv_def sorted_wrt_map swmr_pair_def sorted_wrt_true split: option.splits)

section \<open>The directory with its caches\<close>

text \<open>
  A store that hits moves a copy without a request.  The permission of a copy is the one of the
  protocol theory.
\<close>

definition mesi_silent :: "MesiState \<Rightarrow> MesiState \<Rightarrow> bool" where
  "mesi_silent s t \<longleftrightarrow>
     snoop_result mesi_transition s MesiEvent.CpuWrite = Some t \<and> mesi_is_stable t"

abbreviation mesi_system :: "MesiDirectory \<Rightarrow> (address \<Rightarrow> agent_id \<Rightarrow> MesiState) \<Rightarrow> bool" where
  "mesi_system \<equiv> directory_system mesi_accept (snoop_result mesi_transition) mesi_requester_after
     mesi_silent MesiState.Invalid"

lemma mesi_silent_iff:
  "mesi_silent s t \<longleftrightarrow> s \<in> {MesiState.Exclusive, MesiState.Modified} \<and> t = MesiState.Modified"
  by (cases s) (auto simp: mesi_silent_def snoop_result_def mesi_transition_def Let_def
      mesi_state_predicates mesi_event_predicates)

interpretation mesi_coherent: coherent_directory mesi_accept mesi_accept_operation mesil_snapshot
  "\<lambda>d s. case mesi_restore_line_state d s of Inl _ \<Rightarrow> None | Inr d' \<Rightarrow> Some d'"
  mesil_default mesil_is_empty mesil_inv mesil_states mesi_shadows "snoop_result mesi_transition"
  mesi_requester_after mesi_silent MesiState.Invalid "\<lambda>s. held (mesi_perm_of s)"
proof unfold_locales
  show "mesi_shadows (mesil_states mesil_default a) MesiState.Invalid" for a
    by (simp add: mesi_shadows_def mesil_states_def mesil_default_def)
  show "mesi_shadows s u" if "mesi_shadows s t" "mesi_silent t u" for s t u
    using that by (auto simp: mesi_silent_iff mesi_shadows_def)
  show "held (mesi_perm_of (copies b)) = NoPerm"
    if "mesil_inv l" "\<And>a. mesi_shadows (mesil_states l a) (copies a)" "a \<noteq> b"
      "held (mesi_perm_of (copies a)) = WritePerm" for l copies a b
    using that(1,2) by (cases rule: mesil_shadow_cases) (use that(3,4) in \<open>auto split: if_splits\<close>)
qed (rule mesi_line_follows_protocol)

lemmas mesi_eval_simps =
  serve_request_def mesi_accept_def mesi_accept_operation_def mesi_accept_read_shared_def
  mesi_accept_read_unique_def mesil_default_def mesil_is_empty_def directory_empty_def Let_def
  mesi_requester_after_def mesi_snoop_read_result mesi_is_stable_def

section \<open>Properties\<close>





text \<open>
  C13. Independence of lines.  In every reachable MESI directory, two accepted requests to
  different lines may be served in either order: the decisions and the resulting directory are the
  same.
\<close>

theorem mesi_requests_commute:
  assumes "mesi_system d caches" and "rq_line_address r \<noteq> rq_line_address s"
    and "mesi_accept d r = Inr (dr, decr)" and "mesi_accept d s = Inr (ds, decs)"
  shows "\<exists>d'. mesi_accept dr s = Inr (d', decs) \<and> mesi_accept ds r = Inr (d', decr)"
  using mesi_coherent.system_shadows [OF assms(1)] assms(2-4) by (blast intro: mesi_dir.accept_commute)

theorem mesi_requests_commute_witness:
  "\<exists>s dr decr ds decs d'.
     rq_line_address s \<noteq> rq_line_address (example_request ReadShared 1) \<and>
     mesi_accept directory_empty (example_request ReadShared 1) = Inr (dr, decr) \<and>
     mesi_accept directory_empty s = Inr (ds, decs) \<and>
     mesi_accept dr s = Inr (d', decs) \<and> mesi_accept ds (example_request ReadShared 1) = Inr (d', decr)"
proof -
  let ?s = "(example_request ReadShared 2)\<lparr>rq_range := \<lparr>range_start = 64, range_size = 8, range_end = 72\<rparr>\<rparr>"
  have ne: "rq_line_address (example_request ReadShared 1) \<noteq> rq_line_address ?s"
    by (simp add: example_request_def fresh_request_def rq_line_address_def line_address_def)
  moreover obtain dr decr where r: "mesi_accept directory_empty (example_request ReadShared 1) = Inr (dr, decr)"
    by (simp add: mesi_eval_simps)
  moreover obtain ds decs where s: "mesi_accept directory_empty ?s = Inr (ds, decs)"
    by (simp add: mesi_eval_simps)
  moreover note mesi_requests_commute [OF directory_system.start ne r s]
  ultimately show ?thesis by metis
qed

end
