(* ===== verification/Directory_Moesi.thy ===== *)
theory Directory_Moesi
  imports Line_Directory Protocol_Moesi
begin

text \<open>
  The MOESI directory of \<^verbatim>\<open>crates/rem6-directory/src/moesi.rs\<close>: line states with the
  owner's protocol state, the operation per request kind, \<open>accept\<close>, and restoring a saved line.
\<close>

section \<open>Data\<close>

datatype MoesiDirectoryDataSource = BackingMemory | OwnerCache agent_id | NoData

type_synonym MoesiDirectoryGrant = "(MoesiState, MoesiDirectoryDataSource) directory_grant"
type_synonym MoesiDirectorySnoop = "MoesiEvent directory_snoop"

record MoesiDirectoryLineState =
  moesils_line :: address
  moesils_owner :: "(agent_id \<times> MoesiState) option"
  moesils_sharers :: "agent_id list"

definition moesils_new :: "address \<Rightarrow> MoesiDirectoryLineState" where
  "moesils_new line = \<lparr>moesils_line = line, moesils_owner = None, moesils_sharers = []\<rparr>"

definition moesils_with_owner ::
  "MoesiDirectoryLineState \<Rightarrow> agent_id \<Rightarrow> MoesiState \<Rightarrow> MoesiDirectoryLineState" where
  "moesils_with_owner ls owner s =
     (let ls = ls\<lparr>moesils_owner := Some (owner, s)\<rparr>
      in if s \<noteq> MoesiState.Owned then ls\<lparr>moesils_sharers := []\<rparr> else ls)"

definition moesils_with_sharer :: "MoesiDirectoryLineState \<Rightarrow> agent_id \<Rightarrow> MoesiDirectoryLineState" where
  "moesils_with_sharer ls sharer = ls\<lparr>moesils_sharers := push_sharer (moesils_sharers ls) sharer\<rparr>"

definition moesils_protocol_snapshot :: "MoesiDirectoryLineState \<Rightarrow> MoesiDirectoryLineSnapshot" where
  "moesils_protocol_snapshot ls =
    (let snap = moesi_snapshot_new (moesils_line ls);
         snap = (case moesils_owner ls of
                   None \<Rightarrow> snap | Some (owner, s) \<Rightarrow> moesi_with_cache snap owner s)
     in foldl (\<lambda>snap sharer. moesi_with_cache snap sharer MoesiState.Shared) snap (moesils_sharers ls))"

type_synonym MoesiDirectoryDecision =
  "(MoesiDirectoryLineState, MoesiEvent, MoesiState, MoesiDirectoryDataSource) directory_decision"

datatype MoesiDirectoryError =
    UpgradeRequesterNotSharer address agent_id
  | InvalidSnapshotOwnerState address MoesiState
  | WritebackFromNonOwner address agent_id "agent_id option"
  | EvictFromNonHolder address agent_id

record MoesiStoredLine =
  moesil_owner :: "(agent_id \<times> MoesiState) option"
  moesil_sharers :: "agent_id set"

definition moesil_default :: MoesiStoredLine where
  "moesil_default = \<lparr>moesil_owner = None, moesil_sharers = {}\<rparr>"

definition moesil_is_empty :: "MoesiStoredLine \<Rightarrow> bool" where
  "moesil_is_empty l \<longleftrightarrow> moesil_owner l = None \<and> moesil_sharers l = {}"

definition moesil_from_snapshot :: "MoesiDirectoryLineState \<Rightarrow> MoesiDirectoryError + MoesiStoredLine" where
  "moesil_from_snapshot ls =
    (case moesils_owner ls of
       Some (owner, s) \<Rightarrow>
         if \<not> (s \<in> {MoesiState.Exclusive, MoesiState.Owned, MoesiState.Modified}) then Inl (InvalidSnapshotOwnerState (moesils_line ls) s)
         else Inr \<lparr>moesil_owner = moesils_owner ls, moesil_sharers = set (moesils_sharers ls)\<rparr>
     | None \<Rightarrow> Inr \<lparr>moesil_owner = moesils_owner ls, moesil_sharers = set (moesils_sharers ls)\<rparr>)"

definition moesil_snapshot :: "MoesiStoredLine \<Rightarrow> address \<Rightarrow> MoesiDirectoryLineState" where
  "moesil_snapshot l line =
    (let ls = moesils_new line;
         ls = (case moesil_owner l of None \<Rightarrow> ls | Some (owner, s) \<Rightarrow> moesils_with_owner ls owner s)
     in foldl moesils_with_sharer ls (sorted_list_of_set (moesil_sharers l)))"

type_synonym MoesiDirectory = "MoesiStoredLine directory"

section \<open>Operations of a line\<close>

type_synonym moesi_outcome =
  "MoesiStoredLine \<times> MoesiDirectorySnoop list \<times> MoesiDirectoryGrant option"

abbreviation moesi_grant ::
  "request_id \<Rightarrow> address \<Rightarrow> MoesiState \<Rightarrow> MoesiDirectoryDataSource \<Rightarrow> MoesiDirectoryGrant option" where
  "moesi_grant request line s src \<equiv>
     Some \<lparr>dg_request = request, dg_line = line, dg_state = s, dg_data_source = src\<rparr>"

abbreviation moesil_owned_by :: "MoesiStoredLine \<Rightarrow> agent_id \<Rightarrow> bool" where
  "moesil_owned_by l a \<equiv> map_option fst (moesil_owner l) = Some a"

definition moesi_accept_read_shared ::
  "address \<Rightarrow> request_id \<Rightarrow> agent_id \<Rightarrow> MoesiStoredLine \<Rightarrow> moesi_outcome" where
  "moesi_accept_read_shared line request requester l =
    (case moesil_owner l of
       Some (owner, owner_state) \<Rightarrow>
         if owner = requester then (l, [], moesi_grant request line owner_state NoData)
         else
           let (owner_after, sharers) =
             (if owner_state \<in> {MoesiState.Modified, MoesiState.Owned}
              then (Some (owner, MoesiState.Owned), moesil_sharers l)
              else if owner_state = MoesiState.Exclusive then (None, insert owner (moesil_sharers l))
              else (None, moesil_sharers l))
           in (l\<lparr>moesil_owner := owner_after, moesil_sharers := insert requester sharers\<rparr>,
               [\<lparr>ds_target = owner, ds_event = MoesiEvent.SnoopRead\<rparr>],
               moesi_grant request line MoesiState.Shared (OwnerCache owner))
     | None \<Rightarrow>
         if moesil_sharers l = {} then
           (l\<lparr>moesil_owner := Some (requester, MoesiState.Exclusive)\<rparr>, [],
            moesi_grant request line MoesiState.Exclusive BackingMemory)
         else
           (l\<lparr>moesil_sharers := insert requester (moesil_sharers l)\<rparr>, [],
            moesi_grant request line MoesiState.Shared
              (if requester \<in> moesil_sharers l then NoData else BackingMemory)))"

definition moesi_accept_read_unique ::
  "address \<Rightarrow> request_id \<Rightarrow> agent_id \<Rightarrow> MoesiStoredLine \<Rightarrow> moesi_outcome" where
  "moesi_accept_read_unique line request requester l =
    (let (owner_snoops, data_source) =
       (case moesil_owner l of
          Some (owner, _) \<Rightarrow>
            if owner = requester then ([], NoData)
            else ([\<lparr>ds_target = owner, ds_event = MoesiEvent.SnoopWrite\<rparr>], OwnerCache owner)
        | None \<Rightarrow> if requester \<in> moesil_sharers l then ([], NoData) else ([], BackingMemory));
       snoops = owner_snoops @ snoops_to MoesiEvent.SnoopWrite (others requester (moesil_sharers l))
     in (l\<lparr>moesil_owner := Some (requester, MoesiState.Modified), moesil_sharers := {}\<rparr>, snoops,
         moesi_grant request line MoesiState.Modified data_source))"

definition moesi_accept_upgrade ::
  "address \<Rightarrow> request_id \<Rightarrow> agent_id \<Rightarrow> MoesiStoredLine \<Rightarrow> MoesiDirectoryError + moesi_outcome" where
  "moesi_accept_upgrade line request requester l =
    (if moesil_owned_by l requester then
       Inr (l\<lparr>moesil_owner := Some (requester, MoesiState.Modified)\<rparr>, [],
            moesi_grant request line MoesiState.Modified NoData)
     else if requester \<notin> moesil_sharers l then Inl (UpgradeRequesterNotSharer line requester)
     else
       let (owner_snoops, data_source) =
         (case moesil_owner l of
            Some (owner, _) \<Rightarrow>
              ([\<lparr>ds_target = owner, ds_event = MoesiEvent.SnoopWrite\<rparr>], OwnerCache owner)
          | None \<Rightarrow> ([], NoData))
       in Inr (l\<lparr>moesil_owner := Some (requester, MoesiState.Modified), moesil_sharers := {}\<rparr>,
               owner_snoops @ snoops_to MoesiEvent.SnoopWrite (others requester (moesil_sharers l)),
               moesi_grant request line MoesiState.Modified data_source))"

definition moesi_accept_dirty_writeback ::
  "address \<Rightarrow> agent_id \<Rightarrow> MoesiStoredLine \<Rightarrow> MoesiDirectoryError + moesi_outcome" where
  "moesi_accept_dirty_writeback line requester l =
    (if \<not> moesil_owned_by l requester
     then Inl (WritebackFromNonOwner line requester (map_option fst (moesil_owner l)))
     else Inr (l\<lparr>moesil_owner := None\<rparr>, [], None))"

definition moesi_accept_write_clean ::
  "address \<Rightarrow> agent_id \<Rightarrow> MoesiStoredLine \<Rightarrow> MoesiDirectoryError + moesi_outcome" where
  "moesi_accept_write_clean line requester l =
    (if moesil_owned_by l requester then
       Inr (l\<lparr>moesil_owner := None, moesil_sharers := insert requester (moesil_sharers l)\<rparr>, [], None)
     else if requester \<in> moesil_sharers l then Inr (l, [], None)
     else Inl (EvictFromNonHolder line requester))"

definition moesi_accept_clean_departure ::
  "address \<Rightarrow> agent_id \<Rightarrow> MoesiStoredLine \<Rightarrow> MoesiDirectoryError + moesi_outcome" where
  "moesi_accept_clean_departure line requester l =
    (if moesil_owned_by l requester then Inr (l\<lparr>moesil_owner := None\<rparr>, [], None)
     else if requester \<in> moesil_sharers l then
       Inr (l\<lparr>moesil_sharers := moesil_sharers l - {requester}\<rparr>, [], None)
     else Inl (EvictFromNonHolder line requester))"

text \<open>The match of \<open>accept\<close> on the operation.\<close>

definition moesi_accept_operation ::
  "address \<Rightarrow> request_id \<Rightarrow> MemoryOperation \<Rightarrow> MoesiStoredLine \<Rightarrow> MoesiDirectoryError + moesi_outcome" where
  "moesi_accept_operation line request op l =
    (let requester = rid_agent request in
     case op of
       NoAccess \<Rightarrow> Inr (l, [], None)
     | InstructionFetch \<Rightarrow> Inr (moesi_accept_read_shared line request requester l)
     | ReadShared \<Rightarrow> Inr (moesi_accept_read_shared line request requester l)
     | LoadLocked \<Rightarrow> Inr (moesi_accept_read_shared line request requester l)
     | PrefetchRead \<Rightarrow> Inr (moesi_accept_read_shared line request requester l)
     | ReadUnique \<Rightarrow> Inr (moesi_accept_read_unique line request requester l)
     | LockedRmwRead \<Rightarrow> Inr (moesi_accept_read_unique line request requester l)
     | StoreConditionalUpgradeFail \<Rightarrow> Inr (moesi_accept_read_unique line request requester l)
     | Write \<Rightarrow> Inr (moesi_accept_read_unique line request requester l)
     | CacheBlockZero \<Rightarrow> Inr (moesi_accept_read_unique line request requester l)
     | StoreConditional \<Rightarrow> Inr (moesi_accept_read_unique line request requester l)
     | StoreConditionalFail \<Rightarrow> Inr (moesi_accept_read_unique line request requester l)
     | LockedRmwWrite \<Rightarrow> Inr (moesi_accept_read_unique line request requester l)
     | Atomic \<Rightarrow> Inr (moesi_accept_read_unique line request requester l)
     | AtomicNoReturn \<Rightarrow> Inr (moesi_accept_read_unique line request requester l)
     | PrefetchWrite \<Rightarrow> Inr (moesi_accept_read_unique line request requester l)
     | InvalidateWritable \<Rightarrow> Inr (moesi_accept_read_unique line request requester l)
     | StoreConditionalUpgrade \<Rightarrow> moesi_accept_upgrade line request requester l
     | Upgrade \<Rightarrow> moesi_accept_upgrade line request requester l
     | WritebackDirty \<Rightarrow> moesi_accept_dirty_writeback line requester l
     | WriteClean \<Rightarrow> moesi_accept_write_clean line requester l
     | CleanShared \<Rightarrow> moesi_accept_write_clean line requester l
     | WritebackClean \<Rightarrow> moesi_accept_clean_departure line requester l
     | CleanEvict \<Rightarrow> moesi_accept_clean_departure line requester l
     | MemoryOperation.Invalidate \<Rightarrow> moesi_accept_clean_departure line requester l)"

section \<open>The directory\<close>

definition moesi_line_state :: "MoesiDirectory \<Rightarrow> address \<Rightarrow> MoesiDirectoryLineState" where
  "moesi_line_state d line =
     (case dir_lines d line of None \<Rightarrow> moesils_new line | Some l \<Rightarrow> moesil_snapshot l line)"

definition moesi_restore_line_state ::
  "MoesiDirectory \<Rightarrow> MoesiDirectoryLineState \<Rightarrow> MoesiDirectoryError + MoesiDirectory" where
  "moesi_restore_line_state d snap =
    (let line = moesils_line snap in
     res_bind (moesil_from_snapshot snap) (\<lambda>stored.
       Inr (if moesil_is_empty stored then d\<lparr>dir_lines := (dir_lines d)(line := None)\<rparr>
            else d\<lparr>dir_lines := (dir_lines d)(line \<mapsto> stored)\<rparr>)))"

definition moesi_accept ::
  "MoesiDirectory \<Rightarrow> memory_request \<Rightarrow> MoesiDirectoryError + MoesiDirectory \<times> MoesiDirectoryDecision" where
  "moesi_accept d request =
    (let line = rq_line_address request;
         request_id = rq_id request;
         before_line = (case dir_lines d line of None \<Rightarrow> moesil_default | Some l \<Rightarrow> l);
         before = moesil_snapshot before_line line
     in res_bind (moesi_accept_operation line request_id (rq_operation request) before_line)
       (\<lambda>(after_line, snoops, grant).
         let after = moesil_snapshot after_line line;
             d' = (if moesil_is_empty after_line then d\<lparr>dir_lines := (dir_lines d)(line := None)\<rparr>
                   else d\<lparr>dir_lines := (dir_lines d)(line \<mapsto> after_line)\<rparr>)
         in Inr (d', \<lparr>dd_line = line, dd_request = request_id, dd_before = before,
                      dd_after = after, dd_snoops = snoops, dd_grant = grant\<rparr>)))"

section \<open>The directory contract\<close>

text \<open>
  The structural invariant every operation keeps: the owner's state is an owner state and the
  owner is not also listed as a sharer.  That a private owner excludes sharers is not part of
  it; \<open>moesil_coherent\<close> below adds it.
\<close>

definition moesil_inv :: "MoesiStoredLine \<Rightarrow> bool" where
  "moesil_inv l \<longleftrightarrow> finite (moesil_sharers l) \<and>
     (\<forall>a s. moesil_owner l = Some (a, s) \<longrightarrow>
        s \<in> {MoesiState.Exclusive, MoesiState.Owned, MoesiState.Modified} \<and> a \<notin> moesil_sharers l)"

lemmas moesi_accept_defs =
  moesi_accept_read_shared_def moesi_accept_read_unique_def moesi_accept_upgrade_def
  moesi_accept_dirty_writeback_def moesi_accept_write_clean_def moesi_accept_clean_departure_def

text \<open>The six line operations and the requests that reach them.\<close>

lemma moesi_accept_operation_cases:
  assumes "moesi_accept_operation line request op l = Inr out"
  obtains (no_access) "op = NoAccess" "out = (l, [], None)"
  | (read_shared) "op \<in> {InstructionFetch, ReadShared, LoadLocked, PrefetchRead}"
      "out = moesi_accept_read_shared line request (rid_agent request) l"
  | (read_unique) "op_requires_writable op" "op \<notin> {StoreConditionalUpgrade, Upgrade}"
      "out = moesi_accept_read_unique line request (rid_agent request) l"
  | (upgrade) "op \<in> {StoreConditionalUpgrade, Upgrade}"
      "moesi_accept_upgrade line request (rid_agent request) l = Inr out"
  | (dirty_writeback) "op = WritebackDirty"
      "moesi_accept_dirty_writeback line (rid_agent request) l = Inr out"
  | (write_clean) "op \<in> {WriteClean, CleanShared}"
      "moesi_accept_write_clean line (rid_agent request) l = Inr out"
  | (clean_departure) "op \<in> {WritebackClean, CleanEvict, MemoryOperation.Invalidate}"
      "moesi_accept_clean_departure line (rid_agent request) l = Inr out"
  using assms
  by (cases op) (simp_all add: moesi_accept_operation_def Let_def op_requires_writable_def)

lemma moesil_snapshot_fields:
  "moesil_snapshot l line =
     \<lparr>moesils_line = line, moesils_owner = moesil_owner l, moesils_sharers = sorted_list_of_set (moesil_sharers l)\<rparr>"
proof -
  have "foldl moesils_with_sharer ls xs = ls\<lparr>moesils_sharers := foldl push_sharer (moesils_sharers ls) xs\<rparr>" for ls xs
    by (induction xs arbitrary: ls) (simp_all add: moesils_with_sharer_def)
  then show ?thesis
    by (simp add: moesil_snapshot_def moesils_new_def moesils_with_owner_def Let_def split: option.splits prod.splits)
qed

lemma moesil_inv_step:
  assumes "moesil_inv l" and "moesi_accept_operation line request op l = Inr (l', snoops, grant)"
  shows "moesil_inv l'"
  using assms(2)
  by (cases rule: moesi_accept_operation_cases)
     (use assms(1) in \<open>auto simp: moesil_inv_def moesi_accept_defs Let_def
        split: if_splits option.splits prod.splits MoesiState.splits\<close>)

lemma moesil_restore_snapshot:
  "moesil_inv l \<Longrightarrow>
     moesi_restore_line_state d (moesil_snapshot l line) = Inr (store_line moesil_is_empty d line l)"
  by (cases l) (auto simp: moesi_restore_line_state_def moesil_snapshot_fields moesil_from_snapshot_def
      store_line_def moesil_inv_def moesi_state_predicates split: option.splits)

interpretation moesi_dir: line_directory moesi_accept moesi_accept_operation moesil_snapshot
  "\<lambda>d s. case moesi_restore_line_state d s of Inl _ \<Rightarrow> None | Inr d' \<Rightarrow> Some d'"
  moesil_default moesil_is_empty moesil_inv
proof unfold_locales
  show "moesil_is_empty l \<longleftrightarrow> l = moesil_default" for l
    by (cases l) (simp add: moesil_is_empty_def moesil_default_def)
  show "moesil_inv moesil_default" by (simp add: moesil_inv_def moesil_default_def)
qed (auto simp: moesi_accept_def Let_def lookup_line_def store_line_def moesil_inv_step moesil_restore_snapshot
      split: option.splits)

section \<open>The directory follows the protocol\<close>

text \<open>The state the directory records for each cache.\<close>

definition moesil_states :: "MoesiStoredLine \<Rightarrow> agent_id \<Rightarrow> MoesiState" where
  "moesil_states l a =
     (case moesil_owner l of
        Some (owner, s) \<Rightarrow>
          if a = owner then s else if a \<in> moesil_sharers l then MoesiState.Shared else MoesiState.Invalid
      | None \<Rightarrow> if a \<in> moesil_sharers l then MoesiState.Shared else MoesiState.Invalid)"

text \<open>What the requester does to its own copy: it installs the grant, or it leaves.\<close>

definition moesi_requester_after ::
  "MemoryOperation \<Rightarrow> MoesiDirectoryGrant option \<Rightarrow> MoesiState \<Rightarrow> MoesiState" where
  "moesi_requester_after op grant s =
     (case grant of
        Some g \<Rightarrow> dg_state g
      | None \<Rightarrow> if op = NoAccess then s
                else if op \<in> {WriteClean, CleanShared} then MoesiState.Shared
                else MoesiState.Invalid)"

lemma moesi_snoop_write_result:
  "moesi_is_stable s \<Longrightarrow> snoop_result moesi_transition s MoesiEvent.SnoopWrite = Some MoesiState.Invalid"
  by (cases s) (simp_all add: snoop_result_def moesi_transition_def Let_def moesi_is_stable_def)

lemma moesi_snoop_others:
  assumes "finite S" and "\<And>a. moesi_is_stable (caches a)"
  shows "apply_snoops (snoop_result moesi_transition) caches
      (snoops_to MoesiEvent.SnoopWrite (others r S)) =
    Some (\<lambda>a. if a \<in> S - {r} then MoesiState.Invalid else caches a)"
  using assms
  by (subst apply_snoops_to [where f = "\<lambda>_. MoesiState.Invalid"]) (auto simp: moesi_snoop_write_result)

lemma moesi_snoop_read_result:
  "snoop_result moesi_transition MoesiState.Exclusive MoesiEvent.SnoopRead = Some MoesiState.Shared"
  "snoop_result moesi_transition MoesiState.Owned MoesiEvent.SnoopRead = Some MoesiState.Owned"
  "snoop_result moesi_transition MoesiState.Modified MoesiEvent.SnoopRead = Some MoesiState.Owned"
  by (simp_all add: snoop_result_def moesi_transition_def Let_def)

lemma moesi_requester_after_simps:
  "moesi_requester_after op (Some g) s = dg_state g"
  "moesi_requester_after NoAccess None s = s"
  "op \<in> {WriteClean, CleanShared} \<Longrightarrow> moesi_requester_after op None s = MoesiState.Shared"
  "op \<in> {WritebackDirty, WritebackClean, CleanEvict, MemoryOperation.Invalidate} \<Longrightarrow>
     moesi_requester_after op None s = MoesiState.Invalid"
  by (auto simp: moesi_requester_after_def)

lemma moesil_states_stable: "moesil_inv l \<Longrightarrow> moesi_is_stable (moesil_states l a)"
  by (auto simp: moesil_states_def moesil_inv_def moesi_is_stable_def split: option.splits)

lemmas moesi_follow_simps =
  moesi_requester_after_simps moesil_states_def moesi_snoop_read_result moesi_snoop_write_result
  moesi_is_stable_def

text \<open>
  If the recorded states are the real ones, running the snoops of a decision through the caches'
  protocol and installing the grant gives the states the directory records next.
\<close>

lemma moesi_line_follows_protocol:
  assumes inv: "moesil_inv l"
    and step: "moesi_accept_operation line request op l = Inr (l', snoops, grant)"
  shows "map_option (\<lambda>caches. caches(rid_agent request :=
        moesi_requester_after op grant (caches (rid_agent request))))
      (apply_snoops (snoop_result moesi_transition) (moesil_states l) snoops) = Some (moesil_states l')"
proof -
  have fin: "finite (moesil_sharers l)" using inv by (simp add: moesil_inv_def)
  have others: "apply_snoops (snoop_result moesi_transition) (moesil_states l)
      (snoops_to MoesiEvent.SnoopWrite (others r (moesil_sharers l))) =
    Some (\<lambda>a. if a \<in> moesil_sharers l - {r} then MoesiState.Invalid else moesil_states l a)" for r
    using fin by (rule moesi_snoop_others) (rule moesil_states_stable [OF inv])
  have others': "apply_snoops (snoop_result moesi_transition) ((moesil_states l)(o' := MoesiState.Invalid))
      (snoops_to MoesiEvent.SnoopWrite (others r (moesil_sharers l))) =
    Some (\<lambda>a. if a \<in> moesil_sharers l - {r} then MoesiState.Invalid
              else ((moesil_states l)(o' := MoesiState.Invalid)) a)" for r o'
    using fin by (rule moesi_snoop_others)
      (use moesil_states_stable [OF inv] in \<open>auto simp: moesi_is_stable_def\<close>)
  have swr: "snoop_result moesi_transition (moesil_states l a) MoesiEvent.SnoopWrite =
      Some MoesiState.Invalid" for a
    by (rule moesi_snoop_write_result) (rule moesil_states_stable [OF inv])
  from step show ?thesis
  proof (cases rule: moesi_accept_operation_cases)
    case read_shared
    from read_shared(2) inv show ?thesis
      by (cases "moesil_owner l")
         (auto simp: moesi_accept_read_shared_def moesil_inv_def moesi_follow_simps fun_eq_iff
           iff del: map_option_eq_Some split: if_splits)
  next
    case read_unique
    from read_unique(3) inv show ?thesis
      by (cases "moesil_owner l")
         (auto simp: moesi_accept_read_unique_def moesil_inv_def others others' swr
           moesi_requester_after_simps fun_eq_iff iff del: map_option_eq_Some
           intro!: arg_cong [where f = Some] split: if_splits, auto simp: moesil_states_def)
  next
    case upgrade
    from upgrade(2) inv show ?thesis
      by (cases "moesil_owner l")
         (auto simp: moesi_accept_upgrade_def moesil_inv_def others others' swr
           moesi_requester_after_simps fun_eq_iff iff del: map_option_eq_Some
           split: if_splits, auto simp: moesil_states_def)
  next
    case write_clean
    from write_clean(2) inv moesi_requester_after_simps(3) [OF write_clean(1)] show ?thesis
      by (auto simp: moesi_accept_write_clean_def moesil_inv_def moesi_follow_simps fun_eq_iff
          iff del: map_option_eq_Some split: if_splits option.splits)
  next
    case clean_departure
    then have "op \<in> {WritebackDirty, WritebackClean, CleanEvict, MemoryOperation.Invalidate}" by auto
    from clean_departure(2) inv moesi_requester_after_simps(4) [OF this] show ?thesis
      by (auto simp: moesi_accept_clean_departure_def moesil_inv_def moesi_follow_simps fun_eq_iff
          iff del: map_option_eq_Some split: if_splits option.splits)
  qed (use inv in \<open>auto simp: moesi_accept_defs moesil_inv_def moesi_follow_simps fun_eq_iff
        iff del: map_option_eq_Some split: if_splits option.splits\<close>)
qed

text \<open>
  A line is coherent when a private owner excludes sharers.  Exactly one kind of step loses
  this: an upgrade by the owner itself while it is in the Owned state and there are sharers.
\<close>

definition moesil_coherent :: "MoesiStoredLine \<Rightarrow> bool" where
  "moesil_coherent l \<longleftrightarrow> moesil_inv l \<and>
     (\<forall>a s. moesil_owner l = Some (a, s) \<and> s \<noteq> MoesiState.Owned \<longrightarrow> moesil_sharers l = {})"

definition moesi_owned_upgrade :: "agent_id \<Rightarrow> MemoryOperation \<Rightarrow> MoesiStoredLine \<Rightarrow> bool" where
  "moesi_owned_upgrade requester op l \<longleftrightarrow>
     op \<in> {StoreConditionalUpgrade, Upgrade} \<and>
     moesil_owner l = Some (requester, MoesiState.Owned) \<and> moesil_sharers l \<noteq> {}"

lemma moesi_coherent_step_iff:
  assumes "moesil_coherent l"
    and step: "moesi_accept_operation line request op l = Inr (l', snoops, grant)"
  shows "moesil_coherent l' \<longleftrightarrow> \<not> moesi_owned_upgrade (rid_agent request) op l"
proof -
  have inv: "moesil_inv l'"
    using assms moesil_inv_step by (auto simp: moesil_coherent_def)
  from step show ?thesis
  proof (cases rule: moesi_accept_operation_cases)
    case upgrade
    from upgrade(2) inv assms(1) show ?thesis
      using upgrade(1)
      by (cases "moesil_owner l")
         (auto simp: moesi_accept_upgrade_def moesil_coherent_def moesi_owned_upgrade_def
           split: if_splits)
  next
    case read_shared
    then have "\<not> moesi_owned_upgrade (rid_agent request) op l"
      by (auto simp: moesi_owned_upgrade_def)
    with read_shared(2) inv assms(1) show ?thesis
      by (auto simp: moesi_accept_read_shared_def moesil_coherent_def moesil_inv_def
          split: if_splits option.splits)
  next
    case read_unique
    then have "\<not> moesi_owned_upgrade (rid_agent request) op l"
      by (auto simp: moesi_owned_upgrade_def)
    with read_unique(3) inv assms(1) show ?thesis
      by (auto simp: moesi_accept_read_unique_def moesil_coherent_def split: if_splits option.splits)
  next
    case write_clean
    then have "\<not> moesi_owned_upgrade (rid_agent request) op l"
      by (auto simp: moesi_owned_upgrade_def)
    with write_clean(2) inv assms(1) show ?thesis
      by (auto simp: moesi_accept_write_clean_def moesil_coherent_def split: if_splits)
  next
    case clean_departure
    then have "\<not> moesi_owned_upgrade (rid_agent request) op l"
      by (auto simp: moesi_owned_upgrade_def)
    with clean_departure(2) inv assms(1) show ?thesis
      by (auto simp: moesi_accept_clean_departure_def moesil_coherent_def split: if_splits)
  qed (use inv assms(1) in \<open>auto simp: moesi_accept_defs moesil_coherent_def moesi_owned_upgrade_def
        split: if_splits\<close>)
qed

lemmas moesi_eval_simps =
  serve_request_def moesi_accept_def moesi_accept_operation_def moesi_accept_read_shared_def
  moesi_accept_read_unique_def moesi_accept_upgrade_def moesil_default_def moesil_is_empty_def
  directory_empty_def Let_def moesi_requester_after_def moesi_snoop_read_result
  moesi_snoop_write_result moesi_state_predicates snoops_to_def others_def

section \<open>Properties\<close>

text \<open>
  C4. Which requests lose coherence in the MOESI directory.  From a line whose private owner
  excludes sharers, an accepted request leads to such a line again exactly when it is not an
  upgrade by an owner in the Owned state while there are sharers.
\<close>

theorem moesi_accept_coherent_iff:
  assumes "moesil_coherent (lookup_line moesil_default d (rq_line_address r))"
    and "moesi_accept d r = Inr (d', dec)"
  shows "moesil_coherent (lookup_line moesil_default d' (rq_line_address r)) \<longleftrightarrow>
    \<not> moesi_owned_upgrade (rid_agent (rq_id r)) (rq_operation r)
       (lookup_line moesil_default d (rq_line_address r))"
  using assms by (auto simp: moesi_dir.accept_Inr moesi_dir.view_store moesi_coherent_step_iff)

theorem moesi_accept_coherent_iff_witness:
  "\<exists>d' dec. moesi_accept directory_empty (example_request ReadUnique 1) = Inr (d', dec) \<and>
     moesil_coherent (lookup_line moesil_default d' 0)"
proof -
  obtain d' dec where acc: "moesi_accept directory_empty (example_request ReadUnique 1) = Inr (d', dec)"
    by (simp add: moesi_eval_simps)
  moreover have "moesil_coherent (lookup_line moesil_default directory_empty
      (rq_line_address (example_request ReadUnique 1)))"
    by (simp add: lookup_line_def directory_empty_def moesil_default_def moesil_coherent_def moesil_inv_def)
  ultimately show ?thesis
    using moesi_accept_coherent_iff [OF _ acc] by (simp add: moesi_owned_upgrade_def)
qed


end
