(* ===== verification/Directory_Chi.thy ===== *)
theory Directory_Chi
  imports Line_Directory Protocol_Chi "HOL-Library.AList"
begin

text \<open>
  The CHI directory of \<^verbatim>\<open>crates/rem6-directory/src/chi.rs\<close>: a unique owner or a map of
  sharers with their states, the operation per request kind, \<open>accept\<close>, evict hazards and
  restoring saved lines.
\<close>

section \<open>Data\<close>

datatype ChiDirectoryDataSource = BackingMemory | OwnerCache agent_id | NoData

type_synonym ChiDirectoryGrant = "(ChiState, ChiDirectoryDataSource) directory_grant"
type_synonym ChiDirectorySnoop = "ChiEvent directory_snoop"

record ChiDirectoryLineState =
  chils_line :: address
  chils_unique_owner :: "(agent_id \<times> ChiState) option"
  chils_sharers :: "(agent_id \<times> ChiState) list"

definition chils_new :: "address \<Rightarrow> ChiDirectoryLineState" where
  "chils_new line = \<lparr>chils_line = line, chils_unique_owner = None, chils_sharers = []\<rparr>"

definition chils_with_unique_owner ::
  "ChiDirectoryLineState \<Rightarrow> agent_id \<Rightarrow> ChiState \<Rightarrow> ChiDirectoryLineState" where
  "chils_with_unique_owner ls owner s =
     ls\<lparr>chils_unique_owner := Some (owner, s), chils_sharers := []\<rparr>"

definition chils_with_sharer ::
  "ChiDirectoryLineState \<Rightarrow> agent_id \<Rightarrow> ChiState \<Rightarrow> ChiDirectoryLineState" where
  "chils_with_sharer ls sharer s =
    (let ls = ls\<lparr>chils_unique_owner := None\<rparr> in
     if sharer \<in> fst ` set (chils_sharers ls)
     then ls\<lparr>chils_sharers := AList.update sharer s (chils_sharers ls)\<rparr>
     else ls\<lparr>chils_sharers := sort_key fst (chils_sharers ls @ [(sharer, s)])\<rparr>)"

definition chils_protocol_snapshot :: "ChiDirectoryLineState \<Rightarrow> ChiDirectoryLineSnapshot" where
  "chils_protocol_snapshot ls =
    (let snap = chi_snapshot_new (chils_line ls);
         snap = (case chils_unique_owner ls of
                   None \<Rightarrow> snap | Some (owner, s) \<Rightarrow> chi_with_cache snap owner s)
     in foldl (\<lambda>snap (sharer, s). chi_with_cache snap sharer s) snap (chils_sharers ls))"

type_synonym ChiDirectoryDecision =
  "(ChiDirectoryLineState, ChiEvent, ChiState, ChiDirectoryDataSource) directory_decision"

record ChiEvictHazard =
  eh_line :: address
  eh_requester :: agent_id
  eh_retained_state :: ChiDirectoryLineState

record ChiEvictHazardRestore = ChiEvictHazard +
  eh_current_state :: ChiDirectoryLineState
  eh_request_became_stale :: bool

datatype ChiDirectoryError =
    UpgradeRequesterNotSharer address agent_id
  | InvalidSnapshotOwnerState address ChiState
  | InvalidSnapshotSharerState address agent_id ChiState
  | InvalidSnapshotProtocol address ChiError
  | WritebackFromNonOwner address agent_id "agent_id option"
  | EvictFromNonHolder address agent_id

record ChiStoredLine =
  chil_unique_owner :: "(agent_id \<times> ChiState) option"
  chil_sharers :: "agent_id \<rightharpoonup> ChiState"

definition chil_default :: ChiStoredLine where
  "chil_default = \<lparr>chil_unique_owner = None, chil_sharers = Map.empty\<rparr>"

definition chil_is_empty :: "ChiStoredLine \<Rightarrow> bool" where
  "chil_is_empty l \<longleftrightarrow> chil_unique_owner l = None \<and> dom (chil_sharers l) = {}"

text \<open>The loop of \<open>from_snapshot\<close> over the saved sharers.\<close>

fun chil_collect_sharers ::
  "address \<Rightarrow> (agent_id \<rightharpoonup> ChiState) \<Rightarrow> (agent_id \<times> ChiState) list \<Rightarrow>
   ChiDirectoryError + (agent_id \<rightharpoonup> ChiState)" where
  "chil_collect_sharers line sharers [] = Inr sharers"
| "chil_collect_sharers line sharers ((sharer, s) # rest) =
     (if \<not> chi_is_stable s \<or> \<not> chi_is_shared s
      then Inl (InvalidSnapshotSharerState line sharer s)
      else chil_collect_sharers line (sharers(sharer \<mapsto> s)) rest)"

definition chil_finish :: "ChiDirectoryLineState \<Rightarrow> ChiDirectoryError + ChiStoredLine" where
  "chil_finish ls =
    res_bind (chil_collect_sharers (chils_line ls) Map.empty (chils_sharers ls)) (\<lambda>sharers.
    res_bind (map_err (InvalidSnapshotProtocol (chils_line ls))
                (chi_validate (chils_protocol_snapshot ls))) (\<lambda>_.
    Inr \<lparr>chil_unique_owner = chils_unique_owner ls, chil_sharers = sharers\<rparr>))"

definition chil_from_snapshot :: "ChiDirectoryLineState \<Rightarrow> ChiDirectoryError + ChiStoredLine" where
  "chil_from_snapshot ls =
    (case chils_unique_owner ls of
       Some (owner, s) \<Rightarrow>
         if \<not> chi_is_stable s \<or> \<not> chi_is_unique s
         then Inl (InvalidSnapshotOwnerState (chils_line ls) s)
         else chil_finish ls
     | None \<Rightarrow> chil_finish ls)"

definition chil_snapshot :: "ChiStoredLine \<Rightarrow> address \<Rightarrow> ChiDirectoryLineState" where
  "chil_snapshot l line =
    (let ls = chils_new line;
         ls = (case chil_unique_owner l of
                 None \<Rightarrow> ls | Some (owner, s) \<Rightarrow> chils_with_unique_owner ls owner s)
     in foldl (\<lambda>ls sharer. chils_with_sharer ls sharer (the (chil_sharers l sharer))) ls
          (sorted_list_of_set (dom (chil_sharers l))))"

definition chil_first_dirty_sharer_except :: "ChiStoredLine \<Rightarrow> agent_id option \<Rightarrow> agent_id option" where
  "chil_first_dirty_sharer_except l except =
     List.find (\<lambda>sharer. Some sharer \<noteq> except \<and> chi_is_dirty (the (chil_sharers l sharer)))
       (sorted_list_of_set (dom (chil_sharers l)))"

definition chil_dirty_holder :: "ChiStoredLine \<Rightarrow> agent_id option" where
  "chil_dirty_holder l =
    (case chil_unique_owner l of
       Some (owner, s) \<Rightarrow> if chi_is_dirty s then Some owner else chil_first_dirty_sharer_except l None
     | None \<Rightarrow> chil_first_dirty_sharer_except l None)"

abbreviation chil_owned_by :: "ChiStoredLine \<Rightarrow> agent_id \<Rightarrow> bool" where
  "chil_owned_by l a \<equiv> map_option fst (chil_unique_owner l) = Some a"

definition chil_contains_holder :: "ChiStoredLine \<Rightarrow> agent_id \<Rightarrow> bool" where
  "chil_contains_holder l requester \<longleftrightarrow>
     chil_owned_by l requester \<or> requester \<in> dom (chil_sharers l)"

type_synonym ChiDirectory = "ChiStoredLine directory"

section \<open>Operations of a line\<close>

type_synonym chi_outcome =
  "ChiStoredLine \<times> ChiDirectorySnoop list \<times> ChiDirectoryGrant option"

abbreviation chi_grant ::
  "request_id \<Rightarrow> address \<Rightarrow> ChiState \<Rightarrow> ChiDirectoryDataSource \<Rightarrow> ChiDirectoryGrant option" where
  "chi_grant request line s src \<equiv>
     Some \<lparr>dg_request = request, dg_line = line, dg_state = s, dg_data_source = src\<rparr>"

definition chi_accept_read_shared ::
  "address \<Rightarrow> request_id \<Rightarrow> agent_id \<Rightarrow> ChiStoredLine \<Rightarrow> chi_outcome" where
  "chi_accept_read_shared line request requester l =
    (case chil_unique_owner l of
       Some (owner, owner_state) \<Rightarrow>
         if owner = requester then (l, [], chi_grant request line owner_state NoData)
         else
           (l\<lparr>chil_unique_owner := None,
              chil_sharers := (chil_sharers l)(owner \<mapsto> ChiState.SharedClean,
                                               requester \<mapsto> ChiState.SharedClean)\<rparr>,
            [\<lparr>ds_target = owner, ds_event = ChiEvent.SnoopShared\<rparr>],
            chi_grant request line ChiState.SharedClean (OwnerCache owner))
     | None \<Rightarrow>
         (case chil_sharers l requester of
            Some requester_state \<Rightarrow> (l, [], chi_grant request line requester_state NoData)
          | None \<Rightarrow>
              let l' = l\<lparr>chil_sharers := (chil_sharers l)(requester \<mapsto> ChiState.SharedClean)\<rparr> in
              (case chil_first_dirty_sharer_except l (Some requester) of
                 Some source \<Rightarrow>
                   (l', [\<lparr>ds_target = source, ds_event = ChiEvent.SnoopShared\<rparr>],
                    chi_grant request line ChiState.SharedClean (OwnerCache source))
               | None \<Rightarrow> (l', [], chi_grant request line ChiState.SharedClean BackingMemory))))"

definition chi_accept_read_unique ::
  "address \<Rightarrow> request_id \<Rightarrow> agent_id \<Rightarrow> ChiStoredLine \<Rightarrow> chi_outcome" where
  "chi_accept_read_unique line request requester l =
    (let (owner_snoops, data_source) =
       (case chil_unique_owner l of
          Some (owner, _) \<Rightarrow>
            if owner = requester then ([], NoData)
            else ([\<lparr>ds_target = owner, ds_event = ChiEvent.SnoopUnique\<rparr>], OwnerCache owner)
        | None \<Rightarrow>
            (case chil_first_dirty_sharer_except l (Some requester) of
               Some owner \<Rightarrow> ([], OwnerCache owner)
             | None \<Rightarrow> if requester \<in> dom (chil_sharers l) then ([], NoData) else ([], BackingMemory)));
       snoops = owner_snoops @ snoops_to ChiEvent.SnoopUnique (others requester (dom (chil_sharers l)))
     in (l\<lparr>chil_unique_owner := Some (requester, ChiState.UniqueDirty), chil_sharers := Map.empty\<rparr>,
         snoops, chi_grant request line ChiState.UniqueDirty data_source))"

definition chi_accept_upgrade ::
  "address \<Rightarrow> request_id \<Rightarrow> agent_id \<Rightarrow> ChiStoredLine \<Rightarrow> ChiDirectoryError + chi_outcome" where
  "chi_accept_upgrade line request requester l =
    (if chil_owned_by l requester then
       Inr (l\<lparr>chil_unique_owner := Some (requester, ChiState.UniqueDirty)\<rparr>, [],
            chi_grant request line ChiState.UniqueDirty NoData)
     else if requester \<notin> dom (chil_sharers l) then Inl (UpgradeRequesterNotSharer line requester)
     else
       let data_source = (case chil_first_dirty_sharer_except l (Some requester) of
                            Some owner \<Rightarrow> OwnerCache owner | None \<Rightarrow> NoData)
       in Inr (l\<lparr>chil_unique_owner := Some (requester, ChiState.UniqueDirty), chil_sharers := Map.empty\<rparr>,
               snoops_to ChiEvent.SnoopUnique (others requester (dom (chil_sharers l))),
               chi_grant request line ChiState.UniqueDirty data_source))"

definition chi_accept_dirty_writeback ::
  "address \<Rightarrow> agent_id \<Rightarrow> ChiStoredLine \<Rightarrow> ChiDirectoryError + chi_outcome" where
  "chi_accept_dirty_writeback line requester l =
    (if chil_owned_by l requester then Inr (l\<lparr>chil_unique_owner := None\<rparr>, [], None)
     else if (case chil_sharers l requester of None \<Rightarrow> False | Some s \<Rightarrow> chi_is_dirty s)
     then Inr (l\<lparr>chil_sharers := (chil_sharers l)(requester := None)\<rparr>, [], None)
     else Inl (WritebackFromNonOwner line requester (chil_dirty_holder l)))"

definition chi_accept_write_clean ::
  "address \<Rightarrow> agent_id \<Rightarrow> ChiStoredLine \<Rightarrow> ChiDirectoryError + chi_outcome" where
  "chi_accept_write_clean line requester l =
    (if chil_owned_by l requester then
       Inr (l\<lparr>chil_unique_owner := None,
              chil_sharers := (chil_sharers l)(requester \<mapsto> ChiState.SharedClean)\<rparr>, [], None)
     else if requester \<in> dom (chil_sharers l) then
       Inr (l\<lparr>chil_sharers := (chil_sharers l)(requester \<mapsto> ChiState.SharedClean)\<rparr>, [], None)
     else Inl (EvictFromNonHolder line requester))"

definition chi_accept_clean_departure ::
  "address \<Rightarrow> agent_id \<Rightarrow> ChiStoredLine \<Rightarrow> ChiDirectoryError + chi_outcome" where
  "chi_accept_clean_departure line requester l =
    (if chil_owned_by l requester then Inr (l\<lparr>chil_unique_owner := None\<rparr>, [], None)
     else if requester \<in> dom (chil_sharers l) then
       Inr (l\<lparr>chil_sharers := (chil_sharers l)(requester := None)\<rparr>, [], None)
     else Inl (EvictFromNonHolder line requester))"

text \<open>The match of \<open>accept\<close> on the operation.\<close>

definition chi_accept_operation ::
  "address \<Rightarrow> request_id \<Rightarrow> MemoryOperation \<Rightarrow> ChiStoredLine \<Rightarrow> ChiDirectoryError + chi_outcome" where
  "chi_accept_operation line request op l =
    (let requester = rid_agent request in
     case op of
       NoAccess \<Rightarrow> Inr (l, [], None)
     | InstructionFetch \<Rightarrow> Inr (chi_accept_read_shared line request requester l)
     | ReadShared \<Rightarrow> Inr (chi_accept_read_shared line request requester l)
     | LoadLocked \<Rightarrow> Inr (chi_accept_read_shared line request requester l)
     | PrefetchRead \<Rightarrow> Inr (chi_accept_read_shared line request requester l)
     | ReadUnique \<Rightarrow> Inr (chi_accept_read_unique line request requester l)
     | LockedRmwRead \<Rightarrow> Inr (chi_accept_read_unique line request requester l)
     | StoreConditionalUpgradeFail \<Rightarrow> Inr (chi_accept_read_unique line request requester l)
     | Write \<Rightarrow> Inr (chi_accept_read_unique line request requester l)
     | CacheBlockZero \<Rightarrow> Inr (chi_accept_read_unique line request requester l)
     | StoreConditional \<Rightarrow> Inr (chi_accept_read_unique line request requester l)
     | StoreConditionalFail \<Rightarrow> Inr (chi_accept_read_unique line request requester l)
     | LockedRmwWrite \<Rightarrow> Inr (chi_accept_read_unique line request requester l)
     | Atomic \<Rightarrow> Inr (chi_accept_read_unique line request requester l)
     | AtomicNoReturn \<Rightarrow> Inr (chi_accept_read_unique line request requester l)
     | PrefetchWrite \<Rightarrow> Inr (chi_accept_read_unique line request requester l)
     | InvalidateWritable \<Rightarrow> Inr (chi_accept_read_unique line request requester l)
     | StoreConditionalUpgrade \<Rightarrow> chi_accept_upgrade line request requester l
     | Upgrade \<Rightarrow> chi_accept_upgrade line request requester l
     | WritebackDirty \<Rightarrow> chi_accept_dirty_writeback line requester l
     | WriteClean \<Rightarrow> chi_accept_write_clean line requester l
     | CleanShared \<Rightarrow> chi_accept_write_clean line requester l
     | WritebackClean \<Rightarrow> chi_accept_clean_departure line requester l
     | CleanEvict \<Rightarrow> chi_accept_clean_departure line requester l
     | MemoryOperation.Invalidate \<Rightarrow> chi_accept_clean_departure line requester l)"

section \<open>The directory\<close>

definition chi_line_state :: "ChiDirectory \<Rightarrow> address \<Rightarrow> ChiDirectoryLineState" where
  "chi_line_state d line =
     (case dir_lines d line of None \<Rightarrow> chils_new line | Some l \<Rightarrow> chil_snapshot l line)"

definition chi_line_addresses :: "ChiDirectory \<Rightarrow> address list" where
  "chi_line_addresses d = sorted_list_of_set (dom (dir_lines d))"

definition chi_line_states :: "ChiDirectory \<Rightarrow> ChiDirectoryLineState list" where
  "chi_line_states d =
     map (\<lambda>line. chil_snapshot (the (dir_lines d line)) line) (sorted_list_of_set (dom (dir_lines d)))"

definition chi_restore_line_state ::
  "ChiDirectory \<Rightarrow> ChiDirectoryLineState \<Rightarrow> ChiDirectoryError + ChiDirectory" where
  "chi_restore_line_state d snap =
    (let line = chils_line snap in
     res_bind (chil_from_snapshot snap) (\<lambda>stored.
       Inr (if chil_is_empty stored then d\<lparr>dir_lines := (dir_lines d)(line := None)\<rparr>
            else d\<lparr>dir_lines := (dir_lines d)(line \<mapsto> stored)\<rparr>)))"

definition chi_restore_line_states ::
  "ChiDirectory \<Rightarrow> ChiDirectoryLineState list \<Rightarrow> ChiDirectoryError + ChiDirectory" where
  "chi_restore_line_states d snaps =
    res_bind (res_foldl (\<lambda>restored snap.
        res_bind (chil_from_snapshot snap) (\<lambda>stored.
          Inr (if \<not> chil_is_empty stored then restored(chils_line snap \<mapsto> stored) else restored)))
      Map.empty snaps) (\<lambda>restored. Inr (d\<lparr>dir_lines := restored\<rparr>))"

definition chi_accept ::
  "ChiDirectory \<Rightarrow> memory_request \<Rightarrow> ChiDirectoryError + ChiDirectory \<times> ChiDirectoryDecision" where
  "chi_accept d request =
    (let line = rq_line_address request;
         request_id = rq_id request;
         before_line = (case dir_lines d line of None \<Rightarrow> chil_default | Some l \<Rightarrow> l);
         before = chil_snapshot before_line line
     in res_bind (chi_accept_operation line request_id (rq_operation request) before_line)
       (\<lambda>(after_line, snoops, grant).
         let after = chil_snapshot after_line line;
             d' = (if chil_is_empty after_line then d\<lparr>dir_lines := (dir_lines d)(line := None)\<rparr>
                   else d\<lparr>dir_lines := (dir_lines d)(line \<mapsto> after_line)\<rparr>)
         in Inr (d', \<lparr>dd_line = line, dd_request = request_id, dd_before = before,
                      dd_after = after, dd_snoops = snoops, dd_grant = grant\<rparr>)))"

definition chi_begin_evict_hazard ::
  "ChiDirectory \<Rightarrow> address \<Rightarrow> agent_id \<Rightarrow> ChiDirectoryError + ChiEvictHazard" where
  "chi_begin_evict_hazard d line requester =
    (let retained = (case dir_lines d line of None \<Rightarrow> chil_default | Some l \<Rightarrow> l) in
     if \<not> chil_contains_holder retained requester then Inl (EvictFromNonHolder line requester)
     else Inr \<lparr>eh_line = line, eh_requester = requester,
               eh_retained_state = chil_snapshot retained line\<rparr>)"

definition chi_restore_evict_hazard ::
  "ChiDirectory \<Rightarrow> ChiEvictHazard \<Rightarrow> ChiDirectoryError + ChiEvictHazardRestore" where
  "chi_restore_evict_hazard d hazard =
    (let current = (case dir_lines d (eh_line hazard) of None \<Rightarrow> chil_default | Some l \<Rightarrow> l) in
     Inr \<lparr>eh_line = eh_line hazard, eh_requester = eh_requester hazard,
          eh_retained_state = eh_retained_state hazard,
          eh_current_state = chil_snapshot current (eh_line hazard),
          eh_request_became_stale = (\<not> chil_contains_holder current (eh_requester hazard))\<rparr>)"

section \<open>The directory contract\<close>

text \<open>A line has one unique owner or shared copies, never both.\<close>

definition chil_inv :: "ChiStoredLine \<Rightarrow> bool" where
  "chil_inv l \<longleftrightarrow> finite (dom (chil_sharers l)) \<and>
     (\<forall>a s. chil_sharers l a = Some s \<longrightarrow> chi_is_shared s) \<and>
     (\<forall>a s. chil_unique_owner l = Some (a, s) \<longrightarrow> chi_is_unique s \<and> chil_sharers l = Map.empty)"

lemmas chi_accept_defs =
  chi_accept_read_shared_def chi_accept_read_unique_def chi_accept_upgrade_def
  chi_accept_dirty_writeback_def chi_accept_write_clean_def chi_accept_clean_departure_def

text \<open>The six line operations and the requests that reach them.\<close>

lemma chi_accept_operation_cases:
  assumes "chi_accept_operation line request op l = Inr out"
  obtains (no_access) "op = NoAccess" "out = (l, [], None)"
  | (read_shared) "op \<in> {InstructionFetch, ReadShared, LoadLocked, PrefetchRead}"
      "out = chi_accept_read_shared line request (rid_agent request) l"
  | (read_unique) "op_requires_writable op" "op \<notin> {StoreConditionalUpgrade, Upgrade}"
      "out = chi_accept_read_unique line request (rid_agent request) l"
  | (upgrade) "op \<in> {StoreConditionalUpgrade, Upgrade}"
      "chi_accept_upgrade line request (rid_agent request) l = Inr out"
  | (dirty_writeback) "op = WritebackDirty"
      "chi_accept_dirty_writeback line (rid_agent request) l = Inr out"
  | (write_clean) "op \<in> {WriteClean, CleanShared}"
      "chi_accept_write_clean line (rid_agent request) l = Inr out"
  | (clean_departure) "op \<in> {WritebackClean, CleanEvict, MemoryOperation.Invalidate}"
      "chi_accept_clean_departure line (rid_agent request) l = Inr out"
  using assms
  by (cases op) (simp_all add: chi_accept_operation_def Let_def op_requires_writable_def)

lemma foldl_chils_with_sharer:
  assumes "sorted_wrt (<) (map fst (chils_sharers ls) @ xs)" and "chils_unique_owner ls = None"
  shows "foldl (\<lambda>ls sharer. chils_with_sharer ls sharer (f sharer)) ls xs =
    ls\<lparr>chils_sharers := chils_sharers ls @ map (\<lambda>a. (a, f a)) xs\<rparr>"
  using assms
proof (induction xs arbitrary: ls)
  case (Cons x xs)
  have notin: "x \<notin> fst ` set (chils_sharers ls)" and "sorted (map fst (chils_sharers ls @ [(x, f x)]))"
    using Cons.prems(1) by (auto simp: sorted_wrt_append intro: strict_sorted_imp_sorted)
  then have "sort_key fst (chils_sharers ls @ [(x, f x)]) = chils_sharers ls @ [(x, f x)]"
    by (simp only: sort_key_id_if_sorted)
  with notin Cons.prems(2) have "chils_with_sharer ls x (f x) =
      ls\<lparr>chils_sharers := chils_sharers ls @ [(x, f x)]\<rparr>"
    by (cases ls) (simp add: chils_with_sharer_def)
  with Cons.IH [of "ls\<lparr>chils_sharers := chils_sharers ls @ [(x, f x)]\<rparr>"] Cons.prems
  show ?case by simp
qed simp

lemma chil_snapshot_fields:
  assumes "chil_inv l"
  shows "chil_snapshot l line =
    \<lparr>chils_line = line, chils_unique_owner = chil_unique_owner l,
     chils_sharers = map (\<lambda>a. (a, the (chil_sharers l a))) (sorted_list_of_set (dom (chil_sharers l)))\<rparr>"
proof (cases "chil_unique_owner l")
  case None
  then show ?thesis
    by (simp add: chil_snapshot_def chils_new_def foldl_chils_with_sharer)
next
  case (Some os)
  with assms show ?thesis
    by (cases os) (auto simp: chil_snapshot_def chils_new_def chils_with_unique_owner_def chil_inv_def)
qed

lemma chil_collect_sharers_ok:
  assumes "\<forall>(a, s) \<in> set xs. chi_is_shared s"
  shows "chil_collect_sharers line m xs = Inr (m ++ map_of (rev xs))"
  using assms
proof (induction xs arbitrary: m)
  case (Cons x xs)
  obtain a s where x: "x = (a, s)" by (cases x)
  have "chi_is_stable s" "chi_is_shared s"
    using Cons.prems by (auto simp: x chi_state_predicates)
  with Cons show ?case
    by (simp add: x map_of_append)
qed simp

lemma chils_protocol_snapshot_caches:
  "ls_caches (chils_protocol_snapshot ls) =
     (case chils_unique_owner ls of None \<Rightarrow> [] | Some (owner, s) \<Rightarrow> [(owner, s)]) @ chils_sharers ls"
proof -
  have "ls_caches (foldl (\<lambda>snap (sharer, s). chi_with_cache snap sharer s) snap xs) =
      ls_caches snap @ xs" for snap xs
    by (induction xs arbitrary: snap) (auto simp: chi_with_cache_def)
  then show ?thesis
    by (simp add: chils_protocol_snapshot_def Let_def chi_snapshot_new_def chi_with_cache_def
        split: option.splits prod.splits)
qed

lemma chi_shared_no_write: "chi_is_shared s \<Longrightarrow> held (chi_perm_of s) = ReadPerm"
  by (cases s) (simp_all add: chi_is_shared_def)

lemma chil_inv_validates:
  assumes "chil_inv l"
  shows "chi_validate (chils_protocol_snapshot (chil_snapshot l line)) = Inr ()"
proof -
  let ?xs = "map (\<lambda>a. (a, the (chil_sharers l a))) (sorted_list_of_set (dom (chil_sharers l)))"
  have fin: "finite (dom (chil_sharers l))" using assms by (simp add: chil_inv_def)
  have shr: "held (chi_perm_of (snd x)) = ReadPerm" if "x \<in> set ?xs" for x
    using assms that fin by (auto simp: chil_inv_def intro: chi_shared_no_write)
  have sw: "swmr chi_perm_of ?xs"
    unfolding swmr_def by (rule sorted_wrt_allI) (simp only: shr swmr_pair_def perm.simps simp_thms)
  show ?thesis
  proof (cases "chil_unique_owner l")
    case None
    with sw show ?thesis
      by (simp add: chi_validate_swmr chils_protocol_snapshot_caches chil_snapshot_fields [OF assms])
  next
    case (Some os)
    with assms have "chil_sharers l = Map.empty" by (cases os) (simp add: chil_inv_def)
    with Some show ?thesis
      by (cases os)
         (simp add: chi_validate_swmr chils_protocol_snapshot_caches chil_snapshot_fields [OF assms] swmr_def)
  qed
qed

lemma chil_from_snapshot_snapshot:
  assumes "chil_inv l"
  shows "chil_from_snapshot (chil_snapshot l line) = Inr l"
proof -
  let ?xs = "map (\<lambda>a. (a, the (chil_sharers l a))) (sorted_list_of_set (dom (chil_sharers l)))"
  have fin: "finite (dom (chil_sharers l))" using assms by (simp add: chil_inv_def)
  have "map_of (rev ?xs) = chil_sharers l"
  proof
    fix a
    have "map_of (rev ?xs) a = map_of ?xs a"
      by (rule fun_cong, subst map_of_inject_set) (simp_all add: rev_map [symmetric] comp_def)
    then show "map_of (rev ?xs) a = chil_sharers l a"
      using fin by (auto simp: map_of_map_restrict restrict_map_def dom_def)
  qed
  moreover have "chil_collect_sharers line Map.empty ?xs = Inr (Map.empty ++ map_of (rev ?xs))"
    using assms fin by (intro chil_collect_sharers_ok) (auto simp: chil_inv_def)
  ultimately have "chil_collect_sharers line Map.empty ?xs = Inr (chil_sharers l)" by simp
  moreover note chil_inv_validates [OF assms, of line]
  moreover have "\<forall>a s. chil_unique_owner l = Some (a, s) \<longrightarrow> chi_is_unique s \<and> chi_is_stable s"
    using assms by (auto simp: chil_inv_def chi_state_predicates)
  ultimately show ?thesis
    by (auto simp: chil_from_snapshot_def chil_finish_def chil_snapshot_fields [OF assms]
        split: option.splits)
qed

lemma chil_restore_snapshot:
  assumes "chil_inv l"
  shows "chi_restore_line_state d (chil_snapshot l line) = Inr (store_line chil_is_empty d line l)"
proof -
  have "chils_line (chil_snapshot l line) = line" by (simp add: chil_snapshot_fields [OF assms])
  then show ?thesis
    by (simp add: chi_restore_line_state_def chil_from_snapshot_snapshot [OF assms] store_line_def Let_def)
qed

lemma chil_inv_step:
  assumes "chil_inv l" and "chi_accept_operation line request op l = Inr (l', snoops, grant)"
  shows "chil_inv l'"
  using assms(2)
proof (cases rule: chi_accept_operation_cases)
  case read_shared
  from read_shared(2) assms(1) show ?thesis
    by (auto simp: chil_inv_def chi_accept_read_shared_def chi_is_shared_def [of ChiState.SharedClean] Let_def
        split: if_splits option.splits)
next
  case read_unique
  from read_unique(3) have "l' = l\<lparr>chil_unique_owner := Some (rid_agent request, ChiState.UniqueDirty),
      chil_sharers := Map.empty\<rparr>"
    by (simp add: chi_accept_read_unique_def Let_def split: prod.splits)
  then show ?thesis by (simp add: chil_inv_def chi_is_unique_def)
next
  case upgrade
  from upgrade(2) assms(1) show ?thesis
    by (auto simp: chil_inv_def chi_accept_upgrade_def chi_is_unique_def Let_def split: if_splits)
qed (use assms(1) in \<open>auto simp: chil_inv_def chi_accept_defs chi_is_shared_def [of ChiState.SharedClean]
      split: if_splits\<close>)

interpretation chi_dir: line_directory chi_accept chi_accept_operation chil_snapshot
  "\<lambda>d s. case chi_restore_line_state d s of Inl _ \<Rightarrow> None | Inr d' \<Rightarrow> Some d'"
  chil_default chil_is_empty chil_inv
proof unfold_locales
  show "chil_is_empty l \<longleftrightarrow> l = chil_default" for l
    by (cases l) (simp add: chil_is_empty_def chil_default_def)
  show "chil_inv chil_default" by (simp add: chil_inv_def chil_default_def)
qed (auto simp: chi_accept_def Let_def lookup_line_def store_line_def chil_inv_step chil_restore_snapshot
      split: option.splits)

section \<open>The directory follows the protocol\<close>

text \<open>The state the directory records for each cache.\<close>

definition chil_states :: "ChiStoredLine \<Rightarrow> agent_id \<Rightarrow> ChiState" where
  "chil_states l a =
     (case chil_unique_owner l of
        Some (owner, s) \<Rightarrow> if a = owner then s else ChiState.Invalid
      | None \<Rightarrow> (case chil_sharers l a of None \<Rightarrow> ChiState.Invalid | Some s \<Rightarrow> s))"

text \<open>A unique clean copy may become dirty silently.\<close>

definition chi_shadows :: "ChiState \<Rightarrow> ChiState \<Rightarrow> bool" where
  "chi_shadows recorded actual \<longleftrightarrow>
     recorded = actual \<or> recorded = ChiState.UniqueClean \<and> actual = ChiState.UniqueDirty"

definition chi_requester_after ::
  "MemoryOperation \<Rightarrow> ChiDirectoryGrant option \<Rightarrow> ChiState \<Rightarrow> ChiState" where
  "chi_requester_after op grant s =
     (case grant of
        Some g \<Rightarrow> dg_state g
      | None \<Rightarrow> if op = NoAccess then s
                else if op \<in> {WriteClean, CleanShared} then ChiState.SharedClean
                else ChiState.Invalid)"

lemma chi_requester_after_simps:
  "chi_requester_after op (Some g) s = dg_state g"
  "chi_requester_after NoAccess None s = s"
  "op \<in> {WriteClean, CleanShared} \<Longrightarrow> chi_requester_after op None s = ChiState.SharedClean"
  "op \<in> {WritebackDirty, WritebackClean, CleanEvict, MemoryOperation.Invalidate} \<Longrightarrow>
     chi_requester_after op None s = ChiState.Invalid"
  by (auto simp: chi_requester_after_def)

lemma chi_snoop_unique_result:
  "chi_is_stable s \<Longrightarrow> snoop_result chi_transition s ChiEvent.SnoopUnique = Some ChiState.Invalid"
  by (cases s) (simp_all add: snoop_result_def chi_transition_def Let_def chi_is_stable_def)

lemma chi_snoop_shared_result:
  "snoop_result chi_transition ChiState.UniqueClean ChiEvent.SnoopShared = Some ChiState.SharedClean"
  "snoop_result chi_transition ChiState.UniqueDirty ChiEvent.SnoopShared = Some ChiState.SharedClean"
  "snoop_result chi_transition ChiState.SharedDirty ChiEvent.SnoopShared = Some ChiState.SharedDirty"
  by (simp_all add: snoop_result_def chi_transition_def Let_def)

lemma chi_snoop_others:
  assumes "finite S" and "\<And>a. chi_is_stable (caches a)"
  shows "apply_snoops (snoop_result chi_transition) caches
      (snoops_to ChiEvent.SnoopUnique (others r S)) =
    Some (\<lambda>a. if a \<in> S - {r} then ChiState.Invalid else caches a)"
  using assms
  by (subst apply_snoops_to [where f = "\<lambda>_. ChiState.Invalid"]) (auto simp: chi_snoop_unique_result)

lemma chil_shadow_cases:
  assumes "chil_inv l" and sh: "\<And>a. chi_shadows (chil_states l a) (caches a)"
  obtains (shared) "chil_unique_owner l = None"
      "caches = (\<lambda>a. case chil_sharers l a of None \<Rightarrow> ChiState.Invalid | Some s \<Rightarrow> s)"
  | (owned) owner s t where "chil_unique_owner l = Some (owner, s)" "chil_sharers l = Map.empty"
      "caches = (\<lambda>a. if a = owner then t else ChiState.Invalid)" "chi_shadows s t"
      "s \<in> {ChiState.UniqueClean, ChiState.UniqueDirty}" "t \<in> {ChiState.UniqueClean, ChiState.UniqueDirty}"
proof (cases "chil_unique_owner l")
  case None
  have "caches a = (case chil_sharers l a of None \<Rightarrow> ChiState.Invalid | Some s \<Rightarrow> s)" for a
    using sh [of a] None assms(1)
    by (auto simp: chi_shadows_def chil_states_def chil_inv_def chi_is_shared_def split: option.splits)
  then show ?thesis by (intro shared [OF None] ext)
next
  case (Some os)
  obtain owner s where os: "os = (owner, s)" by (cases os)
  have inv: "chil_sharers l = Map.empty" "s \<in> {ChiState.UniqueClean, ChiState.UniqueDirty}"
    using Some os assms(1) by (auto simp: chil_inv_def chi_is_unique_def)
  have o: "chi_shadows s (caches owner)"
    using sh [of owner] Some os by (simp add: chil_states_def)
  have "caches a = ChiState.Invalid" if "a \<noteq> owner" for a
    using sh [of a] Some os that by (simp add: chi_shadows_def chil_states_def)
  then have c: "caches = (\<lambda>a. if a = owner then caches owner else ChiState.Invalid)" by auto
  have t: "caches owner \<in> {ChiState.UniqueClean, ChiState.UniqueDirty}"
    using o inv(2) by (auto simp: chi_shadows_def)
  have "chil_unique_owner l = Some (owner, s)" using Some os by simp
  from owned [OF this inv(1) c o inv(2) t] show ?thesis .
qed

text \<open>The first dirty sharer is a sharer in the dirty state, other than the excluded agent.\<close>

lemma chil_first_dirty_SomeD:
  assumes "chil_inv l" and "chil_first_dirty_sharer_except l ex = Some a"
  shows "chil_sharers l a = Some ChiState.SharedDirty \<and> Some a \<noteq> ex"
proof -
  have "a \<in> dom (chil_sharers l)" "Some a \<noteq> ex" "chi_is_dirty (the (chil_sharers l a))"
    using assms find_SomeD [OF assms(2) [unfolded chil_first_dirty_sharer_except_def]]
    by (auto simp: chil_inv_def)
  then obtain s where s: "chil_sharers l a = Some s" "chi_is_dirty s" "Some a \<noteq> ex" by auto
  with assms(1) have "chi_is_shared s" by (auto simp: chil_inv_def)
  with s show ?thesis by (cases s) (simp_all add: chi_is_shared_def chi_is_dirty_def)
qed

lemma chil_first_dirty_NoneD:
  assumes "chil_inv l" and "chil_first_dirty_sharer_except l ex = None"
    and "chil_sharers l a = Some s" and "Some a \<noteq> ex"
  shows "\<not> chi_is_dirty s"
  using assms by (force simp: chil_first_dirty_sharer_except_def find_None_iff chil_inv_def)

lemmas chi_follow_simps =
  chi_requester_after_simps chi_shadows_def chil_states_def chi_snoop_shared_result
  chi_snoop_unique_result chi_is_stable_def

text \<open>
  Running the snoops of a decision through the caches' protocol, and installing the grant, leaves
  the caches in the states the directory records; no snoop is refused.
\<close>

lemma chi_line_follows_protocol:
  assumes inv: "chil_inv l" and step: "chi_accept_operation line request op l = Inr (l', snoops, grant)"
    and sh: "\<And>a. chi_shadows (chil_states l a) (caches a)"
  shows "\<exists>caches'. apply_snoops (snoop_result chi_transition) caches snoops = Some caches' \<and>
    (\<forall>a. chi_shadows (chil_states l' a)
      ((caches'(rid_agent request := chi_requester_after op grant (caches' (rid_agent request)))) a))"
  using inv sh
proof (cases rule: chil_shadow_cases)
  case shared
  have fin: "finite (dom (chil_sharers l))" using inv by (simp add: chil_inv_def)
  have stable: "chi_is_stable (caches a)" for a
    using inv by (auto simp: shared(2) chil_inv_def chi_state_predicates split: option.splits)
  note others = chi_snoop_others [OF fin stable]
  from step show ?thesis
  proof (cases rule: chi_accept_operation_cases)
    case read_shared
    from read_shared(2) show ?thesis
      by (auto simp: chi_accept_read_shared_def shared chi_follow_simps Let_def
          dest!: chil_first_dirty_SomeD [OF inv] split: option.splits)
  next
    case read_unique
    from read_unique(3) obtain src where
        "l' = l\<lparr>chil_unique_owner := Some (rid_agent request, ChiState.UniqueDirty), chil_sharers := Map.empty\<rparr>"
        "snoops = snoops_to ChiEvent.SnoopUnique (others (rid_agent request) (dom (chil_sharers l)))"
        "grant = chi_grant request line ChiState.UniqueDirty src"
      by (auto simp: chi_accept_read_unique_def shared(1) split: option.splits if_splits)
    then show ?thesis
      by (simp add: others chi_requester_after_simps chi_shadows_def chil_states_def)
         (auto simp: shared(2) split: option.splits)
  next
    case upgrade
    from upgrade(2) obtain src where
        "l' = l\<lparr>chil_unique_owner := Some (rid_agent request, ChiState.UniqueDirty), chil_sharers := Map.empty\<rparr>"
        "snoops = snoops_to ChiEvent.SnoopUnique (others (rid_agent request) (dom (chil_sharers l)))"
        "grant = chi_grant request line ChiState.UniqueDirty src"
      by (auto simp: chi_accept_upgrade_def shared(1) Let_def split: if_splits)
    then show ?thesis
      by (simp add: others chi_requester_after_simps chi_shadows_def chil_states_def)
         (auto simp: shared(2) split: option.splits)
  next
    case write_clean
    from write_clean(2) chi_requester_after_simps(3) [OF write_clean(1)] show ?thesis
      by (auto simp: chi_accept_write_clean_def shared chi_follow_simps split: if_splits)
  qed (auto simp: chi_accept_defs shared chi_follow_simps split: if_splits)
next
  case (owned owner s t)
  from step show ?thesis
  proof (cases rule: chi_accept_operation_cases)
    case read_shared
    from read_shared(2) owned(4-6) show ?thesis
      by (auto simp: chi_accept_read_shared_def owned(1-3) chi_follow_simps split: if_splits)
  next
    case read_unique
    from read_unique(3) owned(4-6) show ?thesis
      by (auto simp: chi_accept_read_unique_def owned(1-3) chi_follow_simps split: if_splits)
  next
    case upgrade
    from upgrade(2) owned(4-6) show ?thesis
      by (auto simp: chi_accept_upgrade_def owned(1-3) chi_follow_simps split: if_splits)
  next
    case write_clean
    from write_clean(2) chi_requester_after_simps(3) [OF write_clean(1)] show ?thesis
      by (auto simp: chi_accept_write_clean_def owned(1-3) chi_follow_simps split: if_splits)
  qed (use owned(4-6) in \<open>auto simp: chi_accept_defs owned(1-3) chi_follow_simps split: if_splits\<close>)
qed

text \<open>Where the directory tells the requester to take the data from.\<close>

lemma chi_line_data_source:
  assumes inv: "chil_inv l"
    and step: "chi_accept_operation line request op l = Inr (l', snoops, Some g)"
  shows "case dg_data_source g of
      OwnerCache owner \<Rightarrow> chi_is_valid (chil_states l owner) \<and> owner \<noteq> rid_agent request \<and>
        owner \<in> ds_target ` set snoops
    | BackingMemory \<Rightarrow> \<forall>a. \<not> chi_is_dirty (chil_states l a) \<and> \<not> chi_is_unique (chil_states l a)
    | NoData \<Rightarrow> chi_is_valid (chil_states l (rid_agent request))"
proof -
  have clean: False
    if "chil_first_dirty_sharer_except l (Some r) = None" "chil_sharers l r = None"
      "chil_sharers l a = Some s" "chi_is_dirty s" for a r s
    using that chil_first_dirty_NoneD [OF inv that(1,3)] by (cases "a = r") auto
  have invalid: "\<not> chi_is_dirty ChiState.Invalid" "\<not> chi_is_unique ChiState.Invalid"
    by (simp_all add: chi_is_dirty_def chi_is_unique_def)
  have shared: "\<not> chi_is_unique s" if "chil_sharers l a = Some s" for a s
    using inv that by (auto simp: chil_inv_def chi_state_predicates)
  have valid: "chi_is_valid s" if "chil_sharers l a = Some s" for a s
    using inv that by (auto simp: chil_inv_def chi_state_predicates)
  have ovalid: "chi_is_valid s" if "chil_unique_owner l = Some (a, s)" for a s
    using inv that by (auto simp: chil_inv_def chi_state_predicates)
  have dirty: "chi_is_valid ChiState.SharedDirty" by (simp add: chi_is_valid_def)
  from step show ?thesis
  proof (cases rule: chi_accept_operation_cases)
    case read_shared
    from read_shared(2) show ?thesis
      by (auto simp: chi_accept_read_shared_def Let_def chil_states_def valid ovalid shared dirty invalid
          dest!: chil_first_dirty_SomeD [OF inv] dest: clean
          split: if_splits option.splits)
  next
    case read_unique
    from read_unique(3) show ?thesis
      by (auto simp: chi_accept_read_unique_def Let_def chil_states_def valid ovalid shared dirty invalid image_image
          dest!: chil_first_dirty_SomeD [OF inv] dest: clean
          split: if_splits option.splits)
  next
    case upgrade
    from upgrade(2) inv show ?thesis
      by (auto simp: chi_accept_upgrade_def Let_def chil_states_def chil_inv_def valid ovalid shared dirty invalid image_image
          dest!: chil_first_dirty_SomeD [OF inv] split: if_splits option.splits)
  qed (auto simp: chi_accept_defs split: if_splits)
qed

section \<open>The directory with its caches\<close>

text \<open>
  A store that hits moves a copy without a request.  The permission of a copy is the one of the
  protocol theory.
\<close>

definition chi_silent :: "ChiState \<Rightarrow> ChiState \<Rightarrow> bool" where
  "chi_silent s t \<longleftrightarrow>
     snoop_result chi_transition s ChiEvent.CpuWrite = Some t \<and> chi_is_stable t"

abbreviation chi_system :: "ChiDirectory \<Rightarrow> (address \<Rightarrow> agent_id \<Rightarrow> ChiState) \<Rightarrow> bool" where
  "chi_system \<equiv> directory_system chi_accept (snoop_result chi_transition) chi_requester_after
     chi_silent ChiState.Invalid"

lemma chi_silent_iff:
  "chi_silent s t \<longleftrightarrow> s \<in> {ChiState.UniqueClean, ChiState.UniqueDirty} \<and> t = ChiState.UniqueDirty"
  by (cases s) (auto simp: chi_silent_def snoop_result_def chi_transition_def Let_def
      chi_state_predicates chi_event_predicates)

interpretation chi_coherent: coherent_directory chi_accept chi_accept_operation chil_snapshot
  "\<lambda>d s. case chi_restore_line_state d s of Inl _ \<Rightarrow> None | Inr d' \<Rightarrow> Some d'"
  chil_default chil_is_empty chil_inv chil_states chi_shadows "snoop_result chi_transition"
  chi_requester_after chi_silent ChiState.Invalid "\<lambda>s. held (chi_perm_of s)"
proof unfold_locales
  show "chi_shadows (chil_states chil_default a) ChiState.Invalid" for a
    by (simp add: chi_shadows_def chil_states_def chil_default_def)
  show "chi_shadows s u" if "chi_shadows s t" "chi_silent t u" for s t u
    using that by (auto simp: chi_silent_iff chi_shadows_def)
  show "held (chi_perm_of (copies b)) = NoPerm"
    if "chil_inv l" "\<And>a. chi_shadows (chil_states l a) (copies a)" "a \<noteq> b"
      "held (chi_perm_of (copies a)) = WritePerm" for l copies a b
    using that(1,2)
  proof (cases rule: chil_shadow_cases)
    case shared
    have "held (chi_perm_of (copies a)) \<noteq> WritePerm"
      using that(1) chi_shared_no_write by (auto simp: shared(2) chil_inv_def split: option.splits)
    with that(4) show ?thesis by simp
  qed (use that(3,4) in \<open>auto split: if_splits\<close>)
qed (rule chi_line_follows_protocol)

lemmas chi_eval_simps =
  serve_request_def chi_accept_def chi_accept_operation_def chi_accept_read_shared_def
  chi_accept_read_unique_def chil_default_def chil_is_empty_def directory_empty_def Let_def
  chi_requester_after_def chi_snoop_unique_result chi_snoop_shared_result chi_state_predicates
  chil_first_dirty_sharer_except_def snoops_to_def others_def

lemma chi_restore_lines:
  assumes "chi_dir.dir_inv d" and "set lines \<subseteq> dom (dir_lines d)" "distinct lines"
  shows "res_foldl (\<lambda>restored snap.
        res_bind (chil_from_snapshot snap) (\<lambda>stored.
          Inr (if \<not> chil_is_empty stored then restored(chils_line snap \<mapsto> stored) else restored)))
      restored (map (\<lambda>line. chil_snapshot (the (dir_lines d line)) line) lines) =
     Inr (\<lambda>line. if line \<in> set lines then dir_lines d line else restored line)"
  using assms(2,3)
proof (induction lines arbitrary: restored)
  case (Cons line lines)
  then obtain l where l: "dir_lines d line = Some l" "chil_inv l" "\<not> chil_is_empty l"
    using assms(1) by (auto simp: chi_dir.dir_inv_def)
  then have "chils_line (chil_snapshot l line) = line" by (simp add: chil_snapshot_fields)
  with Cons l show ?case
    by (auto simp: chil_from_snapshot_snapshot fun_eq_iff)
qed simp

lemma chi_dir_restore:
  assumes "chi_dir.dir_inv d"
  shows "chi_restore_line_states d0 (chi_line_states d) = Inr d"
proof -
  have fin: "finite (dom (dir_lines d))" using assms by (simp add: chi_dir.dir_inv_def)
  then have "chi_line_states d = map (\<lambda>line. chil_snapshot (the (dir_lines d line)) line) (sorted_list_of_set (dom (dir_lines d)))"
    by (auto simp: chi_line_states_def)
  moreover have "(\<lambda>line. if line \<in> dom (dir_lines d) then dir_lines d line else Map.empty line) = dir_lines d"
    by (auto simp: fun_eq_iff domIff)
  ultimately show ?thesis
    using fin chi_restore_lines [OF assms, of "sorted_list_of_set (dom (dir_lines d))" Map.empty]
    by (simp add: chi_restore_line_states_def)
qed

section \<open>Properties\<close>





text \<open>
  C11. Round trip.  Saving all lines of a reachable CHI directory and restoring them succeeds and
  gives the saved directory back.
\<close>

theorem chi_directory_roundtrip:
  assumes "chi_system d caches"
  shows "chi_restore_line_states d0 (chi_line_states d) = Inr d"
  using chi_coherent.system_shadows [OF assms] chi_dir_restore by blast

theorem chi_directory_roundtrip_witness:
  "\<exists>d caches. chi_system d caches \<and> dir_lines d \<noteq> Map.empty \<and>
     chi_restore_line_states directory_empty (chi_line_states d) = Inr d"
proof -
  obtain s where
    s: "serve_all chi_accept (snoop_result chi_transition) chi_requester_after
      [example_request ReadUnique 1] (directory_empty, \<lambda>line a. ChiState.Invalid) = Some s"
    and "dir_lines (fst s) \<noteq> Map.empty"
    by (simp add: chi_eval_simps)
  then show ?thesis
    using directory_system_run [OF s] chi_directory_roundtrip [of "fst s" "snd s" directory_empty] by blast
qed

end
