(* ===== verification/Clock.thy ===== *)
theory Clock
  imports Rem6_Prelude
begin

text \<open>
  Clocks of the simulation kernel, \<^verbatim>\<open>crates/rem6-kernel/src/clock.rs\<close>: a clock domain and the
  conversion between cycles and ticks, source domains with several performance levels, and the tree
  of domains derived from them by dividers.  Changing the level of a source recomputes every period
  below it.
\<close>

type_synonym ClockDomainId = u32

datatype ClockError =
    ZeroPeriod
  | ZeroClockDivider
  | EmptyPerformancePoints
  | UnsortedPerformancePoints
  | InvalidPerformanceLevel nat nat
  | MissingClockDomainId
  | DuplicateClockDomain ClockDomainId
  | UnknownClockDomain ClockDomainId
  | NotSourceClockDomain ClockDomainId
  | NotDerivedClockDomain ClockDomainId
  | TickOverflow tick nat
  | DerivedClockOverflow tick nat

section \<open>A clock domain\<close>

record clock_domain =
  cd_period :: tick

definition clock_domain_new :: "tick \<Rightarrow> ClockError + clock_domain" where
  "clock_domain_new period = (if period = 0 then Inl ZeroPeriod else Inr \<lparr>cd_period = period\<rparr>)"

definition frequency_hz :: "clock_domain \<Rightarrow> nat \<Rightarrow> nat" where
  "frequency_hz c tick_frequency_hz = tick_frequency_hz div cd_period c"

definition cycles_to_ticks :: "clock_domain \<Rightarrow> nat \<Rightarrow> ClockError + tick" where
  "cycles_to_ticks c cycles = ok_or (TickOverflow (cd_period c) cycles) (checked_mul (cd_period c) cycles)"

definition ticks_to_cycles_ceil :: "clock_domain \<Rightarrow> tick \<Rightarrow> nat" where
  "ticks_to_cycles_ceil c ticks = (if ticks = 0 then 0 else (ticks - 1) div cd_period c + 1)"

definition clock_edge :: "clock_domain \<Rightarrow> tick \<Rightarrow> nat \<Rightarrow> ClockError + tick" where
  "clock_edge c now cycles =
    (let remainder = now mod cd_period c
     in res_bind (if remainder = 0 then Inr now
                  else ok_or (TickOverflow (cd_period c) cycles) (checked_add now (cd_period c - remainder)))
          (\<lambda>aligned.
        res_bind (cycles_to_ticks c cycles) (\<lambda>offset.
        ok_or (TickOverflow (cd_period c) cycles) (checked_add aligned offset))))"

definition clock_derived :: "clock_domain \<Rightarrow> nat \<Rightarrow> ClockError + clock_domain" where
  "clock_derived c divider =
    (if divider = 0 then Inl ZeroClockDivider
     else res_bind (ok_or (DerivedClockOverflow (cd_period c) divider) (checked_mul (cd_period c) divider))
       clock_domain_new)"

section \<open>Source domains\<close>

record source_clock_domain =
  sc_domain_id :: "ClockDomainId option"
  sc_periods :: "tick list"
  sc_performance_level :: nat

definition validate_performance_points :: "tick list \<Rightarrow> ClockError + unit" where
  "validate_performance_points periods =
    (if periods = [] then Inl EmptyPerformancePoints
     else if 0 \<in> set periods then Inl ZeroPeriod
     else if \<not> sorted_wrt (\<le>) periods then Inl UnsortedPerformancePoints
     else Inr ())"

definition validate_performance_level :: "nat \<Rightarrow> nat \<Rightarrow> ClockError + unit" where
  "validate_performance_level level count =
    (if level \<ge> count then Inl (InvalidPerformanceLevel level count) else Inr ())"

definition source_new :: "ClockDomainId option \<Rightarrow> tick list \<Rightarrow> nat \<Rightarrow> ClockError + source_clock_domain" where
  "source_new domain_id periods level =
     res_bind (validate_performance_points periods) (\<lambda>_.
     res_bind (validate_performance_level level (length periods)) (\<lambda>_.
     Inr \<lparr>sc_domain_id = domain_id, sc_periods = periods, sc_performance_level = level\<rparr>))"

definition source_period :: "source_clock_domain \<Rightarrow> tick" where
  "source_period s = sc_periods s ! sc_performance_level s"

definition period_at_performance_level :: "source_clock_domain \<Rightarrow> nat \<Rightarrow> ClockError + tick" where
  "period_at_performance_level s level =
     res_bind (validate_performance_level level (length (sc_periods s))) (\<lambda>_. Inr (sc_periods s ! level))"

definition source_clock :: "source_clock_domain \<Rightarrow> clock_domain" where
  "source_clock s = \<lparr>cd_period = source_period s\<rparr>"

definition set_performance_level ::
  "source_clock_domain \<Rightarrow> nat \<Rightarrow> (source_clock_domain, ClockError, bool) outcome" where
  "set_performance_level s level =
     st_try s (validate_performance_level level (length (sc_periods s))) (\<lambda>_.
     if level = sc_performance_level s then (s, Inr False)
     else (s\<lparr>sc_performance_level := level\<rparr>, Inr True))"

section \<open>The tree of domains\<close>

record derived_clock_domain =
  dc_domain_id :: ClockDomainId
  dc_parent_id :: ClockDomainId
  dc_divider :: nat
  dc_clock_domain :: clock_domain

definition derived_new ::
  "ClockDomainId \<Rightarrow> ClockDomainId \<Rightarrow> clock_domain \<Rightarrow> nat \<Rightarrow> ClockError + derived_clock_domain" where
  "derived_new domain parent parent_domain divider =
     res_bind (clock_derived parent_domain divider) (\<lambda>c.
     Inr \<lparr>dc_domain_id = domain, dc_parent_id = parent, dc_divider = divider, dc_clock_domain = c\<rparr>)"

datatype ClockDomainNode = Source source_clock_domain | Derived derived_clock_domain

record clock_domain_tree =
  ct_domains :: "ClockDomainId \<rightharpoonup> ClockDomainNode"
  ct_children :: "ClockDomainId \<rightharpoonup> ClockDomainId list"

definition tree_new :: clock_domain_tree where
  "tree_new = \<lparr>ct_domains = Map.empty, ct_children = Map.empty\<rparr>"

definition ensure_domain_absent :: "clock_domain_tree \<Rightarrow> ClockDomainId \<Rightarrow> ClockError + unit" where
  "ensure_domain_absent t domain =
    (if ct_domains t domain \<noteq> None then Inl (DuplicateClockDomain domain) else Inr ())"

definition tree_domain :: "clock_domain_tree \<Rightarrow> ClockDomainId \<Rightarrow> ClockError + ClockDomainNode" where
  "tree_domain t domain = ok_or (UnknownClockDomain domain) (ct_domains t domain)"

definition node_clock :: "ClockDomainNode \<Rightarrow> clock_domain" where
  "node_clock n = (case n of Source s \<Rightarrow> source_clock s | Derived d \<Rightarrow> dc_clock_domain d)"

definition tree_clock_domain :: "clock_domain_tree \<Rightarrow> ClockDomainId \<Rightarrow> ClockError + clock_domain" where
  "tree_clock_domain t domain = res_bind (tree_domain t domain) (\<lambda>n. Inr (node_clock n))"

definition tree_source :: "clock_domain_tree \<Rightarrow> ClockDomainId \<Rightarrow> ClockError + source_clock_domain" where
  "tree_source t domain =
     res_bind (tree_domain t domain) (\<lambda>n.
     case n of Source s \<Rightarrow> Inr s | Derived _ \<Rightarrow> Inl (NotSourceClockDomain domain))"

definition tree_derived :: "clock_domain_tree \<Rightarrow> ClockDomainId \<Rightarrow> ClockError + derived_clock_domain" where
  "tree_derived t domain =
     res_bind (tree_domain t domain) (\<lambda>n.
     case n of Source _ \<Rightarrow> Inl (NotDerivedClockDomain domain) | Derived d \<Rightarrow> Inr d)"

text \<open>\<open>children.entry(domain).or_default()\<close>.\<close>

definition children_of :: "clock_domain_tree \<Rightarrow> ClockDomainId \<Rightarrow> ClockDomainId list" where
  "children_of t domain = (case ct_children t domain of None \<Rightarrow> [] | Some cs \<Rightarrow> cs)"

definition insert_source ::
  "clock_domain_tree \<Rightarrow> source_clock_domain \<Rightarrow> (clock_domain_tree, ClockError, unit) outcome" where
  "insert_source t s =
     st_try t (ok_or MissingClockDomainId (sc_domain_id s)) (\<lambda>domain.
     st_try t (ensure_domain_absent t domain) (\<lambda>_.
     (t\<lparr>ct_domains := (ct_domains t)(domain \<mapsto> Source s),
        ct_children := (ct_children t)(domain \<mapsto> children_of t domain)\<rparr>, Inr ())))"

definition insert_derived ::
  "clock_domain_tree \<Rightarrow> ClockDomainId \<Rightarrow> ClockDomainId \<Rightarrow> nat \<Rightarrow>
   (clock_domain_tree, ClockError, unit) outcome" where
  "insert_derived t domain parent divider =
     st_try t (ensure_domain_absent t domain) (\<lambda>_.
     st_try t (tree_clock_domain t parent) (\<lambda>parent_domain.
     st_try t (derived_new domain parent parent_domain divider) (\<lambda>d.
     let t = t\<lparr>ct_domains := (ct_domains t)(domain \<mapsto> Derived d),
               ct_children := (ct_children t)(parent \<mapsto> children_of t parent @ [domain])\<rparr>
     in (t\<lparr>ct_children := (ct_children t)(domain \<mapsto> children_of t domain)\<rparr>, Inr ()))))"

text \<open>
  The recursion of \<open>collect_derived_updates\<close> over the children of a domain, with the collected
  updates threaded through; \<open>None\<close> stands for a recursion that does not end.  A child that is a
  source domain is the branch that the code marks unreachable.
\<close>

partial_function (option) collect_children ::
  "clock_domain_tree \<Rightarrow> clock_domain \<Rightarrow> ClockDomainId list \<Rightarrow> (ClockDomainId \<times> clock_domain) list \<Rightarrow>
   (ClockError + (ClockDomainId \<times> clock_domain) list) option" where
  "collect_children t parent_domain children updates =
    (case children of
       [] \<Rightarrow> Some (Inr updates)
     | child # rest \<Rightarrow>
         (case res_bind (tree_derived t child) (\<lambda>d. clock_derived parent_domain (dc_divider d)) of
            Inl e \<Rightarrow> Some (Inl e)
          | Inr child_domain \<Rightarrow>
              Option.bind
                (collect_children t child_domain (children_of t child) (updates @ [(child, child_domain)]))
                (\<lambda>r. case r of Inl e \<Rightarrow> Some (Inl e)
                      | Inr updates' \<Rightarrow> collect_children t parent_domain rest updates')))"

definition collect_derived_updates ::
  "clock_domain_tree \<Rightarrow> ClockDomainId \<Rightarrow> clock_domain \<Rightarrow>
   (ClockError + (ClockDomainId \<times> clock_domain) list) option" where
  "collect_derived_updates t parent parent_domain =
     collect_children t parent_domain (children_of t parent) []"

definition apply_update :: "clock_domain_tree \<Rightarrow> ClockDomainId \<times> clock_domain \<Rightarrow> clock_domain_tree" where
  "apply_update t u =
    (case ct_domains t (fst u) of
       Some (Derived d) \<Rightarrow>
         t\<lparr>ct_domains := (ct_domains t)(fst u \<mapsto> Derived (d\<lparr>dc_clock_domain := snd u\<rparr>))\<rparr>
     | _ \<Rightarrow> t)"

definition set_source_performance_level ::
  "clock_domain_tree \<Rightarrow> ClockDomainId \<Rightarrow> nat \<Rightarrow> (clock_domain_tree, ClockError, bool) outcome option" where
  "set_source_performance_level t domain level =
    (case res_bind (tree_source t domain) (\<lambda>s.
          res_bind (validate_performance_level level (length (sc_periods s))) (\<lambda>_. Inr s)) of
       Inl e \<Rightarrow> Some (t, Inl e)
     | Inr s \<Rightarrow>
         if level = sc_performance_level s then Some (t, Inr False)
         else
           (case res_bind (period_at_performance_level s level) clock_domain_new of
              Inl e \<Rightarrow> Some (t, Inl e)
            | Inr source_domain \<Rightarrow>
                map_option
                  (\<lambda>r. case r of
                         Inl e \<Rightarrow> (t, Inl e)
                       | Inr updates \<Rightarrow>
                           (foldl apply_update
                              (t\<lparr>ct_domains := (ct_domains t)(domain \<mapsto>
                                   Source (fst (set_performance_level s level)))\<rparr>) updates, Inr True))
                  (collect_derived_updates t domain source_domain)))"

section \<open>Saving and restoring the tree\<close>

record source_clock_domain_snapshot =
  ss_domain_id :: ClockDomainId
  ss_periods :: "tick list"
  ss_performance_level :: nat

definition source_snapshot_restore :: "source_clock_domain_snapshot \<Rightarrow> ClockError + source_clock_domain" where
  "source_snapshot_restore s = source_new (Some (ss_domain_id s)) (ss_periods s) (ss_performance_level s)"

record derived_clock_domain_snapshot =
  dcs_domain_id :: ClockDomainId
  dcs_parent_id :: ClockDomainId
  dcs_divider :: nat

record clock_domain_tree_snapshot =
  cts_sources :: "source_clock_domain_snapshot list"
  cts_derived :: "derived_clock_domain_snapshot list"

text \<open>
  The recursion of \<open>collect_derived_snapshots\<close>; \<open>None\<close> also stands for the panic on a registered
  child that is missing or a source.
\<close>

partial_function (option) snapshot_children ::
  "clock_domain_tree \<Rightarrow> ClockDomainId list \<Rightarrow> derived_clock_domain_snapshot list \<Rightarrow>
   derived_clock_domain_snapshot list option" where
  "snapshot_children t children snapshots =
    (case children of
       [] \<Rightarrow> Some snapshots
     | child # rest \<Rightarrow>
         (case tree_derived t child of
            Inl _ \<Rightarrow> None
          | Inr d \<Rightarrow>
              Option.bind
                (snapshot_children t (children_of t child)
                  (snapshots @ [\<lparr>dcs_domain_id = dc_domain_id d, dcs_parent_id = dc_parent_id d,
                                 dcs_divider = dc_divider d\<rparr>]))
                (snapshot_children t rest)))"

definition collect_derived_snapshots ::
  "clock_domain_tree \<Rightarrow> ClockDomainId \<Rightarrow> derived_clock_domain_snapshot list \<Rightarrow>
   derived_clock_domain_snapshot list option" where
  "collect_derived_snapshots t parent snapshots = snapshot_children t (children_of t parent) snapshots"

fun snapshot_domains ::
  "clock_domain_tree \<Rightarrow> ClockDomainId list \<Rightarrow> clock_domain_tree_snapshot \<Rightarrow>
   clock_domain_tree_snapshot option" where
  "snapshot_domains t [] snap = Some snap"
| "snapshot_domains t (domain # rest) snap =
    (case ct_domains t domain of
       Some (Source s) \<Rightarrow>
         Option.bind (collect_derived_snapshots t domain (cts_derived snap)) (\<lambda>derived.
         snapshot_domains t rest
           \<lparr>cts_sources = cts_sources snap @
              [\<lparr>ss_domain_id = domain, ss_periods = sc_periods s, ss_performance_level = sc_performance_level s\<rparr>],
            cts_derived = derived\<rparr>)
     | _ \<Rightarrow> snapshot_domains t rest snap)"

definition tree_snapshot :: "clock_domain_tree \<Rightarrow> clock_domain_tree_snapshot option" where
  "tree_snapshot t =
     snapshot_domains t (sorted_list_of_set (dom (ct_domains t))) \<lparr>cts_sources = [], cts_derived = []\<rparr>"

text \<open>
  One pass of \<open>restore_derived_snapshots\<close> over the pending entries: an entry whose parent is
  registered is inserted and removed, the others are kept.
\<close>

fun restore_pass ::
  "clock_domain_tree \<Rightarrow> derived_clock_domain_snapshot list \<Rightarrow> derived_clock_domain_snapshot list \<Rightarrow>
   ClockError + clock_domain_tree \<times> derived_clock_domain_snapshot list" where
  "restore_pass t kept [] = Inr (t, kept)"
| "restore_pass t kept (s # rest) =
    (if ct_domains t (dcs_parent_id s) = None then restore_pass t (kept @ [s]) rest
     else (case insert_derived t (dcs_domain_id s) (dcs_parent_id s) (dcs_divider s) of
             (_, Inl e) \<Rightarrow> Inl e
           | (t', Inr _) \<Rightarrow> restore_pass t' kept rest))"

function restore_derived_snapshots ::
  "clock_domain_tree \<Rightarrow> derived_clock_domain_snapshot list \<Rightarrow> ClockError + clock_domain_tree" where
  "restore_derived_snapshots t pending =
    (if pending = [] then Inr t
     else res_bind (restore_pass t [] pending) (\<lambda>(t', kept).
       if length kept \<ge> length pending then Inl (UnknownClockDomain (dcs_parent_id (hd kept)))
       else restore_derived_snapshots t' kept))"
  by pat_completeness auto
termination
  by (relation "measure (\<lambda>(t, pending). length pending)") auto

declare restore_derived_snapshots.simps [simp del]

definition tree_restore :: "clock_domain_tree_snapshot \<Rightarrow> ClockError + clock_domain_tree" where
  "tree_restore snap =
     res_bind (res_foldl (\<lambda>t s. res_bind (source_snapshot_restore s) (\<lambda>source. ok_state (insert_source t source)))
       tree_new (cts_sources snap)) (\<lambda>t.
     restore_derived_snapshots t (cts_derived snap))"

section \<open>Cycles and ticks\<close>

definition wf_clock :: "clock_domain \<Rightarrow> bool" where
  "wf_clock c \<longleftrightarrow> clock_domain_new (cd_period c) = Inr c"

lemma wf_clock_iff: "wf_clock c \<longleftrightarrow> 0 < cd_period c"
  by (cases c) (simp add: wf_clock_def clock_domain_new_def)

lemma clock_derived_eq:
  "clock_derived c divider = Inr c' \<longleftrightarrow>
     0 < divider \<and> cd_period c' = cd_period c * divider \<and> 0 < cd_period c' \<and> cd_period c' < U64_RANGE"
  by (cases c') (auto simp: clock_derived_def clock_domain_new_def result_simps)

text \<open>The first multiple of the period that is not before \<open>now\<close>.\<close>

definition next_edge :: "clock_domain \<Rightarrow> tick \<Rightarrow> tick" where
  "next_edge c now = (now + cd_period c - 1) div cd_period c * cd_period c"

lemma next_edge_least:
  assumes "0 < cd_period c"
  shows "now \<le> next_edge c now" and "cd_period c dvd next_edge c now"
    and "cd_period c dvd t \<Longrightarrow> now \<le> t \<Longrightarrow> next_edge c now \<le> t"
proof -
  let ?p = "cd_period c"
  have "now + ?p - 1 < ((now + ?p - 1) div ?p + 1) * ?p"
    using dividend_less_times_div [of ?p "now + ?p - 1"] assms by (simp add: algebra_simps)
  then show "now \<le> next_edge c now" using assms by (simp add: next_edge_def algebra_simps)
  show "?p dvd next_edge c now" by (simp add: next_edge_def)
  assume "?p dvd t" and "now \<le> t"
  then obtain k where t: "t = ?p * k" by blast
  have "(now + ?p - 1) div ?p \<le> (t + ?p - 1) div ?p" using \<open>now \<le> t\<close> by (intro div_le_mono) simp
  also have "(t + ?p - 1) div ?p = k"
    using assms unfolding t by (intro div_nat_eqI) (simp_all add: algebra_simps)
  finally show "next_edge c now \<le> t" by (simp add: next_edge_def t mult.commute)
qed

lemma next_edge_aligned:
  assumes p: "0 < cd_period c"
  shows "next_edge c now = (if now mod cd_period c = 0 then now else now + (cd_period c - now mod cd_period c))"
proof -
  define p q r where d: "p = cd_period c" "q = now div cd_period c" "r = now mod cd_period c"
  have now: "now = q * p + r" and r: "r < p" using p by (simp_all add: d)
  have "(q * p + r + p - 1) div p = (if r = 0 then q else q + 1)"
    using r by (auto intro!: div_nat_eqI simp: algebra_simps)
  then have "next_edge c now = (if r = 0 then q * p else (q + 1) * p)"
    unfolding next_edge_def d(1) [symmetric] now by simp
  with r show ?thesis unfolding d(3) [symmetric] d(1) [symmetric] by (simp add: now)
qed

lemma clock_edge_eq:
  assumes "0 < cd_period c"
  shows "clock_edge c now cycles =
    (let t = next_edge c now + cycles * cd_period c
     in if t < U64_RANGE then Inr t else Inl (TickOverflow (cd_period c) cycles))"
  using assms
  by (auto simp: clock_edge_def Let_def cycles_to_ticks_def next_edge_aligned checked_add_def checked_mul_def
      mult.commute split: if_splits)

lemma ticks_to_cycles_ceil_iff:
  assumes "0 < cd_period c"
  shows "ticks_to_cycles_ceil c ticks \<le> n \<longleftrightarrow> ticks \<le> n * cd_period c"
proof (cases ticks)
  case (Suc m)
  have "m div cd_period c < n \<longleftrightarrow> m < n * cd_period c"
    using assms by (simp add: less_mult_imp_div_less div_less_iff_less_mult)
  then show ?thesis by (simp add: ticks_to_cycles_ceil_def Suc Suc_le_eq)
qed (simp add: ticks_to_cycles_ceil_def)

section \<open>The invariant of the tree\<close>

definition wf_source :: "source_clock_domain \<Rightarrow> bool" where
  "wf_source s \<longleftrightarrow> source_new (sc_domain_id s) (sc_periods s) (sc_performance_level s) = Inr s"

lemma wf_source_iff:
  "wf_source s \<longleftrightarrow> sc_periods s \<noteq> [] \<and> 0 \<notin> set (sc_periods s) \<and> sorted (sc_periods s) \<and>
     sc_performance_level s < length (sc_periods s)"
  by (cases s) (auto simp: wf_source_def source_new_def validate_performance_points_def
      validate_performance_level_def result_simps)

text \<open>Every derived domain has its parent's period times its divider, whatever levels were set.\<close>

definition clocks_consistent :: "clock_domain_tree \<Rightarrow> bool" where
  "clocks_consistent t \<longleftrightarrow> (\<forall>domain d. ct_domains t domain = Some (Derived d) \<longrightarrow>
     (\<exists>n. ct_domains t (dc_parent_id d) = Some n \<and>
       clock_derived (node_clock n) (dc_divider d) = Inr (dc_clock_domain d)))"

definition tree_shape :: "clock_domain_tree \<Rightarrow> (ClockDomainId \<Rightarrow> nat) \<Rightarrow> nat \<Rightarrow> bool" where
  "tree_shape t rank N \<longleftrightarrow>
     (\<forall>domain s. ct_domains t domain = Some (Source s) \<longrightarrow> wf_source s) \<and>
     (\<forall>p c. c \<in> set (children_of t p) \<longleftrightarrow> (\<exists>d. ct_domains t c = Some (Derived d) \<and> dc_parent_id d = p)) \<and>
     (\<forall>domain d. ct_domains t domain = Some (Derived d) \<longrightarrow> rank (dc_parent_id d) < rank domain) \<and>
     (\<forall>domain. ct_domains t domain \<noteq> None \<longrightarrow> rank domain \<le> N)"

definition tree_inv :: "clock_domain_tree \<Rightarrow> bool" where
  "tree_inv t \<longleftrightarrow> clocks_consistent t \<and> (\<exists>rank N. tree_shape t rank N)"

lemma tree_new_inv: "tree_inv tree_new"
  by (simp add: tree_inv_def clocks_consistent_def tree_shape_def tree_new_def children_of_def)

lemma insert_source_inv:
  assumes inv: "tree_inv t" and s: "wf_source s" and ins: "insert_source t s = (t', r)"
  shows "tree_inv t'"
proof (cases "\<exists>domain. sc_domain_id s = Some domain \<and> ct_domains t domain = None")
  case False
  then have "t' = t" using ins
    by (cases "sc_domain_id s") (auto simp: insert_source_def ensure_domain_absent_def split: if_splits)
  with inv show ?thesis by simp
next
  case True
  then obtain domain where d: "sc_domain_id s = Some domain" and new: "ct_domains t domain = None" by blast
  then have t': "t' = t\<lparr>ct_domains := (ct_domains t)(domain \<mapsto> Source s),
        ct_children := (ct_children t)(domain \<mapsto> children_of t domain)\<rparr>"
    using ins by (simp add: insert_source_def ensure_domain_absent_def)
  obtain rank N where shape: "tree_shape t rank N" using inv by (auto simp: tree_inv_def)
  have cons: "clocks_consistent t" using inv by (simp add: tree_inv_def)
  have "clocks_consistent t'"
    using cons new by (fastforce simp: clocks_consistent_def t')
  moreover have ch: "children_of t' p = children_of t p" for p by (simp add: t' children_of_def)
  have "tree_shape t' rank (max N (rank domain))"
    using shape new s unfolding tree_shape_def ch by (auto simp: t' le_max_iff_disj)
  ultimately show ?thesis by (auto simp: tree_inv_def)
qed

lemma insert_derived_inv:
  assumes inv: "tree_inv t" and ins: "insert_derived t domain parent divider = (t', r)"
  shows "tree_inv t'"
proof (cases r)
  case (Inl e)
  then have "t' = t" using ins by (auto simp: insert_derived_def Let_def result_simps)
  with inv show ?thesis by simp
next
  case (Inr u)
  define d where "d c = \<lparr>dc_domain_id = domain, dc_parent_id = parent, dc_divider = divider, dc_clock_domain = c\<rparr>" for c
  obtain n c where new: "ct_domains t domain = None" and n: "ct_domains t parent = Some n"
    and c: "clock_derived (node_clock n) divider = Inr c"
    and dom': "ct_domains t' = (ct_domains t)(domain \<mapsto> Derived (d c))"
    and ch': "ct_children t' = (ct_children t)(parent \<mapsto> children_of t parent @ [domain],
        domain \<mapsto> children_of (t\<lparr>ct_children := (ct_children t)(parent \<mapsto> children_of t parent @ [domain])\<rparr>) domain)"
    using ins Inr
    by (auto simp: insert_derived_def ensure_domain_absent_def tree_clock_domain_def tree_domain_def derived_new_def
        Let_def result_simps children_of_def d_def split: if_splits)
  have d: "dc_parent_id (d c) = parent" "dc_divider (d c) = divider" "dc_clock_domain (d c) = c" by (simp_all add: d_def)
  obtain rank N where shape: "tree_shape t rank N" using inv by (auto simp: tree_inv_def)
  have ne: "domain \<noteq> parent" using new n by auto
  have ch: "children_of t' p = (if p = parent then children_of t p @ [domain] else children_of t p)" for p
    using ne by (auto simp: children_of_def ch')
  have par: "dc_parent_id x \<noteq> domain" if "ct_domains t c = Some (Derived x)" for c x
    using inv that new by (fastforce simp: tree_inv_def clocks_consistent_def)
  have "clocks_consistent t'"
    using inv n c d new ne par by (fastforce simp: tree_inv_def clocks_consistent_def dom')
  moreover have "tree_shape t' (rank(domain := Suc (rank parent))) (Suc (max N (rank parent)))"
    unfolding tree_shape_def
  proof (intro conjI allI impI)
    show "wf_source s" if "ct_domains t' k = Some (Source s)" for k s
      using that shape by (auto simp: dom' tree_shape_def split: if_splits)
    show "(c \<in> set (children_of t' p)) = (\<exists>d. ct_domains t' c = Some (Derived d) \<and> dc_parent_id d = p)" for c p
      using shape new d by (auto simp: ch dom' tree_shape_def)
    show "(rank(domain := Suc (rank parent))) (dc_parent_id x) < (rank(domain := Suc (rank parent))) k"
      if "ct_domains t' k = Some (Derived x)" for k x
      using that shape d ne par by (auto simp: dom' tree_shape_def split: if_splits)
    show "(rank(domain := Suc (rank parent))) k \<le> Suc (max N (rank parent))" if "ct_domains t' k \<noteq> None" for k
      using that shape by (auto simp: dom' tree_shape_def le_max_iff_disj intro: le_SucI split: if_splits)
  qed
  ultimately show ?thesis by (auto simp: tree_inv_def)
qed


text \<open>The clock that each domain below \<open>root\<close> gets when \<open>root\<close> gets the clock \<open>rc\<close>.\<close>

inductive reclock :: "clock_domain_tree \<Rightarrow> ClockDomainId \<Rightarrow> clock_domain \<Rightarrow> ClockDomainId \<Rightarrow> clock_domain \<Rightarrow> bool"
  for t root rc where
  root: "reclock t root rc root rc"
| child: "reclock t root rc (dc_parent_id d) c \<Longrightarrow> ct_domains t domain = Some (Derived d) \<Longrightarrow>
    clock_derived c (dc_divider d) = Inr c' \<Longrightarrow> reclock t root rc domain c'"

lemma reclock_iff:
  assumes "ct_domains t root = Some (Source s)"
  shows "reclock t root rc domain c \<longleftrightarrow> domain = root \<and> c = rc \<or>
    (\<exists>d pc. ct_domains t domain = Some (Derived d) \<and> reclock t root rc (dc_parent_id d) pc \<and>
      clock_derived pc (dc_divider d) = Inr c)"
  by (subst reclock.simps) auto

lemma reclock_unique:
  assumes root: "ct_domains t root = Some (Source s)"
  shows "reclock t root rc domain c \<Longrightarrow> reclock t root rc domain c' \<Longrightarrow> c = c'"
proof (induction arbitrary: c' rule: reclock.induct)
  case root
  with assms show ?case by (subst (asm) reclock_iff [OF assms]) simp
next
  case (child d c domain c1)
  from child.prems obtain pc where "reclock t root rc (dc_parent_id d) pc" "clock_derived pc (dc_divider d) = Inr c'"
    using child.hyps(2) assms by (subst (asm) reclock_iff [OF assms]) auto
  with child.IH [of pc] child.hyps(3) show ?case by simp
qed

text \<open>The updates for all domains below \<open>cs\<close>.\<close>

definition reclocks :: "clock_domain_tree \<Rightarrow> ClockDomainId \<Rightarrow> clock_domain \<Rightarrow> ClockDomainId list \<Rightarrow>
    (ClockDomainId \<times> clock_domain) list \<Rightarrow> bool" where
  "reclocks t root rc cs U \<longleftrightarrow>
     (\<forall>(d, c) \<in> set U. reclock t root rc d c \<and> (\<exists>x. ct_domains t d = Some (Derived x))) \<and>
     set cs \<subseteq> fst ` set U \<and> (\<forall>d \<in> fst ` set U. set (children_of t d) \<subseteq> fst ` set U)"

lemma reclocks_Nil: "reclocks t root rc [] []"
  by (simp add: reclocks_def)

lemma reclocks_Cons:
  "reclock t root rc child cd \<Longrightarrow> ct_domains t child = Some (Derived d) \<Longrightarrow>
     reclocks t root rc (children_of t child) U \<Longrightarrow> reclocks t root rc cs V \<Longrightarrow>
     reclocks t root rc (child # cs) ((child, cd) # U @ V)"
  unfolding reclocks_def
  by (intro conjI; simp add: image_Un ball_Un subset_insertI2 le_supI1 le_supI2 split: prod.splits; blast)

lemma collect_children_returns:
  assumes shape: "tree_shape t rank N"
  shows "set cs \<subseteq> set (children_of t p) \<Longrightarrow> reclock t root rc p pd \<Longrightarrow>
    \<exists>r. collect_children t pd cs upd = Some r \<and>
      (\<forall>upd'. r = Inr upd' \<longrightarrow> (\<exists>U. upd' = upd @ U \<and> reclocks t root rc cs U))"
proof (induction "N - rank p" arbitrary: p pd cs upd rule: less_induct)
  case less
  from less.prems show ?case
  proof (induction cs arbitrary: upd)
    case Nil
    then show ?case by (subst collect_children.simps) (simp add: reclocks_Nil)
  next
    case (Cons child cs)
    obtain d where d: "ct_domains t child = Some (Derived d)" "dc_parent_id d = p"
      using Cons.prems(1) shape by (auto simp: tree_shape_def)
    have derived: "tree_derived t child = Inr d" by (simp add: tree_derived_def tree_domain_def d)
    show ?case
    proof (cases "clock_derived pd (dc_divider d)")
      case (Inl e)
      then show ?thesis by (subst collect_children.simps) (simp add: derived)
    next
      case (Inr cd)
      have re: "reclock t root rc child cd" using reclock.child [of t root rc d pd] Cons.prems(2) d Inr by simp
      have "rank p < rank child" "rank child \<le> N" using shape d by (auto simp: tree_shape_def)
      then have "N - rank child < N - rank p" by simp
      from less.hyps [OF this subset_refl re, of "upd @ [(child, cd)]"]
      obtain r where r: "collect_children t cd (children_of t child) (upd @ [(child, cd)]) = Some r"
        and below: "\<forall>upd'. r = Inr upd' \<longrightarrow>
          (\<exists>U. upd' = upd @ (child, cd) # U \<and> reclocks t root rc (children_of t child) U)"
        by auto
      show ?thesis
      proof (cases r)
        case (Inl e)
        then show ?thesis by (subst collect_children.simps) (simp add: derived Inr r)
      next
        case ok: (Inr upd1)
        then obtain U where U: "upd1 = upd @ (child, cd) # U" "reclocks t root rc (children_of t child) U"
          using below by blast
        have "set cs \<subseteq> set (children_of t p)" using Cons.prems(1) by simp
        from Cons.IH [OF this Cons.prems(2), of upd1]
        show ?thesis
          using reclocks_Cons [OF re d(1) U(2)]
          by (subst collect_children.simps) (fastforce simp: derived Inr r ok U(1))
      qed
    qed
  qed
qed

text \<open>The tree after the updates.\<close>

lemma apply_updates_children: "ct_children (foldl apply_update t U) = ct_children t"
  by (induction U arbitrary: t) (auto simp: apply_update_def split: option.splits ClockDomainNode.splits)

lemma apply_updates_domains:
  assumes "\<forall>(d, c) \<in> set U. F d = c \<and> (\<exists>x. ct_domains t d = Some (Derived x))"
  shows "ct_domains (foldl apply_update t U) k =
      (if k \<in> fst ` set U then map_option (\<lambda>n. case n of Derived x \<Rightarrow> Derived (x\<lparr>dc_clock_domain := F k\<rparr>) | _ \<Rightarrow> n)
         (ct_domains t k) else ct_domains t k)"
  using assms
proof (induction U arbitrary: t)
  case (Cons u U)
  obtain d c where u: "u = (d, c)" by fastforce
  obtain x where x: "ct_domains t d = Some (Derived x)" "F d = c" using Cons.prems by (auto simp: u)
  have t1: "ct_domains (apply_update t u) = (ct_domains t)(d \<mapsto> Derived (x\<lparr>dc_clock_domain := c\<rparr>))"
    by (simp add: apply_update_def u x)
  have "\<forall>(d, c) \<in> set U. F d = c \<and> (\<exists>x. ct_domains (apply_update t u) d = Some (Derived x))"
    using Cons.prems by (auto simp: t1)
  note IH = Cons.IH [OF this]
  show ?case unfolding foldl.simps IH t1 using x by (auto simp: u)
qed simp

lemma reclocks_complete:
  assumes "tree_shape t rank N" and U: "reclocks t root rc (children_of t root) U" and "reclock t root rc k c"
  shows "k = root \<or> k \<in> fst ` set U"
  using assms(3)
proof (induction rule: reclock.induct)
  case (child d c k c')
  have k: "k \<in> set (children_of t (dc_parent_id d))" using assms(1) child.hyps(2) by (auto simp: tree_shape_def)
  from child.IH show ?case
  proof
    assume "dc_parent_id d = root"
    with k U show ?case unfolding reclocks_def by blast
  next
    assume "dc_parent_id d \<in> fst ` set U"
    with k U show ?case unfolding reclocks_def by blast
  qed
qed simp

lemma reclocked_shape:
  assumes "tree_shape t rank N" and "ct_children t' = ct_children t"
    and "\<And>k s. ct_domains t' k = Some (Source s) \<Longrightarrow> wf_source s"
    and "\<And>k x. (\<exists>d. ct_domains t' k = Some (Derived d) \<and> dc_parent_id d = x) \<longleftrightarrow>
      (\<exists>d. ct_domains t k = Some (Derived d) \<and> dc_parent_id d = x)"
    and "dom (ct_domains t') = dom (ct_domains t)"
  shows "tree_shape t' rank N"
proof -
  have "children_of t' = children_of t" by (simp add: children_of_def assms(2) fun_eq_iff)
  moreover have "rank (dc_parent_id d) < rank k" if d: "ct_domains t' k = Some (Derived d)" for k d
  proof -
    obtain d' where "ct_domains t k = Some (Derived d')" "dc_parent_id d' = dc_parent_id d"
      using assms(4) [of k "dc_parent_id d"] d by blast
    with assms(1) show ?thesis by (metis tree_shape_def)
  qed
  ultimately show ?thesis using assms(1,3-) unfolding tree_shape_def by (auto simp: dom_def set_eq_iff)
qed

lemma reclocked_tree_inv:
  assumes inv: "tree_inv t" and s: "ct_domains t domain = Some (Source s)" and s': "wf_source s'"
    and U: "reclocks t domain (source_clock s') (children_of t domain) U"
  shows "tree_inv (foldl apply_update (t\<lparr>ct_domains := (ct_domains t)(domain \<mapsto> Source s')\<rparr>) U)" (is "tree_inv ?t'")
proof -
  let ?rc = "source_clock s'" and ?K = "fst ` set U"
  obtain rank N where shape: "tree_shape t rank N" using inv by (auto simp: tree_inv_def)
  define F where "F k = (THE c. reclock t domain ?rc k c)" for k
  have F: "F k = c" if "reclock t domain ?rc k c" for k c
    using reclock_unique [OF s] that by (auto simp: F_def)
  have derived: "\<exists>x. ct_domains t k = Some (Derived x)" "reclock t domain ?rc k (F k)" if "k \<in> ?K" for k
    using U F that by (auto simp: reclocks_def)
  have "domain \<notin> ?K" using derived(1) s by fastforce
  have pre: "\<forall>(d, c) \<in> set U. F d = c \<and>
      (\<exists>x. ct_domains (t\<lparr>ct_domains := (ct_domains t)(domain \<mapsto> Source s')\<rparr>) d = Some (Derived x))"
    using U F s by (fastforce simp: reclocks_def)
  have new: "ct_domains ?t' domain = Some (Source s')"
    "k \<noteq> domain \<Longrightarrow> k \<notin> ?K \<Longrightarrow> ct_domains ?t' k = ct_domains t k"
    "k \<in> ?K \<Longrightarrow> ct_domains t k = Some (Derived x) \<Longrightarrow> ct_domains ?t' k = Some (Derived (x\<lparr>dc_clock_domain := F k\<rparr>))" for k x
    using \<open>domain \<notin> ?K\<close> by (auto simp: apply_updates_domains [OF pre])
  have clock: "\<exists>n. ct_domains ?t' k = Some n \<and> node_clock n = c" if k: "reclock t domain ?rc k c" for k c
  proof (cases "k = domain")
    case True
    have "c = ?rc" using F [OF k] F [OF reclock.root] True by simp
    with True new(1) show ?thesis by (simp add: node_clock_def)
  next
    case False
    then have K: "k \<in> ?K" using reclocks_complete [OF shape U k] by simp
    with derived(1) obtain x where "ct_domains t k = Some (Derived x)" by blast
    with new(3) [OF K] F [OF k] show ?thesis by (simp add: node_clock_def)
  qed
  have same: "(\<exists>d. ct_domains ?t' k = Some (Derived d) \<and> dc_parent_id d = x) \<longleftrightarrow>
      (\<exists>d. ct_domains t k = Some (Derived d) \<and> dc_parent_id d = x)" for k x
    using new derived(1) s by (cases "k = domain"; cases "k \<in> ?K") fastforce+
  have "clocks_consistent ?t'"
    unfolding clocks_consistent_def
  proof (intro allI impI)
    fix k x' assume x': "ct_domains ?t' k = Some (Derived x')"
    show "\<exists>n. ct_domains ?t' (dc_parent_id x') = Some n \<and>
        clock_derived (node_clock n) (dc_divider x') = Inr (dc_clock_domain x')"
    proof (cases "k \<in> ?K")
      case True
      then obtain x where x: "ct_domains t k = Some (Derived x)" using derived(1) by blast
      then have x'': "x' = x\<lparr>dc_clock_domain := F k\<rparr>" using x' new(3) [OF True x] by simp
      obtain pc where "reclock t domain ?rc (dc_parent_id x) pc" "clock_derived pc (dc_divider x) = Inr (F k)"
        using derived(2) [OF True] x \<open>domain \<notin> ?K\<close> True by (subst (asm) reclock_iff [OF s]) auto
      with clock show ?thesis by (fastforce simp: x'')
    next
      case False
      have x: "ct_domains t k = Some (Derived x')" using x' new(1) new(2) [of k] False by (cases "k = domain") auto
      have "k \<in> set (children_of t (dc_parent_id x'))" using shape x by (auto simp: tree_shape_def)
      then have "dc_parent_id x' \<noteq> domain" "dc_parent_id x' \<notin> ?K" using U False unfolding reclocks_def by blast+
      with new(2) x inv show ?thesis by (auto simp: tree_inv_def clocks_consistent_def)
    qed
  qed
  moreover have "tree_shape ?t' rank N"
  proof (rule reclocked_shape [OF shape _ _ same])
    show "ct_children ?t' = ct_children t" by (simp add: apply_updates_children)
    show "wf_source x" if "ct_domains ?t' k = Some (Source x)" for k x
      using that s' shape new(1) new(2) [of k] derived(1) [of k] new(3) [of k]
      by (cases "k = domain"; cases "k \<in> ?K") (auto simp: tree_shape_def)
    show "dom (ct_domains ?t') = dom (ct_domains t)"
      using s by (auto simp: apply_updates_domains [OF pre] dom_def set_eq_iff split: if_splits)
  qed
  ultimately show ?thesis by (auto simp: tree_inv_def)
qed


lemma set_level_inv:
  assumes inv: "tree_inv t"
  shows "\<exists>t' r. set_source_performance_level t domain level = Some (t', r) \<and> tree_inv t' \<and> (\<forall>e. r = Inl e \<longrightarrow> t' = t)"
proof (cases "\<exists>s. ct_domains t domain = Some (Source s) \<and> level < length (sc_periods s) \<and> level \<noteq> sc_performance_level s")
  case False
  then have "\<exists>r. set_source_performance_level t domain level = Some (t, r)"
    by (auto simp: set_source_performance_level_def tree_source_def tree_domain_def validate_performance_level_def
        ok_or_def res_bind_def split: option.splits ClockDomainNode.splits sum.splits)
  with inv show ?thesis by auto
next
  case True
  then obtain s where s: "ct_domains t domain = Some (Source s)" "level < length (sc_periods s)"
    "level \<noteq> sc_performance_level s" by blast
  obtain rank N where shape: "tree_shape t rank N" using inv by (auto simp: tree_inv_def)
  define s' where "s' = s\<lparr>sc_performance_level := level\<rparr>"
  have wf: "wf_source s" "wf_source s'" using shape s by (auto simp: tree_shape_def wf_source_iff s'_def)
  have rc: "res_bind (period_at_performance_level s level) clock_domain_new = Inr (source_clock s')"
    using wf s by (auto simp: period_at_performance_level_def validate_performance_level_def clock_domain_new_def
        source_clock_def source_period_def s'_def wf_source_iff in_set_conv_nth)
  have "\<exists>r. collect_children t (source_clock s') (children_of t domain) [] = Some r \<and> (\<forall>upd'. r = Inr upd' \<longrightarrow>
      (\<exists>U. upd' = [] @ U \<and> reclocks t domain (source_clock s') (children_of t domain) U))"
    by (rule collect_children_returns [OF shape subset_refl reclock.root])
  then obtain r where r: "collect_derived_updates t domain (source_clock s') = Some r"
    and upd: "\<forall>U. r = Inr U \<longrightarrow> reclocks t domain (source_clock s') (children_of t domain) U"
    by (auto simp: collect_derived_updates_def)
  have "set_source_performance_level t domain level = Some (case r of Inl e \<Rightarrow> (t, Inl e)
      | Inr U \<Rightarrow> (foldl apply_update (t\<lparr>ct_domains := (ct_domains t)(domain \<mapsto> Source s')\<rparr>) U, Inr True))"
    using s rc r by (cases r) (simp_all add: set_source_performance_level_def tree_source_def tree_domain_def
        validate_performance_level_def set_performance_level_def s'_def)
  then show ?thesis
    using inv upd reclocked_tree_inv [OF inv s(1) wf(2)] by (cases r) auto
qed

text \<open>Trees as the operations build them.\<close>

inductive tree_built :: "clock_domain_tree \<Rightarrow> bool" where
  new: "tree_built tree_new"
| source: "tree_built t \<Longrightarrow> source_new domain periods level = Inr s \<Longrightarrow> tree_built (fst (insert_source t s))"
| derived: "tree_built t \<Longrightarrow> tree_built (fst (insert_derived t domain parent divider))"
| level: "tree_built t \<Longrightarrow> set_source_performance_level t domain level = Some (t', r) \<Longrightarrow> tree_built t'"

lemma source_new_wf: "source_new domain periods level = Inr s \<Longrightarrow> wf_source s"
  by (auto simp: source_new_def wf_source_def result_simps)

lemma tree_built_inv: "tree_built t \<Longrightarrow> tree_inv t"
proof (induction rule: tree_built.induct)
  case (source t domain periods level s)
  then show ?case using insert_source_inv source_new_wf by (metis prod.collapse)
next
  case (derived t domain parent divider)
  then show ?case using insert_derived_inv by (metis prod.collapse)
next
  case (level t domain level t' r)
  then show ?case using set_level_inv [of t domain level] by auto
qed (rule tree_new_inv)

section \<open>Properties\<close>

text \<open>
  C29. Clock edges.  The edge after \<open>cycles\<close> cycles is the least multiple of the period that is not
  before \<open>now\<close>, plus that many periods; it is refused exactly when it does not fit in 64 bits.
\<close>

theorem clock_edge_correct:
  assumes "clock_domain_new period = Inr c"
  shows "clock_edge c now cycles =
      (let t = (LEAST e. period dvd e \<and> now \<le> e) + cycles * period
       in if t < U64_RANGE then Inr t else Inl (TickOverflow period cycles))"
proof -
  have p: "cd_period c = period" "0 < cd_period c" using assms by (auto simp: clock_domain_new_def split: if_splits)
  have "(LEAST e. period dvd e \<and> now \<le> e) = next_edge c now"
    using next_edge_least [OF p(2)] p(1) by (intro Least_equality) auto
  then show ?thesis by (simp only: clock_edge_eq [OF p(2)] p(1))
qed

theorem clock_edge_correct_witness:
  "clock_edge \<lparr>cd_period = 10\<rparr> 25 2 = Inr 50 \<and> (LEAST e. (10 :: nat) dvd e \<and> 25 \<le> e) = 30"
proof -
  have c: "clock_domain_new 10 = Inr \<lparr>cd_period = 10\<rparr>" by (simp add: clock_domain_new_def)
  have e: "clock_edge \<lparr>cd_period = 10\<rparr> 25 2 = Inr 50"
    by (simp add: clock_edge_def cycles_to_ticks_def checked_add_def checked_mul_def)
  then show ?thesis using clock_edge_correct [OF c, of 25 2] by (auto simp: Let_def split: if_splits)
qed

text \<open>
  C30. The clock tree stays consistent.  In every tree that the operations build, whatever levels were
  set: changing the level of a source ends, a refused change leaves the tree as it was, and in the
  resulting tree every derived domain is registered under a parent and has exactly the parent's period
  times its divider.
\<close>

theorem clock_tree_consistent:
  assumes "tree_built t"
  shows "\<exists>t' r. set_source_performance_level t domain level = Some (t', r) \<and> (\<forall>e. r = Inl e \<longrightarrow> t' = t) \<and>
    (\<forall>k d. ct_domains t' k = Some (Derived d) \<longrightarrow>
      (\<exists>n. ct_domains t' (dc_parent_id d) = Some n \<and>
        cd_period (dc_clock_domain d) = cd_period (node_clock n) * dc_divider d))"
  using set_level_inv [OF tree_built_inv [OF assms], of domain level]
  by (fastforce simp: tree_inv_def clocks_consistent_def clock_derived_eq)

definition example_clock_tree :: clock_domain_tree where
  "example_clock_tree =
     fst (insert_derived (fst (insert_source tree_new
       \<lparr>sc_domain_id = Some 1, sc_periods = [10, 20], sc_performance_level = 0\<rparr>)) 2 1 3)"

theorem clock_tree_consistent_witness:
  "tree_built example_clock_tree \<and>
    (\<exists>t' r d. set_source_performance_level example_clock_tree 1 1 = Some (t', r) \<and>
      ct_domains t' 2 = Some (Derived d) \<and> cd_period (dc_clock_domain d) = 60)"
proof -
  let ?s = "\<lparr>sc_domain_id = Some 1, sc_periods = [10, 20], sc_performance_level = 0\<rparr>"
  have s: "source_new (Some 1) [10, 20] 0 = Inr ?s"
    by (simp add: source_new_def validate_performance_points_def validate_performance_level_def)
  have built: "tree_built example_clock_tree"
    unfolding example_clock_tree_def by (intro tree_built.derived tree_built.source [OF _ s] tree_built.new)
  obtain t' r where step: "set_source_performance_level example_clock_tree 1 1 = Some (t', r)"
    and cons: "\<forall>k d. ct_domains t' k = Some (Derived d) \<longrightarrow>
      (\<exists>n. ct_domains t' (dc_parent_id d) = Some n \<and>
        cd_period (dc_clock_domain d) = cd_period (node_clock n) * dc_divider d)"
    using clock_tree_consistent [OF built, of 1 1] by blast
  have "\<exists>d. ct_domains t' 2 = Some (Derived d) \<and> dc_parent_id d = 1 \<and> dc_divider d = 3 \<and>
      ct_domains t' 1 = Some (Source (?s\<lparr>sc_performance_level := 1\<rparr>))"
    using step
    by (simp add: example_clock_tree_def insert_derived_def insert_source_def tree_new_def ensure_domain_absent_def
        tree_clock_domain_def tree_domain_def derived_new_def clock_derived_def clock_domain_new_def node_clock_def
        source_clock_def source_period_def children_of_def set_source_performance_level_def tree_source_def
        validate_performance_level_def period_at_performance_level_def collect_derived_updates_def Let_def
        collect_children.simps tree_derived_def apply_update_def set_performance_level_def checked_mul_def
        split: if_splits) auto
  with step cons built show ?thesis by (fastforce simp: node_clock_def source_clock_def source_period_def)
qed

end
