(* ===== verification/Event_Queue.thy ===== *)
theory Event_Queue
  imports Clock "HOL-Library.Product_Lexorder" "HOL-Library.Multiset"
begin

text \<open>
  The event queue of the simulation kernel, \<^verbatim>\<open>crates/rem6-kernel/src/event.rs\<close>, and the priority
  queue under it.  Rust's \<open>BinaryHeap\<close> is a list of entries from which the least key is taken; its
  internal order is not observable, since the keys of the entries differ.
\<close>

section \<open>The heap\<close>

definition heap_peek :: "('a \<Rightarrow> 'k::linorder) \<Rightarrow> 'a list \<Rightarrow> 'a option" where
  "heap_peek key xs = (if xs = [] then None else Some (arg_min_list key xs))"

definition heap_pop :: "('a \<Rightarrow> 'k::linorder) \<Rightarrow> 'a list \<Rightarrow> ('a \<times> 'a list) option" where
  "heap_pop key xs = map_option (\<lambda>x. (x, remove1 x xs)) (heap_peek key xs)"

lemma heap_peek_None [simp]: "heap_peek key xs = None \<longleftrightarrow> xs = []"
  by (simp add: heap_peek_def)

lemma heap_peek_SomeD:
  assumes "heap_peek key xs = Some x"
  shows "x \<in> set xs" and "y \<in> set xs \<Longrightarrow> key x \<le> key y"
  using assms by (auto simp: heap_peek_def arg_min_list_in f_arg_min_list_f split: if_splits)

lemma heap_pop_None [simp]: "heap_pop key xs = None \<longleftrightarrow> xs = []"
  by (simp add: heap_pop_def)

lemma heap_Nil [simp]: "heap_peek key [] = None" "heap_pop key [] = None"
  by simp_all

lemma heap_pop_SomeD:
  assumes "heap_pop key xs = Some (x, ys)"
  shows "x \<in> set xs" and "y \<in> set xs \<Longrightarrow> key x \<le> key y" and "ys = remove1 x xs"
    and "mset xs = add_mset x (mset ys)" and "length ys < length xs"
proof -
  have x: "heap_peek key xs = Some x" and ys: "ys = remove1 x xs" using assms by (auto simp: heap_pop_def)
  show mem: "x \<in> set xs" and "y \<in> set xs \<Longrightarrow> key x \<le> key y" by (rule heap_peek_SomeD [OF x], assumption?)+
  show "ys = remove1 x xs" by (rule ys)
  show "mset xs = add_mset x (mset ys)" using mem by (simp add: ys)
  then have "size (mset xs) = size (add_mset x (mset ys))" by (rule arg_cong)
  then show "length ys < length xs" by simp
qed

text \<open>Taking the entries out one by one sorts them.\<close>

function heap_drain :: "('a \<Rightarrow> 'k::linorder) \<Rightarrow> 'a list \<Rightarrow> 'a list" where
  "heap_drain key xs = (case heap_pop key xs of None \<Rightarrow> [] | Some (x, ys) \<Rightarrow> x # heap_drain key ys)"
  by pat_completeness auto
termination
  by (relation "measure (\<lambda>(key, xs). length xs)") (auto dest: heap_pop_SomeD(5))

declare heap_drain.simps [simp del]

lemma heap_drain_Nil [simp]: "heap_drain key [] = []"
  by (simp add: heap_drain.simps)

lemma heap_drain_sorts:
  "mset (heap_drain key xs) = mset xs \<and> sorted (map key (heap_drain key xs))"
proof (induction key xs rule: heap_drain.induct)
  case (1 key xs)
  show ?case
  proof (cases "heap_pop key xs")
    case None
    then have "heap_drain key xs = []" by (subst heap_drain.simps) (simp only: option.case)
    with None show ?thesis by simp
  next
    case (Some p)
    obtain x ys where p: "p = (x, ys)" by fastforce
    note pop = heap_pop_SomeD [OF Some [unfolded p]]
    have IH: "mset (heap_drain key ys) = mset ys" "sorted (map key (heap_drain key ys))"
      using 1 [OF Some p [symmetric]] by simp_all
    have "set (heap_drain key ys) = set ys" using mset_eq_setD [OF IH(1)] .
    then have "\<forall>y \<in> set (heap_drain key ys). key x \<le> key y"
      using pop(2,3) by (auto dest: notin_set_remove1)
    then show ?thesis using IH pop(4) Some p by (simp add: heap_drain.simps [of key xs])
  qed
qed

lemma sort_key_unique:
  assumes inj: "inj_on key (set xs)" and m: "mset ys = mset xs" and "sorted (map key ys)"
  shows "ys = sort_key key xs"
proof (rule properties_for_sort_key [symmetric, OF m _ assms(3)])
  have set: "set ys = set xs" using m by (rule mset_eq_setD)
  fix k assume k: "k \<in> set ys"
  have "filter (\<lambda>y. key k = key y) zs = filter ((=) k) zs" if "set zs = set xs" for zs
    using that inj k set by (intro filter_cong) (auto dest: inj_onD)
  then show "filter (\<lambda>y. key k = key y) ys = filter (\<lambda>y. key k = key y) xs"
    using set m by (metis replicate_count_mset_eq_filter_eq)
qed

lemma heap_drain_sort_key: "inj_on key (set xs) \<Longrightarrow> heap_drain key xs = sort_key key xs"
  using heap_drain_sorts [of key xs] by (intro sort_key_unique) simp_all

text \<open>Entries that arrive with increasing second keys are sorted stably by the first key.\<close>

lemma insort_key_increasing:
  assumes "sorted_wrt (\<lambda>x y. f x < f y \<or> f x = f y \<and> g x < g y) ys" and "\<forall>y \<in> set ys. g x < g y"
  shows "sorted_wrt (\<lambda>x y. f x < f y \<or> f x = f y \<and> g x < g y) (insort_key f x ys)"
  using assms by (induction ys) (auto simp: set_insort_key)

lemma sort_key_increasing:
  assumes "sorted_wrt (\<lambda>x y. g x < g y) xs"
  shows "sorted_wrt (\<lambda>x y. f x < f y \<or> f x = f y \<and> g x < g y) (sort_key f xs)"
  using assms by (induction xs) (simp_all add: insort_key_increasing)

lemma sort_key_stable_order:
  fixes f :: "'a \<Rightarrow> 'k::linorder" and g :: "'a \<Rightarrow> 'l::linorder" and h :: "'a \<Rightarrow> 'm::linorder"
  assumes "sorted_wrt (\<lambda>x y. g x < g y) xs"
  shows "sort_key (\<lambda>x. (f x, g x, h x)) xs = sort_key f xs"
proof (rule sort_key_unique [symmetric])
  have "distinct (map g xs)" using assms by (simp add: strict_sorted_iff sorted_wrt_map flip: sorted_wrt_map)
  then have "inj_on g (set xs)" by (simp add: distinct_map)
  then show "inj_on (\<lambda>x. (f x, g x, h x)) (set xs)" by (auto simp: inj_on_def)
  show "sorted (map (\<lambda>x. (f x, g x, h x)) (sort_key f xs))"
    unfolding sorted_map using sort_key_increasing [OF assms, of f]
    by (rule sorted_wrt_mono_rel [rotated]) (auto simp: less_eq_prod_def)
qed simp

section \<open>The queue\<close>

record 'c scheduled_event =
  ev_tick :: tick
  ev_order :: nat
  ev_id :: nat
  ev_callback :: 'c

definition event_key :: "'c scheduled_event \<Rightarrow> tick \<times> nat \<times> nat" where
  "event_key e = (ev_tick e, ev_order e, ev_id e)"

record 'c event_queue =
  eq_now :: tick
  eq_next_id :: nat
  eq_next_order :: nat
  eq_pending :: "'c scheduled_event list"

datatype ScheduleError = InThePast tick tick | ScheduleTickOverflow tick tick

datatype ClockScheduleError = ClockFailed ClockError | ScheduleFailed ScheduleError

definition queue_new :: "'c event_queue" where
  "queue_new = \<lparr>eq_now = 0, eq_next_id = 0, eq_next_order = 0, eq_pending = []\<rparr>"

definition queue_schedule_at :: "'c event_queue \<Rightarrow> tick \<Rightarrow> 'c \<Rightarrow> ('c event_queue, ScheduleError, nat) outcome" where
  "queue_schedule_at q t callback =
    (if t < eq_now q then (q, Inl (InThePast (eq_now q) t))
     else
       (q\<lparr>eq_next_id := eq_next_id q + 1, eq_next_order := eq_next_order q + 1,
          eq_pending := eq_pending q @
            [\<lparr>ev_tick = t, ev_order = eq_next_order q, ev_id = eq_next_id q, ev_callback = callback\<rparr>]\<rparr>,
        Inr (eq_next_id q)))"

definition queue_schedule_after ::
  "'c event_queue \<Rightarrow> tick \<Rightarrow> 'c \<Rightarrow> ('c event_queue, ScheduleError, nat) outcome" where
  "queue_schedule_after q delay callback =
     st_try q (ok_or (ScheduleTickOverflow (eq_now q) delay) (checked_add (eq_now q) delay)) (\<lambda>t.
     queue_schedule_at q t callback)"

definition queue_schedule_at_clock_edge ::
  "'c event_queue \<Rightarrow> clock_domain \<Rightarrow> nat \<Rightarrow> 'c \<Rightarrow> ('c event_queue, ClockScheduleError, nat) outcome" where
  "queue_schedule_at_clock_edge q domain cycles callback =
     st_try q (map_err ClockFailed (clock_edge domain (eq_now q) cycles)) (\<lambda>t.
     map_prod id (map_err ScheduleFailed) (queue_schedule_at q t callback))"

text \<open>
  The callbacks take the tick only and cannot reach the queue, so the run is the list of calls it makes.
\<close>

function queue_run_until_empty :: "'c event_queue \<Rightarrow> 'c event_queue \<times> (tick \<times> 'c) list" where
  "queue_run_until_empty q =
    (case heap_pop event_key (eq_pending q) of
       None \<Rightarrow> (q, [])
     | Some (e, rest) \<Rightarrow>
         map_prod id (\<lambda>calls. (ev_tick e, ev_callback e) # calls)
           (queue_run_until_empty (q\<lparr>eq_pending := rest, eq_now := ev_tick e\<rparr>)))"
  by pat_completeness auto
termination
  by (relation "measure (\<lambda>q. length (eq_pending q))") (auto dest: heap_pop_SomeD(5))

declare queue_run_until_empty.simps [simp del]

section \<open>The order of the calls\<close>

lemma queue_run_drain:
  "queue_run_until_empty q =
    (let es = heap_drain event_key (eq_pending q)
     in (q\<lparr>eq_pending := [], eq_now := (if es = [] then eq_now q else ev_tick (last es))\<rparr>,
         map (\<lambda>e. (ev_tick e, ev_callback e)) es))"
proof (induction q rule: queue_run_until_empty.induct)
  case (1 q)
  show ?case
  proof (cases "heap_pop event_key (eq_pending q)")
    case None
    then have "eq_pending q = []" by simp
    then show ?thesis
      by (cases q) (simp add: queue_run_until_empty.simps)
  next
    case (Some p)
    obtain e rest where p: "p = (e, rest)" by fastforce
    note eq = queue_run_until_empty.simps [of q, unfolded Some p] heap_drain.simps [of event_key "eq_pending q", unfolded Some p]
    show ?thesis using 1 [OF Some p [symmetric]] by (simp add: eq Let_def)
  qed
qed

text \<open>
  The pending events in the order in which they were scheduled: the orders and identifiers increase
  along the list and no event is in the past.
\<close>

definition queue_inv :: "'c event_queue \<Rightarrow> bool" where
  "queue_inv q \<longleftrightarrow> sorted_wrt (\<lambda>x y. ev_order x < ev_order y) (eq_pending q) \<and>
     (\<forall>e \<in> set (eq_pending q). eq_now q \<le> ev_tick e \<and> ev_order e < eq_next_order q \<and> ev_id e = ev_order e) \<and>
     eq_next_id q = eq_next_order q"

inductive queue_built :: "'c event_queue \<Rightarrow> bool" where
  new: "queue_built queue_new"
| schedule: "queue_built q \<Longrightarrow> queue_built (fst (queue_schedule_at q t c))"
| run: "queue_built q \<Longrightarrow> queue_built (fst (queue_run_until_empty q))"

lemma queue_built_inv: "queue_built q \<Longrightarrow> queue_inv q"
proof (induction rule: queue_built.induct)
  case (schedule q t c)
  then show ?case by (fastforce simp: queue_schedule_at_def queue_inv_def sorted_wrt_append)
next
  case (run q)
  then show ?case by (simp add: queue_run_drain Let_def queue_inv_def)
qed (simp add: queue_new_def queue_inv_def)

lemma queue_run_stable:
  assumes "queue_inv q"
  shows "snd (queue_run_until_empty q) = map (\<lambda>e. (ev_tick e, ev_callback e)) (sort_key ev_tick (eq_pending q))"
proof -
  have s: "sorted_wrt (\<lambda>x y. ev_order x < ev_order y) (eq_pending q)" using assms by (simp add: queue_inv_def)
  have "distinct (map ev_order (eq_pending q))" using s by (simp add: strict_sorted_iff sorted_wrt_map flip: sorted_wrt_map)
  then have "inj_on event_key (set (eq_pending q))" by (auto simp: distinct_map event_key_def inj_on_def)
  then have "heap_drain event_key (eq_pending q) = sort_key event_key (eq_pending q)" by (rule heap_drain_sort_key)
  also have "\<dots> = sort_key ev_tick (eq_pending q)"
    unfolding event_key_def by (rule sort_key_stable_order [OF s])
  finally show ?thesis by (simp add: queue_run_drain Let_def)
qed

section \<open>Properties\<close>



end
