(* ===== verification/Wait_For.thy ===== *)
theory Wait_For
  imports Rem6_Prelude "HOL-Library.Char_ord" "HOL-Library.List_Lexorder" "HOL-Library.Product_Lexorder"
begin

text \<open>
  The wait-for graph of the simulation kernel, \<^verbatim>\<open>crates/rem6-kernel/src/wait_for.rs\<close>: who waits for
  whom, observation windows over the waits, and the depth-first search that reports a deadlock.
\<close>

section \<open>Nodes and edges\<close>

text \<open>The index of a scheduler partition.\<close>

type_synonym PartitionId = nat

datatype WaitForNode =
    Partition PartitionId
  | Component string
  | Resource string
  | Transaction string

datatype WaitForEdgeKind =
    ResourceWait
  | Message
  | Protocol
  | Queue
  | Credit
  | HostAction
  | Barrier

text \<open>The derived orders: by variant, then by payload.\<close>

fun node_key :: "WaitForNode \<Rightarrow> nat \<times> nat \<times> string" where
  "node_key (Partition p) = (0, p, [])"
| "node_key (Component label) = (1, 0, label)"
| "node_key (Resource label) = (2, 0, label)"
| "node_key (Transaction label) = (3, 0, label)"

fun kind_key :: "WaitForEdgeKind \<Rightarrow> nat" where
  "kind_key ResourceWait = 0"
| "kind_key Message = 1"
| "kind_key Protocol = 2"
| "kind_key Queue = 3"
| "kind_key Credit = 4"
| "kind_key HostAction = 5"
| "kind_key Barrier = 6"

lemma node_key_inj: "node_key a = node_key b \<Longrightarrow> a = b"
  by (cases a; cases b) auto

lemma kind_key_inj: "kind_key a = kind_key b \<Longrightarrow> a = b"
  by (cases a; cases b) simp_all

instantiation WaitForNode :: linorder
begin

definition less_eq_WaitForNode :: "WaitForNode \<Rightarrow> WaitForNode \<Rightarrow> bool" where
  "less_eq_WaitForNode a b \<longleftrightarrow> node_key a \<le> node_key b"

definition less_WaitForNode :: "WaitForNode \<Rightarrow> WaitForNode \<Rightarrow> bool" where
  "less_WaitForNode a b \<longleftrightarrow> node_key a < node_key b"

instance
  by standard (auto simp: less_eq_WaitForNode_def less_WaitForNode_def dest: node_key_inj)

end

instantiation WaitForEdgeKind :: linorder
begin

definition less_eq_WaitForEdgeKind :: "WaitForEdgeKind \<Rightarrow> WaitForEdgeKind \<Rightarrow> bool" where
  "less_eq_WaitForEdgeKind a b \<longleftrightarrow> kind_key a \<le> kind_key b"

definition less_WaitForEdgeKind :: "WaitForEdgeKind \<Rightarrow> WaitForEdgeKind \<Rightarrow> bool" where
  "less_WaitForEdgeKind a b \<longleftrightarrow> kind_key a < kind_key b"

instance
  by standard (auto simp: less_eq_WaitForEdgeKind_def less_WaitForEdgeKind_def dest: kind_key_inj)

end

datatype WaitForGraphError =
    EmptyNodeLabel
  | InvalidNodeLabel string
  | SelfWait

definition label_char :: "char \<Rightarrow> bool" where
  "label_char c \<longleftrightarrow>
     CHR ''0'' \<le> c \<and> c \<le> CHR ''9'' \<or> CHR ''A'' \<le> c \<and> c \<le> CHR ''Z'' \<or> CHR ''a'' \<le> c \<and> c \<le> CHR ''z'' \<or>
     c \<in> {CHR ''.'', CHR ''_'', CHR ''-'', CHR '':''}"

definition validate_label :: "string \<Rightarrow> WaitForGraphError + string" where
  "validate_label label =
    (if label = [] then Inl EmptyNodeLabel
     else if \<not> list_all label_char label then Inl (InvalidNodeLabel label)
     else Inr label)"

definition node_component :: "string \<Rightarrow> WaitForGraphError + WaitForNode" where
  "node_component label = map_ok Component (validate_label label)"

definition node_resource :: "string \<Rightarrow> WaitForGraphError + WaitForNode" where
  "node_resource label = map_ok Resource (validate_label label)"

definition node_checkpoint_barrier :: "string \<Rightarrow> WaitForGraphError + WaitForNode" where
  "node_checkpoint_barrier label =
     map_ok (\<lambda>label. Resource (''checkpoint_barrier:'' @ label)) (validate_label label)"

definition node_transaction :: "string \<Rightarrow> WaitForGraphError + WaitForNode" where
  "node_transaction label = map_ok Transaction (validate_label label)"

record wait_for_edge =
  we_source :: WaitForNode
  we_target :: WaitForNode
  we_kind :: WaitForEdgeKind
  we_first_observed_tick :: tick
  we_last_observed_tick :: tick
  we_observation_count :: nat

definition edge_new :: "WaitForNode \<Rightarrow> WaitForNode \<Rightarrow> WaitForEdgeKind \<Rightarrow> tick \<Rightarrow> wait_for_edge" where
  "edge_new source target kind t =
     \<lparr>we_source = source, we_target = target, we_kind = kind, we_first_observed_tick = t,
      we_last_observed_tick = t, we_observation_count = 1\<rparr>"

definition edge_observe :: "tick \<Rightarrow> wait_for_edge \<Rightarrow> wait_for_edge" where
  "edge_observe t e =
     e\<lparr>we_first_observed_tick := min (we_first_observed_tick e) t,
       we_last_observed_tick := max (we_last_observed_tick e) t,
       we_observation_count := we_observation_count e + 1\<rparr>"

section \<open>Observation windows\<close>

text \<open>
  The windows by edge kind, by blocked node and by target node differ in the grouping key only;
  \<open>'k\<close> is that key.
\<close>

record 'k wait_for_window =
  ww_key :: 'k
  ww_edge_count :: nat
  ww_first_tick :: tick
  ww_last_tick :: tick

definition window_new :: "'k \<Rightarrow> nat \<Rightarrow> tick \<Rightarrow> tick \<Rightarrow> 'k wait_for_window" where
  "window_new key edge_count first_tick last_tick =
     \<lparr>ww_key = key, ww_edge_count = edge_count,
      ww_first_tick = (if first_tick \<le> last_tick then first_tick else last_tick),
      ww_last_tick = (if first_tick \<le> last_tick then last_tick else first_tick)\<rparr>"

definition window_merge :: "'k wait_for_window \<Rightarrow> 'k wait_for_window \<Rightarrow> 'k wait_for_window" where
  "window_merge w other =
     w\<lparr>ww_edge_count := saturating_add (ww_edge_count w) (ww_edge_count other),
       ww_first_tick := min (ww_first_tick w) (ww_first_tick other),
       ww_last_tick := max (ww_last_tick w) (ww_last_tick other)\<rparr>"

fun windows_loop ::
  "(wait_for_edge \<Rightarrow> 'k) \<Rightarrow> ('k \<rightharpoonup> 'k wait_for_window) \<Rightarrow> wait_for_edge list \<Rightarrow> ('k \<rightharpoonup> 'k wait_for_window)" where
  "windows_loop key by_key [] = by_key"
| "windows_loop key by_key (e # es) =
    (let window = window_new (key e) 1 (we_first_observed_tick e) (we_last_observed_tick e)
     in windows_loop key (by_key(key e \<mapsto>
          (case by_key (key e) of None \<Rightarrow> window | Some stored \<Rightarrow> window_merge stored window))) es)"

definition windows_from_edges ::
  "(wait_for_edge \<Rightarrow> 'k::linorder) \<Rightarrow> wait_for_edge list \<Rightarrow> 'k wait_for_window list" where
  "windows_from_edges key es =
    (let by_key = windows_loop key Map.empty es
     in map (\<lambda>k. the (by_key k)) (sorted_list_of_set (dom by_key)))"

section \<open>The graph\<close>

type_synonym wait_for_edge_key = "WaitForNode \<times> WaitForNode \<times> WaitForEdgeKind"

record wait_for_graph =
  wg_edges :: "wait_for_edge_key \<rightharpoonup> wait_for_edge"

definition graph_new :: wait_for_graph where
  "graph_new = \<lparr>wg_edges = Map.empty\<rparr>"

definition record_wait ::
  "wait_for_graph \<Rightarrow> WaitForNode \<Rightarrow> WaitForNode \<Rightarrow> WaitForEdgeKind \<Rightarrow> tick \<Rightarrow>
   (wait_for_graph, WaitForGraphError, unit) outcome" where
  "record_wait g source target kind t =
    (if source = target then (g, Inl SelfWait)
     else
       let key = (source, target, kind)
       in (g\<lparr>wg_edges := (wg_edges g)(key \<mapsto>
             (case wg_edges g key of
                Some e \<Rightarrow> edge_observe t e
              | None \<Rightarrow> edge_new source target kind t))\<rparr>, Inr ()))"

definition remove_wait ::
  "wait_for_graph \<Rightarrow> WaitForNode \<Rightarrow> WaitForNode \<Rightarrow> WaitForEdgeKind \<Rightarrow> wait_for_graph \<times> bool" where
  "remove_wait g source target kind =
     (g\<lparr>wg_edges := (wg_edges g)((source, target, kind) := None)\<rparr>, wg_edges g (source, target, kind) \<noteq> None)"

definition retain_edges :: "(wait_for_edge_key \<Rightarrow> bool) \<Rightarrow> wait_for_graph \<Rightarrow> wait_for_graph \<times> nat" where
  "retain_edges keep g =
    (let g' = g\<lparr>wg_edges := (\<lambda>key. if keep key then wg_edges g key else None)\<rparr>
     in (g', card (dom (wg_edges g)) - card (dom (wg_edges g'))))"

definition clear_waits_from :: "wait_for_graph \<Rightarrow> WaitForNode \<Rightarrow> wait_for_graph \<times> nat" where
  "clear_waits_from g source = retain_edges (\<lambda>(s, _, _). s \<noteq> source) g"

definition clear_waits_to :: "wait_for_graph \<Rightarrow> WaitForNode \<Rightarrow> wait_for_graph \<times> nat" where
  "clear_waits_to g target = retain_edges (\<lambda>(_, t, _). t \<noteq> target) g"

definition graph_edges :: "wait_for_graph \<Rightarrow> wait_for_edge list" where
  "graph_edges g = map (\<lambda>key. the (wg_edges g key)) (sorted_list_of_set (dom (wg_edges g)))"

definition dependencies :: "wait_for_graph \<Rightarrow> WaitForNode \<Rightarrow> wait_for_edge list" where
  "dependencies g source =
     map (\<lambda>key. the (wg_edges g key))
       (filter (\<lambda>(s, _, _). s = source) (sorted_list_of_set (dom (wg_edges g))))"

definition dependents :: "wait_for_graph \<Rightarrow> WaitForNode \<Rightarrow> wait_for_edge list" where
  "dependents g target =
     map (\<lambda>key. the (wg_edges g key))
       (filter (\<lambda>(_, t, _). t = target) (sorted_list_of_set (dom (wg_edges g))))"

definition blocked_nodes :: "wait_for_graph \<Rightarrow> WaitForNode list" where
  "blocked_nodes g = sorted_list_of_set (fst ` dom (wg_edges g))"

definition graph_nodes :: "wait_for_graph \<Rightarrow> WaitForNode list" where
  "graph_nodes g =
     sorted_list_of_set (\<Union>e \<in> set (graph_edges g). {we_source e, we_target e})"

definition edge_kind_windows :: "wait_for_graph \<Rightarrow> WaitForEdgeKind wait_for_window list" where
  "edge_kind_windows g = windows_from_edges we_kind (graph_edges g)"

definition blocked_node_windows :: "wait_for_graph \<Rightarrow> WaitForNode wait_for_window list" where
  "blocked_node_windows g = windows_from_edges we_source (graph_edges g)"

definition target_node_windows :: "wait_for_graph \<Rightarrow> WaitForNode wait_for_window list" where
  "target_node_windows g = windows_from_edges we_target (graph_edges g)"

section \<open>Deadlock search\<close>

record deadlock_diagnostic =
  dd_cycle_edges :: "wait_for_edge list"
  dd_cycle_nodes :: "WaitForNode list"
  dd_edge_kinds :: "WaitForEdgeKind list"
  dd_first_observed_tick :: tick
  dd_last_observed_tick :: tick

definition diagnostic_new :: "wait_for_edge list \<Rightarrow> deadlock_diagnostic" where
  "diagnostic_new es =
     \<lparr>dd_cycle_edges = es,
      dd_cycle_nodes = (case es of [] \<Rightarrow> [] | e # _ \<Rightarrow> we_source e # map we_target es),
      dd_edge_kinds = map we_kind es,
      dd_first_observed_tick = (if es = [] then 0 else Min (set (map we_first_observed_tick es))),
      dd_last_observed_tick = (if es = [] then 0 else Max (set (map we_last_observed_tick es)))\<rparr>"

fun position :: "'a \<Rightarrow> 'a list \<Rightarrow> nat option" where
  "position x [] = None"
| "position x (y # ys) = (if y = x then Some 0 else map_option Suc (position x ys))"

text \<open>
  The loop of \<open>find_cycle_from\<close> over the dependencies of the last node of the path, with the recursive
  call written out: a finished target is skipped, any other is searched with the path extended.
  \<open>None\<close> stands for a search that does not end.
\<close>

partial_function (option) cycle_loop ::
  "wait_for_graph \<Rightarrow> WaitForNode list \<Rightarrow> wait_for_edge list \<Rightarrow> WaitForNode set \<Rightarrow> wait_for_edge list \<Rightarrow>
   (wait_for_edge list option \<times> WaitForNode set) option" where
  "cycle_loop g path_nodes path_edges finished es =
    (case es of
       [] \<Rightarrow> Some (None, finished)
     | e # rest \<Rightarrow>
         (case position (we_target e) path_nodes of
            Some index \<Rightarrow> Some (Some (drop index path_edges @ [e]), finished)
          | None \<Rightarrow>
              if we_target e \<in> finished then cycle_loop g path_nodes path_edges finished rest
              else
                Option.bind
                  (cycle_loop g (path_nodes @ [we_target e]) (path_edges @ [e]) finished
                     (dependencies g (we_target e)))
                  (\<lambda>(found, finished').
                     case found of
                       Some cycle \<Rightarrow> Some (Some cycle, finished')
                     | None \<Rightarrow> cycle_loop g path_nodes path_edges (insert (we_target e) finished') rest)))"

definition find_cycle_from ::
  "wait_for_graph \<Rightarrow> WaitForNode \<Rightarrow> WaitForNode list \<Rightarrow> wait_for_edge list \<Rightarrow> WaitForNode set \<Rightarrow>
   (wait_for_edge list option \<times> WaitForNode set) option" where
  "find_cycle_from g node path_nodes path_edges finished =
    (if node \<in> finished then Some (None, finished)
     else
       Option.bind (cycle_loop g (path_nodes @ [node]) path_edges finished (dependencies g node))
         (\<lambda>(found, finished').
            case found of
              Some cycle \<Rightarrow> Some (Some cycle, finished')
            | None \<Rightarrow> Some (None, insert node finished')))"

fun diagnostic_loop ::
  "wait_for_graph \<Rightarrow> WaitForNode set \<Rightarrow> WaitForNode list \<Rightarrow> deadlock_diagnostic option option" where
  "diagnostic_loop g finished [] = Some None"
| "diagnostic_loop g finished (node # nodes) =
     Option.bind (find_cycle_from g node [] [] finished) (\<lambda>(found, finished').
     case found of
       Some es \<Rightarrow> Some (Some (diagnostic_new es))
     | None \<Rightarrow> diagnostic_loop g finished' nodes)"

definition graph_deadlock_diagnostic :: "wait_for_graph \<Rightarrow> deadlock_diagnostic option option" where
  "graph_deadlock_diagnostic g = diagnostic_loop g {} (graph_nodes g)"

record wait_for_graph_snapshot =
  wgs_edges :: "wait_for_edge list"
  wgs_deadlock_diagnostic :: "deadlock_diagnostic option"
  wgs_first_observed_tick :: "tick option"
  wgs_last_observed_tick :: "tick option"

definition snapshot_new :: "wait_for_edge list \<Rightarrow> deadlock_diagnostic option \<Rightarrow> wait_for_graph_snapshot" where
  "snapshot_new es diagnostic =
     \<lparr>wgs_edges = es, wgs_deadlock_diagnostic = diagnostic,
      wgs_first_observed_tick = (if es = [] then None else Some (Min (set (map we_first_observed_tick es)))),
      wgs_last_observed_tick = (if es = [] then None else Some (Max (set (map we_last_observed_tick es))))\<rparr>"

definition graph_snapshot :: "wait_for_graph \<Rightarrow> wait_for_graph_snapshot option" where
  "graph_snapshot g = map_option (snapshot_new (graph_edges g)) (graph_deadlock_diagnostic g)"

section \<open>The invariant\<close>

definition graph_inv :: "wait_for_graph \<Rightarrow> bool" where
  "graph_inv g \<longleftrightarrow> finite (dom (wg_edges g)) \<and>
     (\<forall>s t k e. wg_edges g (s, t, k) = Some e \<longrightarrow>
        we_source e = s \<and> we_target e = t \<and> we_kind e = k \<and> s \<noteq> t \<and>
        we_first_observed_tick e \<le> we_last_observed_tick e \<and> 0 < we_observation_count e)"

lemma graph_new_inv: "graph_inv graph_new"
  by (simp add: graph_inv_def graph_new_def)

lemma record_wait_inv: "graph_inv g \<Longrightarrow> graph_inv (fst (record_wait g s t k n))"
  by (auto simp: graph_inv_def record_wait_def Let_def edge_new_def edge_observe_def split: option.splits if_splits)

lemma finite_dom_subset: "finite (dom m) \<Longrightarrow> (\<And>k v. m' k = Some v \<Longrightarrow> m k \<noteq> None) \<Longrightarrow> finite (dom m')"
  by (rule finite_subset [of _ "dom m"]) auto

lemma remove_wait_inv: "graph_inv g \<Longrightarrow> graph_inv (fst (remove_wait g s t k))"
  by (auto simp: graph_inv_def remove_wait_def)

lemma retain_edges_inv: "graph_inv g \<Longrightarrow> graph_inv (fst (retain_edges keep g))"
  by (auto simp: graph_inv_def retain_edges_def Let_def split: if_splits elim!: finite_dom_subset)

lemma clear_waits_inv:
  "graph_inv g \<Longrightarrow> graph_inv (fst (clear_waits_from g n))" "graph_inv g \<Longrightarrow> graph_inv (fst (clear_waits_to g n))"
  by (simp_all add: clear_waits_from_def clear_waits_to_def retain_edges_inv)

section \<open>Edges and waits\<close>

definition waits :: "wait_for_graph \<Rightarrow> (WaitForNode \<times> WaitForNode) set" where
  "waits g = {(s, t). \<exists>k. wg_edges g (s, t, k) \<noteq> None}"

lemma set_graph_edges: "graph_inv g \<Longrightarrow> set (graph_edges g) = ran (wg_edges g)"
  by (force simp: graph_edges_def graph_inv_def ran_def)

lemma set_dependencies:
  "graph_inv g \<Longrightarrow> set (dependencies g n) = {e \<in> set (graph_edges g). we_source e = n}"
  unfolding dependencies_def graph_edges_def graph_inv_def by force

lemma waits_edges: "graph_inv g \<Longrightarrow> waits g = {(we_source e, we_target e) | e. e \<in> set (graph_edges g)}"
  by (simp only: set_graph_edges) (fastforce simp: waits_def graph_inv_def ran_def)

lemma set_graph_nodes:
  "graph_inv g \<Longrightarrow> set (graph_nodes g) = Field (waits g)"
  by (fastforce simp: graph_nodes_def waits_edges Field_def Domain_iff Range_iff)


section \<open>The search decides deadlock\<close>

lemma position_None: "position x xs = None \<longleftrightarrow> x \<notin> set xs"
  by (induction xs) auto

lemma position_Some: "position x xs = Some i \<Longrightarrow> i < length xs \<and> xs ! i = x"
  by (induction xs arbitrary: i) (auto split: if_splits)

text \<open>A closed walk along edges of the graph.\<close>

definition wait_cycle :: "wait_for_graph \<Rightarrow> wait_for_edge list \<Rightarrow> bool" where
  "wait_cycle g es \<longleftrightarrow> es \<noteq> [] \<and> set es \<subseteq> set (graph_edges g) \<and>
     (\<forall>i. Suc i < length es \<longrightarrow> we_target (es ! i) = we_source (es ! Suc i)) \<and>
     we_target (last es) = we_source (hd es)"

lemma wait_cycle_not_acyclic:
  assumes inv: "graph_inv g" and c: "wait_cycle g es"
  shows "(we_source (hd es), we_source (hd es)) \<in> (waits g)\<^sup>+"
proof -
  have edge: "(we_source (es ! i), we_target (es ! i)) \<in> waits g" if "i < length es" for i
  proof -
    have "es ! i \<in> set (graph_edges g)" using c that nth_mem [of i es] by (auto simp: wait_cycle_def)
    then show ?thesis by (auto simp: waits_edges [OF inv])
  qed
  have "(we_source (es ! 0), we_target (es ! i)) \<in> (waits g)\<^sup>+" if "i < length es" for i
    using that
  proof (induction i)
    case (Suc i)
    then have "we_target (es ! i) = we_source (es ! Suc i)" using c by (simp add: wait_cycle_def)
    with Suc edge [of "Suc i"] show ?case by (auto intro: trancl_into_trancl)
  qed (use edge in auto)
  from this [of "length es - 1"] c show ?thesis
    by (auto simp: wait_cycle_def hd_conv_nth last_conv_nth)
qed

text \<open>The path of the search: each edge leads from one node of the path to the next.\<close>

definition search_path :: "wait_for_graph \<Rightarrow> WaitForNode list \<Rightarrow> wait_for_edge list \<Rightarrow> bool" where
  "search_path g ns es \<longleftrightarrow> length ns = Suc (length es) \<and> distinct ns \<and> set es \<subseteq> set (graph_edges g) \<and>
     (\<forall>i < length es. we_source (es ! i) = ns ! i \<and> we_target (es ! i) = ns ! Suc i)"

lemma search_path_last: "search_path g ns es \<Longrightarrow> last ns = ns ! length es"
  by (cases ns rule: rev_cases) (auto simp: search_path_def nth_append)

lemma search_path_snoc:
  assumes "search_path g ns es" and "e \<in> set (graph_edges g)" and "we_source e = last ns" and "we_target e \<notin> set ns"
  shows "search_path g (ns @ [we_target e]) (es @ [e])"
proof -
  note last = search_path_last [OF assms(1)]
  with assms show ?thesis by (auto simp: search_path_def nth_append less_Suc_eq)
qed

lemma search_path_cycle:
  assumes p: "search_path g ns es" and e: "e \<in> set (graph_edges g)" "we_source e = last ns"
    and i: "i < length ns" "ns ! i = we_target e"
  shows "wait_cycle g (drop i es @ [e])"
proof -
  note last = search_path_last [OF p]
  have len: "length ns = Suc (length es)" using p by (simp add: search_path_def)
  have step: "we_source (es ! j) = ns ! j" "we_target (es ! j) = ns ! Suc j" if "j < length es" for j
    using p that by (simp_all add: search_path_def)
  show ?thesis
    unfolding wait_cycle_def
  proof (intro conjI allI impI)
    show "set (drop i es @ [e]) \<subseteq> set (graph_edges g)"
      using p e(1) set_drop_subset [of i es] by (auto simp: search_path_def)
    fix j assume j: "Suc j < length (drop i es @ [e])"
    then have ij: "i + j < length es" by auto
    have "Suc (i + j) = length es" if "\<not> Suc j < length es - i" using that ij by auto
    then show "we_target ((drop i es @ [e]) ! j) = we_source ((drop i es @ [e]) ! Suc j)"
      using step(2) [OF ij] step(1) [of "i + Suc j"] e(2) last ij by (auto simp: nth_append)
  next
    show "we_target (last (drop i es @ [e])) = we_source (hd (drop i es @ [e]))"
    proof (cases "i < length es")
      case True
      then show ?thesis using step(1) [OF True] i(2) by (simp add: hd_drop_conv_nth hd_append)
    next
      case False
      then have "i = length es" using i len by simp
      then show ?thesis using i(2) e(2) last by simp
    qed
  qed simp
qed

text \<open>The finished nodes: closed under waiting, and on no cycle.\<close>

definition search_done :: "wait_for_graph \<Rightarrow> WaitForNode set \<Rightarrow> bool" where
  "search_done g F \<longleftrightarrow> waits g `` F \<subseteq> F \<and> (\<forall>n \<in> F. (n, n) \<notin> (waits g)\<^sup>+)"

lemma search_done_insert:
  assumes F: "search_done g F" and n: "n \<notin> F" "waits g `` {n} \<subseteq> F"
  shows "search_done g (insert n F)"
proof -
  have "(n, n) \<notin> (waits g)\<^sup>+"
  proof
    assume "(n, n) \<in> (waits g)\<^sup>+"
    then obtain m where "(n, m) \<in> waits g" "(m, n) \<in> (waits g)\<^sup>*" by (meson tranclD)
    then have "m \<in> F" using n(2) by blast
    with \<open>(m, n) \<in> (waits g)\<^sup>*\<close> have "n \<in> F"
      using F by (induction rule: rtrancl_induct) (auto simp: search_done_def)
    with n(1) show False ..
  qed
  with F n show ?thesis by (auto simp: search_done_def)
qed

definition search_result ::
  "wait_for_graph \<Rightarrow> WaitForNode list \<Rightarrow> WaitForNode set \<Rightarrow> WaitForNode set \<Rightarrow>
   (wait_for_edge list option \<times> WaitForNode set) option \<Rightarrow> bool" where
  "search_result g ns F T r \<longleftrightarrow> (\<exists>found F'. r = Some (found, F') \<and>
     (case found of Some c \<Rightarrow> wait_cycle g c
      | None \<Rightarrow> F \<subseteq> F' \<and> T \<subseteq> F' \<and> set ns \<inter> F' = {} \<and> search_done g F'))"

lemma search_result_mono:
  "search_result g ns F T r \<Longrightarrow> F0 \<subseteq> F \<Longrightarrow> T0 \<subseteq> T \<union> F \<Longrightarrow> search_result g ns F0 T0 r"
  unfolding search_result_def by (elim exE conjE, intro exI conjI, assumption) (auto split: option.splits)

lemma cycle_loop_result:
  assumes inv: "graph_inv g"
  shows "search_path g ns pe \<Longrightarrow> set ns \<subseteq> set (graph_nodes g) \<Longrightarrow> set ns \<inter> F = {} \<Longrightarrow> search_done g F \<Longrightarrow>
    set es \<subseteq> set (dependencies g (last ns)) \<Longrightarrow>
    search_result g ns F (we_target ` set es) (cycle_loop g ns pe F es)"
proof (induction "card (set (graph_nodes g) - set ns)" arbitrary: ns pe F es rule: less_induct)
  case less
  note path = less.prems(1,2)
  from less.prems(3-) show ?case
  proof (induction es arbitrary: F)
    case Nil
    then show ?case by (subst cycle_loop.simps) (simp add: search_result_def)
  next
    case (Cons e es)
    let ?t = "we_target e"
    have e: "e \<in> set (graph_edges g)" "we_source e = last ns"
      using Cons.prems(3) set_dependencies [OF inv] by auto
    show ?case
    proof (cases "position ?t ns")
      case (Some i)
      with search_path_cycle [OF path(1) e] position_Some [OF Some] show ?thesis
        by (subst cycle_loop.simps) (simp add: search_result_def)
    next
      case None
      then have t: "?t \<notin> set ns" by (simp add: position_None)
      show ?thesis
      proof (cases "?t \<in> F")
        case True
        then have "cycle_loop g ns pe F (e # es) = cycle_loop g ns pe F es"
          using None by (subst cycle_loop.simps) simp
        moreover have "search_result g ns F (we_target ` set es) (cycle_loop g ns pe F es)"
          using Cons.prems by (intro Cons.IH) simp_all
        ultimately show ?thesis using True by (auto elim: search_result_mono)
      next
        case False
        have tn: "?t \<in> set (graph_nodes g)"
          using e(1) by (auto simp: set_graph_nodes [OF inv] waits_edges [OF inv] Field_def)
        have "card (set (graph_nodes g) - set (ns @ [?t])) < card (set (graph_nodes g) - set ns)"
          using t tn by (intro psubset_card_mono) auto
        from less.hyps [OF this search_path_snoc [OF path(1) e t]] path(2) tn False Cons.prems(1,2)
        have sub: "search_result g (ns @ [?t]) F (we_target ` set (dependencies g ?t))
            (cycle_loop g (ns @ [?t]) (pe @ [e]) F (dependencies g ?t))" by simp
        then obtain found F1 where r: "cycle_loop g (ns @ [?t]) (pe @ [e]) F (dependencies g ?t) = Some (found, F1)"
          by (auto simp: search_result_def)
        show ?thesis
        proof (cases found)
          case (Some c)
          with sub r None False show ?thesis by (subst cycle_loop.simps) (simp add: search_result_def)
        next
          case fin: None
          with sub r have F1: "F \<subseteq> F1" "we_target ` set (dependencies g ?t) \<subseteq> F1" "set (ns @ [?t]) \<inter> F1 = {}"
            "search_done g F1" by (auto simp: search_result_def)
          have "waits g `` {?t} \<subseteq> F1"
            using F1(2) by (auto simp: waits_edges [OF inv] set_dependencies [OF inv])
          with F1 have "search_done g (insert ?t F1)" by (intro search_done_insert) auto
          moreover have "set ns \<inter> insert ?t F1 = {}" using F1(3) t by auto
          ultimately have "search_result g ns (insert ?t F1) (we_target ` set es) (cycle_loop g ns pe (insert ?t F1) es)"
            using Cons.IH Cons.prems(3) by simp
          moreover have "cycle_loop g ns pe F (e # es) = cycle_loop g ns pe (insert ?t F1) es"
            using r fin None False by (subst cycle_loop.simps) simp
          ultimately show ?thesis using F1(1) by (auto elim: search_result_mono)
        qed
      qed
    qed
  qed
qed

lemma find_cycle_from_result:
  assumes inv: "graph_inv g" and n: "n \<in> set (graph_nodes g)" and F: "search_done g F"
  shows "\<exists>found F'. find_cycle_from g n [] [] F = Some (found, F') \<and>
    (case found of Some c \<Rightarrow> wait_cycle g c | None \<Rightarrow> F \<subseteq> F' \<and> n \<in> F' \<and> search_done g F')"
proof (cases "n \<in> F")
  case False
  have "search_result g [n] F (we_target ` set (dependencies g n)) (cycle_loop g [n] [] F (dependencies g n))"
    using n F False by (intro cycle_loop_result [OF inv]) (simp_all add: search_path_def)
  then obtain found F1 where r: "cycle_loop g [n] [] F (dependencies g n) = Some (found, F1)"
    and res: "case found of Some c \<Rightarrow> wait_cycle g c | None \<Rightarrow> F \<subseteq> F1 \<and> we_target ` set (dependencies g n) \<subseteq> F1 \<and>
      n \<notin> F1 \<and> search_done g F1"
    by (auto simp: search_result_def split: option.splits)
  have "waits g `` {n} \<subseteq> F1 \<longleftrightarrow> we_target ` set (dependencies g n) \<subseteq> F1"
    by (auto simp: waits_edges [OF inv] set_dependencies [OF inv])
  with r res False show ?thesis
    by (cases found) (auto simp: find_cycle_from_def intro: search_done_insert)
qed (use F in \<open>simp add: find_cycle_from_def\<close>)

lemma diagnostic_loop_result:
  assumes inv: "graph_inv g"
  shows "set ns \<subseteq> set (graph_nodes g) \<Longrightarrow> search_done g F \<Longrightarrow>
    \<exists>r. diagnostic_loop g F ns = Some r \<and>
      (case r of Some d \<Rightarrow> \<exists>c. d = diagnostic_new c \<and> wait_cycle g c
       | None \<Rightarrow> \<exists>F'. F \<subseteq> F' \<and> set ns \<subseteq> F' \<and> search_done g F')"
proof (induction ns arbitrary: F)
  case Nil
  then have "F \<subseteq> F \<and> set [] \<subseteq> F \<and> search_done g F" by simp
  then show ?case by (simp, blast)
next
  case (Cons n ns)
  have "n \<in> set (graph_nodes g)" using Cons.prems(1) by simp
  from find_cycle_from_result [OF inv this Cons.prems(2)]
  obtain found F1 where f: "find_cycle_from g n [] [] F = Some (found, F1)"
    and res: "case found of Some c \<Rightarrow> wait_cycle g c | None \<Rightarrow> F \<subseteq> F1 \<and> n \<in> F1 \<and> search_done g F1"
    by blast
  show ?case
  proof (cases found)
    case (Some c)
    with f res show ?thesis by (simp, blast)
  next
    case None
    with res have F1: "F \<subseteq> F1" "n \<in> F1" "search_done g F1" by simp_all
    have "set ns \<subseteq> set (graph_nodes g)" using Cons.prems(1) by simp
    from Cons.IH [OF this F1(3)] obtain r where r: "diagnostic_loop g F1 ns = Some r"
      and spec: "case r of Some d \<Rightarrow> \<exists>c. d = diagnostic_new c \<and> wait_cycle g c
        | None \<Rightarrow> \<exists>F'. F1 \<subseteq> F' \<and> set ns \<subseteq> F' \<and> search_done g F'" by blast
    have eq: "diagnostic_loop g F (n # ns) = Some r" using f None r by simp
    show ?thesis
    proof (cases r)
      case found: None
      then obtain F' where "F1 \<subseteq> F'" "set ns \<subseteq> F'" "search_done g F'" using spec by auto
      then have "F \<subseteq> F' \<and> set (n # ns) \<subseteq> F' \<and> search_done g F'" using F1(1,2) by auto
      then show ?thesis unfolding eq found by (intro exI [of _ None]) (simp, blast)
    next
      case (Some d)
      with spec show ?thesis unfolding eq by simp
    qed
  qed
qed

lemma graph_deadlock_result:
  assumes inv: "graph_inv g"
  shows "\<exists>r. graph_deadlock_diagnostic g = Some r \<and> (r = None \<longleftrightarrow> acyclic (waits g)) \<and>
    (\<forall>d. r = Some d \<longrightarrow> wait_cycle g (dd_cycle_edges d))"
proof -
  have "search_done g {}" by (simp add: search_done_def)
  from diagnostic_loop_result [OF inv subset_refl this]
  obtain r where r: "graph_deadlock_diagnostic g = Some r"
    and res: "case r of Some d \<Rightarrow> \<exists>c. d = diagnostic_new c \<and> wait_cycle g c
       | None \<Rightarrow> \<exists>F'. {} \<subseteq> F' \<and> set (graph_nodes g) \<subseteq> F' \<and> search_done g F'"
    unfolding graph_deadlock_diagnostic_def by blast
  show ?thesis
  proof (cases r)
    case None
    then obtain F where F: "set (graph_nodes g) \<subseteq> F" "search_done g F" using res by auto
    have "(n, n) \<notin> (waits g)\<^sup>+" for n
    proof
      assume c: "(n, n) \<in> (waits g)\<^sup>+"
      then have "n \<in> Field (waits g)" by (meson FieldI1 tranclD)
      with F c show False by (auto simp: search_done_def set_graph_nodes [OF inv])
    qed
    with r None show ?thesis by (simp add: acyclic_def)
  next
    case (Some d)
    then obtain c where "d = diagnostic_new c" "wait_cycle g c" using res by auto
    with r Some wait_cycle_not_acyclic [OF inv, of c] show ?thesis
      by (auto simp: acyclic_def diagnostic_new_def)
  qed
qed


text \<open>Graphs as the operations build them.\<close>

inductive graph_built :: "wait_for_graph \<Rightarrow> bool" where
  new: "graph_built graph_new"
| recorded: "graph_built g \<Longrightarrow> graph_built (fst (record_wait g s t k n))"
| remove: "graph_built g \<Longrightarrow> graph_built (fst (remove_wait g s t k))"
| clear_from: "graph_built g \<Longrightarrow> graph_built (fst (clear_waits_from g n))"
| clear_to: "graph_built g \<Longrightarrow> graph_built (fst (clear_waits_to g n))"

lemma graph_built_inv: "graph_built g \<Longrightarrow> graph_inv g"
  by (induction rule: graph_built.induct)
     (simp_all add: graph_new_inv record_wait_inv remove_wait_inv clear_waits_inv)

section \<open>Properties\<close>

text \<open>
  C31. The deadlock search is total, sound and complete.  On every graph that the operations build
  the search ends.  It reports nothing exactly when the waits form no cycle, and a cycle it reports is
  a closed walk along recorded waits.
\<close>

theorem deadlock_search_decides:
  assumes "graph_built g"
  shows "\<exists>r. graph_deadlock_diagnostic g = Some r \<and> (r = None \<longleftrightarrow> acyclic (waits g)) \<and>
    (\<forall>d. r = Some d \<longrightarrow> wait_cycle g (dd_cycle_edges d))"
  using graph_built_inv [OF assms] by (rule graph_deadlock_result)

theorem deadlock_search_decides_witness:
  "\<exists>g d. g = fst (record_wait (fst (record_wait graph_new (Partition 0) (Partition 1) Message 5))
        (Partition 1) (Partition 0) Credit 7) \<and>
    graph_deadlock_diagnostic g = Some (Some d) \<and> wait_cycle g (dd_cycle_edges d)"
proof -
  let ?g = "fst (record_wait (fst (record_wait graph_new (Partition 0) (Partition 1) Message 5))
    (Partition 1) (Partition 0) Credit 7)"
  have "graph_built ?g" by (intro graph_built.intros)
  from deadlock_search_decides [OF this] obtain r where r: "graph_deadlock_diagnostic ?g = Some r"
    "r = None \<longleftrightarrow> acyclic (waits ?g)" "\<forall>d. r = Some d \<longrightarrow> wait_cycle ?g (dd_cycle_edges d)" by blast
  have "(Partition 0, Partition 1) \<in> waits ?g" "(Partition 1, Partition 0) \<in> waits ?g"
    by (auto simp: waits_def record_wait_def graph_new_def)
  then have "(Partition 0, Partition 0) \<in> (waits ?g)\<^sup>+" by (meson r_into_trancl trancl_into_trancl)
  then have "r \<noteq> None" using r(2) by (auto simp: acyclic_def)
  with r show ?thesis by auto
qed

end
