(* ===== verification/Partition_Queue.thy ===== *)
theory Partition_Queue
  imports Event_Queue Wait_For
begin

text \<open>
  The event queue of one scheduler partition, from \<^verbatim>\<open>crates/rem6-kernel/src/scheduler.rs\<close>: its clock, its
  pending serial and parallel events, cancelling, rescheduling, rolling back and saving them.

  The counters for identifiers, orders and tokens are naturals: the sources count in \<open>u64\<close> and the
  model leaves out the wrap-around after \<open>2^64\<close> events.
\<close>

section \<open>Events\<close>

record partition_event_id =
  pid_partition :: PartitionId
  pid_local :: nat

datatype SchedulerError =
    NoPartitions
  | ZeroLookahead
  | ZeroParallelWorkers
  | UnknownPartition PartitionId nat
  | PartitionInThePast PartitionId tick tick
  | SchedulerTickOverflow tick tick
  | ZeroDelayRemoteMessage PartitionId PartitionId
  | RemoteDelayBelowLookahead PartitionId PartitionId tick tick
  | RemoteDeliveryBeforeLookaheadBoundary PartitionId PartitionId tick tick tick
  | SerialEventInParallelEpoch PartitionId tick
  | StaleParallelEpochPlan
  | ParallelWorkerPanicked PartitionId
  | EpochHorizonOverflow PartitionId tick tick
  | EventNotPending partition_event_id
  | SnapshotContainsPendingEvents nat
  | RestoreWouldDiscardPendingEvents nat
  | SnapshotPartitionCountMismatch nat nat
  | SnapshotPartitionIdMismatch PartitionId PartitionId
  | SnapshotGlobalTickBeforePartitionClock tick PartitionId tick
  | SnapshotPartitionClockBeforeGlobalTick tick PartitionId tick
  | SnapshotLookaheadMismatch tick tick
  | SnapshotParallelWorkerLimitMismatch nat nat

text \<open>
  A callback is a closure of the simulated system, code that the scheduler stores and runs.  The queues
  hold callbacks of a type \<open>'c\<close> and never look into them; the theory \<open>Scheduler\<close> says what running one does.
\<close>

datatype 'c partition_callback = SerialCallback 'c | ParallelCallback 'c

datatype ScheduledEventKind = Serial | Parallel

definition callback_kind :: "'c partition_callback \<Rightarrow> ScheduledEventKind" where
  "callback_kind c = (case c of SerialCallback _ \<Rightarrow> Serial | ParallelCallback _ \<Rightarrow> Parallel)"

record 'c partition_event =
  pe_tick :: tick
  pe_order :: nat
  pe_id :: partition_event_id
  pe_token :: nat
  pe_callback :: "'c partition_callback"

definition pe_key :: "'c partition_event \<Rightarrow> tick \<times> nat \<times> nat" where
  "pe_key e = (pe_tick e, pe_order e, pid_local (pe_id e))"

definition is_serial :: "'c partition_event \<Rightarrow> bool" where
  "is_serial e \<longleftrightarrow> callback_kind (pe_callback e) = Serial"

record pending_event_snapshot =
  pes_id :: partition_event_id
  pes_tick :: tick
  pes_order :: nat
  pes_token :: nat
  pes_kind :: ScheduledEventKind

definition event_snapshot :: "'c partition_event \<Rightarrow> pending_event_snapshot" where
  "event_snapshot e =
     \<lparr>pes_id = pe_id e, pes_tick = pe_tick e, pes_order = pe_order e, pes_token = pe_token e,
      pes_kind = callback_kind (pe_callback e)\<rparr>"

record dispatch_record =
  dr_id :: partition_event_id
  dr_tick :: tick
  dr_kind :: ScheduledEventKind

definition event_dispatch_record :: "PartitionId \<Rightarrow> 'c partition_event \<Rightarrow> dispatch_record" where
  "event_dispatch_record part e =
     \<lparr>dr_id = \<lparr>pid_partition = part, pid_local = pid_local (pe_id e)\<rparr>, dr_tick = pe_tick e,
      dr_kind = callback_kind (pe_callback e)\<rparr>"

section \<open>The queue of a partition\<close>

record 'c partition_queue =
  pq_now :: tick
  pq_next_id :: nat
  pq_next_order :: nat
  pq_next_runtime_token :: nat
  pq_next_remote_order :: nat
  pq_next_progress_order :: nat
  pq_pending :: "'c partition_event list"

definition partition_queue_new :: "'c partition_queue" where
  "partition_queue_new =
     \<lparr>pq_now = 0, pq_next_id = 0, pq_next_order = 0, pq_next_runtime_token = 0, pq_next_remote_order = 0,
      pq_next_progress_order = 0, pq_pending = []\<rparr>"

definition peek_event :: "'c partition_queue \<Rightarrow> 'c partition_event option" where
  "peek_event q = heap_peek pe_key (pq_pending q)"

definition peek_tick :: "'c partition_queue \<Rightarrow> tick option" where
  "peek_tick q = map_option pe_tick (peek_event q)"

definition peek_kind :: "'c partition_queue \<Rightarrow> ScheduledEventKind option" where
  "peek_kind q = map_option (\<lambda>e. callback_kind (pe_callback e)) (peek_event q)"

definition pop_next :: "'c partition_queue \<Rightarrow> ('c partition_event \<times> 'c partition_queue) option" where
  "pop_next q = map_option (\<lambda>(e, rest). (e, q\<lparr>pq_pending := rest\<rparr>)) (heap_pop pe_key (pq_pending q))"

definition schedule_event_at ::
  "'c partition_queue \<Rightarrow> PartitionId \<Rightarrow> tick \<Rightarrow> 'c partition_callback \<Rightarrow>
   ('c partition_queue, SchedulerError, partition_event_id) outcome" where
  "schedule_event_at q part t callback =
    (if t < pq_now q then (q, Inl (PartitionInThePast part (pq_now q) t))
     else
       let eid = \<lparr>pid_partition = part, pid_local = pq_next_id q\<rparr>
       in (q\<lparr>pq_next_id := pq_next_id q + 1, pq_next_order := pq_next_order q + 1,
             pq_next_runtime_token := pq_next_runtime_token q + 1,
             pq_pending := pq_pending q @
               [\<lparr>pe_tick = t, pe_order = pq_next_order q, pe_id = eid, pe_token = pq_next_runtime_token q,
                 pe_callback = callback\<rparr>]\<rparr>, Inr eid))"

definition contains_event :: "'c partition_queue \<Rightarrow> partition_event_id \<Rightarrow> bool" where
  "contains_event q eid \<longleftrightarrow> list_ex (\<lambda>e. pe_id e = eid) (pq_pending q)"

definition remove_event ::
  "'c partition_queue \<Rightarrow> partition_event_id \<Rightarrow> 'c partition_queue \<times> 'c partition_event option" where
  "remove_event q eid =
    (case List.find (\<lambda>e. pe_id e = eid) (pq_pending q) of
       None \<Rightarrow> (q, None)
     | Some e \<Rightarrow> (q\<lparr>pq_pending := remove1 e (pq_pending q)\<rparr>, Some e))"

definition queue_cancel_event ::
  "'c partition_queue \<Rightarrow> partition_event_id \<Rightarrow> ('c partition_queue, SchedulerError, unit) outcome" where
  "queue_cancel_event q eid =
    (case remove_event q eid of (q', e) \<Rightarrow> (q', map_ok (\<lambda>_. ()) (ok_or (EventNotPending eid) e)))"

definition queue_reschedule_event ::
  "'c partition_queue \<Rightarrow> partition_event_id \<Rightarrow> tick \<Rightarrow> ('c partition_queue, SchedulerError, unit) outcome" where
  "queue_reschedule_event q eid t =
    (if \<not> contains_event q eid then (q, Inl (EventNotPending eid))
     else if t < pq_now q then (q, Inl (PartitionInThePast (pid_partition eid) (pq_now q) t))
     else
       (case remove_event q eid of
          (q', Some e) \<Rightarrow> (q'\<lparr>pq_pending := pq_pending q' @ [e\<lparr>pe_tick := t\<rparr>]\<rparr>, Inr ())
        | (q', None) \<Rightarrow> (q', Inr ())))"

definition rollback_scheduled_events :: "nat \<Rightarrow> nat \<Rightarrow> 'c partition_queue \<Rightarrow> 'c partition_queue" where
  "rollback_scheduled_events next_id next_order q =
     q\<lparr>pq_next_id := next_id, pq_next_order := next_order,
       pq_pending := filter (\<lambda>e. pid_local (pe_id e) < next_id \<and> pe_order e < next_order) (pq_pending q)\<rparr>"

definition min_list_option :: "'a::linorder list \<Rightarrow> 'a option" where
  "min_list_option xs = (if xs = [] then None else Some (Min (set xs)))"

definition first_serial_tick_at_or_before :: "'c partition_queue \<Rightarrow> tick \<Rightarrow> tick option" where
  "first_serial_tick_at_or_before q horizon =
     min_list_option (map pe_tick (filter (\<lambda>e. pe_tick e \<le> horizon \<and> is_serial e) (pq_pending q)))"

definition queue_serial_blockers :: "'c partition_queue \<Rightarrow> PartitionId \<Rightarrow> tick \<Rightarrow> (dispatch_record \<times> nat) list" where
  "queue_serial_blockers q part horizon =
     sort_key (\<lambda>(r, _). (dr_tick r, pid_local (dr_id r)))
       (map (\<lambda>e. (event_dispatch_record part e, pe_token e))
         (filter (\<lambda>e. pe_tick e \<le> horizon \<and> is_serial e) (pq_pending q)))"

record partition_snapshot =
  ps_partition :: PartitionId
  ps_now :: tick
  ps_next_event_local :: nat
  ps_next_event_order :: nat
  ps_next_remote_order :: nat
  ps_next_progress_order :: nat
  ps_pending_events :: "pending_event_snapshot list"

definition queue_snapshot :: "PartitionId \<Rightarrow> 'c partition_queue \<Rightarrow> partition_snapshot" where
  "queue_snapshot part q =
     \<lparr>ps_partition = part, ps_now = pq_now q, ps_next_event_local = pq_next_id q,
      ps_next_event_order = pq_next_order q, ps_next_remote_order = pq_next_remote_order q,
      ps_next_progress_order = pq_next_progress_order q,
      ps_pending_events =
        sort_key (\<lambda>e. (pes_tick e, pes_order e, pid_local (pes_id e))) (map event_snapshot (pq_pending q))\<rparr>"

definition queue_restore_quiescent :: "'c partition_queue \<Rightarrow> partition_snapshot \<Rightarrow> 'c partition_queue" where
  "queue_restore_quiescent q snap =
     q\<lparr>pq_now := ps_now snap, pq_next_id := ps_next_event_local snap, pq_next_order := ps_next_event_order snap,
       pq_next_remote_order := ps_next_remote_order snap,
       pq_next_progress_order := ps_next_progress_order snap, pq_pending := []\<rparr>"

section \<open>Invariant\<close>

text \<open>
  Every pending event of partition \<open>p\<close> carries its identifier, lies at or after the clock and was
  given its identifier and order by the counters; no two share an identifier.
\<close>

definition wf_queue :: "PartitionId \<Rightarrow> 'c partition_queue \<Rightarrow> bool" where
  "wf_queue p q \<longleftrightarrow>
     (\<forall>e \<in> set (pq_pending q).
        pq_now q \<le> pe_tick e \<and> pid_partition (pe_id e) = p \<and> pid_local (pe_id e) < pq_next_id q \<and>
        pe_order e < pq_next_order q) \<and>
     distinct (map pe_id (pq_pending q))"

lemma wf_queue_new [simp]: "wf_queue p partition_queue_new"
  by (simp add: wf_queue_def partition_queue_new_def)

lemma wf_queue_empty: "pq_pending q = [] \<Longrightarrow> wf_queue p q"
  by (simp add: wf_queue_def)

lemma wf_queue_subset:
  assumes "wf_queue p q" and "set es \<subseteq> set (pq_pending q)" and "distinct (map pe_id es)"
    and "\<forall>e \<in> set es. n \<le> pe_tick e"
  shows "wf_queue p (q\<lparr>pq_pending := es, pq_now := n\<rparr>)"
  using assms by (auto simp: wf_queue_def)

lemma peek_tick_None [simp]: "peek_tick q = None \<longleftrightarrow> pq_pending q = []"
  by (simp add: peek_tick_def peek_event_def)

lemma peek_tick_SomeD:
  assumes "peek_tick q = Some t"
  shows "\<exists>e \<in> set (pq_pending q). pe_tick e = t" and "e \<in> set (pq_pending q) \<Longrightarrow> t \<le> pe_tick e"
proof -
  obtain x where x: "heap_peek pe_key (pq_pending q) = Some x" and t: "t = pe_tick x"
    using assms by (auto simp: peek_tick_def peek_event_def)
  show "\<exists>e \<in> set (pq_pending q). pe_tick e = t" using heap_peek_SomeD(1) [OF x] t by blast
  show "e \<in> set (pq_pending q) \<Longrightarrow> t \<le> pe_tick e"
    using heap_peek_SomeD(2) [OF x, of e] t by (auto simp: pe_key_def)
qed

lemma pop_next_SomeD:
  assumes "pop_next q = Some (e, q')"
  shows "e \<in> set (pq_pending q)" and "q' = q\<lparr>pq_pending := remove1 e (pq_pending q)\<rparr>"
    and "peek_tick q = Some (pe_tick e)" and "peek_event q = Some e"
    and "mset (pq_pending q) = add_mset e (mset (pq_pending q'))"
proof -
  obtain rest where pop: "heap_pop pe_key (pq_pending q) = Some (e, rest)" and q': "q' = q\<lparr>pq_pending := rest\<rparr>"
    using assms by (auto simp: pop_next_def)
  show "e \<in> set (pq_pending q)" using heap_pop_SomeD(1) [OF pop] .
  show "q' = q\<lparr>pq_pending := remove1 e (pq_pending q)\<rparr>" using heap_pop_SomeD(3) [OF pop] q' by simp
  show "peek_event q = Some e" using pop by (auto simp: peek_event_def heap_pop_def)
  then show "peek_tick q = Some (pe_tick e)" by (simp add: peek_tick_def)
  show "mset (pq_pending q) = add_mset e (mset (pq_pending q'))" using heap_pop_SomeD(4) [OF pop] q' by simp
qed

lemma peek_tick_pop: "peek_tick q = Some t \<Longrightarrow> \<exists>e q'. pop_next q = Some (e, q') \<and> pe_tick e = t"
  by (auto simp: peek_tick_def peek_event_def pop_next_def heap_pop_def)

lemma pop_next_least:
  "pop_next q = Some (e, q') \<Longrightarrow> x \<in> set (pq_pending q) \<Longrightarrow> pe_tick e \<le> pe_tick x"
  using pop_next_SomeD(3) peek_tick_SomeD(2) by blast

text \<open>Popping the first event and moving the clock to it keeps the invariant.\<close>

lemma wf_queue_pop:
  assumes "wf_queue p q" and pop: "pop_next q = Some (e, q')"
  shows "wf_queue p (q'\<lparr>pq_now := pe_tick e\<rparr>)"
proof -
  have q': "q' = q\<lparr>pq_pending := remove1 e (pq_pending q)\<rparr>" by (rule pop_next_SomeD [OF pop])
  have "wf_queue p (q\<lparr>pq_pending := remove1 e (pq_pending q), pq_now := pe_tick e\<rparr>)"
  proof (rule wf_queue_subset [OF assms(1)])
    show sub: "set (remove1 e (pq_pending q)) \<subseteq> set (pq_pending q)" by (rule set_remove1_subset)
    show "distinct (map pe_id (remove1 e (pq_pending q)))"
      using assms(1) by (auto simp: wf_queue_def distinct_map inj_on_def dest: notin_set_remove1)
    show "\<forall>x \<in> set (remove1 e (pq_pending q)). pe_tick e \<le> pe_tick x"
      using pop_next_least [OF pop] sub by blast
  qed
  then show ?thesis by (simp add: q')
qed

lemma schedule_event_at_Inl [simp]:
  "schedule_event_at q p t c = (q', Inl err) \<longleftrightarrow>
     t < pq_now q \<and> q' = q \<and> err = PartitionInThePast p (pq_now q) t"
  by (auto simp: schedule_event_at_def Let_def)

lemma schedule_event_at_Inr:
  "schedule_event_at q p t c = (q', Inr i) \<longleftrightarrow>
     pq_now q \<le> t \<and> i = \<lparr>pid_partition = p, pid_local = pq_next_id q\<rparr> \<and>
     q' = q\<lparr>pq_next_id := pq_next_id q + 1, pq_next_order := pq_next_order q + 1,
             pq_next_runtime_token := pq_next_runtime_token q + 1,
             pq_pending := pq_pending q @
               [\<lparr>pe_tick = t, pe_order = pq_next_order q, pe_id = i, pe_token = pq_next_runtime_token q,
                 pe_callback = c\<rparr>]\<rparr>"
  by (auto simp: schedule_event_at_def Let_def)

lemma wf_queue_schedule:
  assumes "wf_queue p q"
  shows "wf_queue p (fst (schedule_event_at q p t c))"
proof (cases "t < pq_now q")
  case False
  let ?i = "\<lparr>pid_partition = p, pid_local = pq_next_id q\<rparr>"
  have "\<forall>e \<in> set (pq_pending q). ?i \<noteq> pe_id e"
  proof
    fix e assume "e \<in> set (pq_pending q)"
    then have "pid_local (pe_id e) < pq_next_id q" using assms by (simp add: wf_queue_def)
    then show "?i \<noteq> pe_id e" by (cases "pe_id e") simp
  qed
  then have "?i \<notin> pe_id ` set (pq_pending q)" by (simp add: image_iff)
  then show ?thesis using False assms by (auto simp: schedule_event_at_def Let_def wf_queue_def)
qed (use assms in \<open>simp add: schedule_event_at_def\<close>)

lemma remove_event_None: "remove_event q i = (q', None) \<longleftrightarrow> \<not> contains_event q i \<and> q' = q"
  by (auto simp: remove_event_def contains_event_def list_ex_iff find_None_iff dest: find_SomeD split: option.splits)

lemma remove_event_SomeD:
  assumes "remove_event q i = (q', Some e)"
  shows "e \<in> set (pq_pending q)" and "pe_id e = i" and "q' = q\<lparr>pq_pending := remove1 e (pq_pending q)\<rparr>"
  using assms by (auto simp: remove_event_def dest: find_SomeD split: option.splits)

lemma wf_queue_remove:
  assumes "wf_queue p q"
  shows "wf_queue p (fst (remove_event q i))"
proof (cases "remove_event q i")
  case (Pair q' r)
  show ?thesis
  proof (cases r)
    case None
    then have "q' = q" using Pair by (simp add: remove_event_None)
    then show ?thesis using assms Pair by simp
  next
    case (Some e)
    have q': "q' = q\<lparr>pq_pending := remove1 e (pq_pending q)\<rparr>"
      using remove_event_SomeD(3) Pair Some by blast
    have sub: "set (remove1 e (pq_pending q)) \<subseteq> set (pq_pending q)" by (rule set_remove1_subset)
    show ?thesis
      using assms sub unfolding Pair q'
      by (auto simp: wf_queue_def distinct_map inj_on_def dest: notin_set_remove1)
  qed
qed

lemma wf_queue_cancel: "wf_queue p q \<Longrightarrow> wf_queue p (fst (queue_cancel_event q i))"
  using wf_queue_remove [of p q i] by (auto simp: queue_cancel_event_def split: prod.splits)

lemma wf_queue_reschedule:
  assumes wf: "wf_queue p q"
  shows "wf_queue p (fst (queue_reschedule_event q i t))"
proof (cases "contains_event q i \<and> pq_now q \<le> t")
  case True
  obtain q' r where r: "remove_event q i = (q', r)" by fastforce
  obtain e where e: "r = Some e" using True r by (cases r) (auto simp: remove_event_None)
  note rm = remove_event_SomeD [OF r [unfolded e]]
  have set: "set (remove1 e (pq_pending q)) \<subseteq> set (pq_pending q)" by (rule set_remove1_subset)
  have "pe_id x \<noteq> pe_id e" if "x \<in> set (remove1 e (pq_pending q))" for x
    using wf rm(1) that set by (auto simp: wf_queue_def distinct_map dest: inj_onD)
  then have "wf_queue p (q\<lparr>pq_pending := remove1 e (pq_pending q) @ [e\<lparr>pe_tick := t\<rparr>]\<rparr>)"
    using wf rm(1) set True by (auto simp: wf_queue_def distinct_map inj_on_def dest: notin_set_remove1)
  then show ?thesis using True r e rm(3) by (simp add: queue_reschedule_event_def)
qed (use wf in \<open>auto simp: queue_reschedule_event_def\<close>)

section \<open>Growth and rollback\<close>

text \<open>
  What a callback can do to the queue of its own partition while it runs: append events that carry
  fresh identifiers and orders.
\<close>

definition queue_grows :: "PartitionId \<Rightarrow> 'c partition_queue \<Rightarrow> 'c partition_queue \<Rightarrow> bool" where
  "queue_grows p q q' \<longleftrightarrow>
     (\<exists>es. pq_pending q' = pq_pending q @ es \<and>
        (\<forall>e \<in> set es. pq_next_id q \<le> pid_local (pe_id e) \<and> pq_next_order q \<le> pe_order e)) \<and>
     pq_next_id q \<le> pq_next_id q' \<and> pq_next_order q \<le> pq_next_order q' \<and>
     pq_now q' = pq_now q \<and> pq_next_remote_order q' = pq_next_remote_order q \<and>
     pq_next_progress_order q' = pq_next_progress_order q"

lemma queue_grows_refl [simp]: "queue_grows p q q"
  by (simp add: queue_grows_def)

lemma queue_grows_trans:
  assumes "queue_grows p q r" and "queue_grows p r s"
  shows "queue_grows p q s"
proof -
  obtain es where es: "pq_pending r = pq_pending q @ es"
      "\<forall>e \<in> set es. pq_next_id q \<le> pid_local (pe_id e) \<and> pq_next_order q \<le> pe_order e"
    using assms(1) unfolding queue_grows_def by blast
  obtain fs where fs: "pq_pending s = pq_pending r @ fs"
      "\<forall>e \<in> set fs. pq_next_id r \<le> pid_local (pe_id e) \<and> pq_next_order r \<le> pe_order e"
    using assms(2) unfolding queue_grows_def by blast
  have "pq_next_id q \<le> pq_next_id r" "pq_next_order q \<le> pq_next_order r"
    using assms(1) by (simp_all add: queue_grows_def)
  then have "\<forall>e \<in> set (es @ fs). pq_next_id q \<le> pid_local (pe_id e) \<and> pq_next_order q \<le> pe_order e"
    using es(2) fs(2) by (simp add: ball_Un) (meson order_trans)
  then have "\<exists>es. pq_pending s = pq_pending q @ es \<and>
      (\<forall>e \<in> set es. pq_next_id q \<le> pid_local (pe_id e) \<and> pq_next_order q \<le> pe_order e)"
    using es(1) fs(1) by (intro exI [of _ "es @ fs"]) simp
  then show ?thesis using assms unfolding queue_grows_def by simp
qed

lemma queue_grows_schedule: "queue_grows p q (fst (schedule_event_at q p t c))"
  by (auto simp: schedule_event_at_def queue_grows_def Let_def)

text \<open>Rolling back to the counters of an earlier queue gives that queue, up to the tokens handed out.\<close>

lemma rollback_restores:
  assumes "wf_queue p q" and "queue_grows p q q'"
  shows "rollback_scheduled_events (pq_next_id q) (pq_next_order q) q' =
           q\<lparr>pq_next_runtime_token := pq_next_runtime_token q'\<rparr>"
proof -
  obtain es where es: "pq_pending q' = pq_pending q @ es"
      "\<forall>e \<in> set es. pq_next_id q \<le> pid_local (pe_id e) \<and> pq_next_order q \<le> pe_order e"
    using assms(2) by (auto simp: queue_grows_def)
  let ?old = "\<lambda>e. pid_local (pe_id e) < pq_next_id q \<and> pe_order e < pq_next_order q"
  have "filter ?old (pq_pending q) = pq_pending q"
    using assms(1) by (auto simp: wf_queue_def intro: filter_True)
  moreover have "filter ?old es = []" using es(2) by (auto simp: filter_empty_conv)
  ultimately have "filter ?old (pq_pending q') = pq_pending q" by (simp add: es(1))
  then show ?thesis
    using assms(2) by (cases q, cases q') (simp add: rollback_scheduled_events_def queue_grows_def)
qed

section \<open>Due events\<close>

text \<open>
  The work left before a horizon: for every pending event up to it, the number of ticks left.
\<close>

definition due_work :: "tick \<Rightarrow> 'c partition_event list \<Rightarrow> nat multiset" where
  "due_work h es = {# h - pe_tick e. e \<in># filter_mset (\<lambda>e. pe_tick e \<le> h) (mset es) #}"

lemma due_work_Nil [simp]: "due_work h [] = {#}"
  by (simp add: due_work_def)

lemma due_work_append [simp]: "due_work h (es @ fs) = due_work h es + due_work h fs"
  by (simp add: due_work_def)

lemma due_work_Cons [simp]:
  "due_work h (e # es) = (if pe_tick e \<le> h then add_mset (h - pe_tick e) (due_work h es) else due_work h es)"
  by (simp add: due_work_def)

lemma due_work_empty_iff: "due_work h es = {#} \<longleftrightarrow> (\<forall>e \<in> set es. h < pe_tick e)"
  by (induction es) (auto simp: not_le)

lemma due_work_mset: "mset es = mset fs \<Longrightarrow> due_work h es = due_work h fs"
  by (simp add: due_work_def)

lemma due_work_remove1:
  assumes "e \<in> set es" and "pe_tick e \<le> h"
  shows "due_work h es = add_mset (h - pe_tick e) (due_work h (remove1 e es))"
  using due_work_mset [of es "e # remove1 e es" h] assms by simp

end
