(* ===== verification/Loops.thy ===== *)
theory Loops
  imports Rem6_Prelude "HOL-Library.Multiset"
begin

text \<open>
  The \<^verbatim>\<open>while\<close> loops of the scheduler.  A loop body either gives the state of the next iteration or
  leaves the loop with a value; a body that itself runs a loop may not return, so it gives an option.
  The loop is \<open>None\<close> when it never ends, and the contract below is what makes it end.
\<close>

partial_function (option) loop :: "('s \<Rightarrow> ('s + 'r) option) \<Rightarrow> 's \<Rightarrow> 'r option" where
  "loop body s =
     Option.bind (body s) (\<lambda>r. case r of Inl s' \<Rightarrow> loop body s' | Inr v \<Rightarrow> Some v)"

lemma loop_next [simp]: "body s = Some (Inl s') \<Longrightarrow> loop body s = loop body s'"
  and loop_exit [simp]: "body s = Some (Inr v) \<Longrightarrow> loop body s = Some v"
  by (simp_all add: loop.simps [of body s])

text \<open>Equations by which concrete runs are evaluated; the second keeps the bound of \<open>u64\<close> binary.\<close>

lemma loop_code [code]:
  "loop body s = (case body s of None \<Rightarrow> None | Some (Inl s') \<Rightarrow> loop body s' | Some (Inr v) \<Rightarrow> Some v)"
  by (simp add: loop.simps [of body s] split: option.split sum.split)

lemma checked_add_code [code]:
  "checked_add a b = (if int a + int b < 18446744073709551616 then Some (a + b) else None)"
  by (auto simp: checked_add_def)

lemma loop_invariant:
  assumes run: "loop body s = Some v" and init: "I s"
    and next_step: "\<And>s s'. I s \<Longrightarrow> body s = Some (Inl s') \<Longrightarrow> I s'"
    and exit_step: "\<And>s v. I s \<Longrightarrow> body s = Some (Inr v) \<Longrightarrow> Q v"
  shows "Q v"
proof -
  have "body = body \<longrightarrow> I s \<longrightarrow> Q v"
  proof (rule loop.raw_induct [where P = "\<lambda>b s v. b = body \<longrightarrow> I s \<longrightarrow> Q v", OF _ run], intro impI)
    fix rec b s v
    assume IH: "\<And>b s v. rec b s = Some v \<Longrightarrow> b = body \<longrightarrow> I s \<longrightarrow> Q v"
      and step: "Option.bind (b s) (\<lambda>r. case r of Inl s' \<Rightarrow> rec b s' | Inr v \<Rightarrow> Some v) = Some v"
      and b: "b = body" and I: "I s"
    from step [unfolded b] obtain r where "body s = Some r"
        "(case r of Inl s' \<Rightarrow> rec body s' | Inr v \<Rightarrow> Some v) = Some v"
      by (auto simp: Option.bind_eq_Some_conv)
    then show "Q v"
      using IH next_step [OF I] exit_step [OF I] by (cases r) auto
  qed
  then show ?thesis using init by simp
qed

text \<open>
  A loop whose body returns in every state of an invariant, and keeps the invariant with less work
  left in the multiset order.
\<close>

locale decreasing_loop =
  fixes body :: "'s \<Rightarrow> ('s + 'r) option"
    and inv :: "'s \<Rightarrow> bool"
    and work :: "'s \<Rightarrow> nat multiset"
  assumes body_returns: "inv s \<Longrightarrow> body s \<noteq> None"
    and body_keeps: "inv s \<Longrightarrow> body s = Some (Inl s') \<Longrightarrow> inv s'"
    and body_decreases: "inv s \<Longrightarrow> body s = Some (Inl s') \<Longrightarrow> (work s', work s) \<in> mult less_than"
begin

lemma loop_returns: "inv s \<Longrightarrow> \<exists>v. loop body s = Some v"
proof (induction "work s" arbitrary: s rule: wf_induct_rule [OF wf_mult [OF wf_less_than]])
  case 1
  obtain r where r: "body s = Some r" using body_returns [OF "1.prems"] by auto
  show ?case
  proof (cases r)
    case (Inl s')
    note step = r [unfolded Inl]
    then show ?thesis
      using "1.hyps" [OF body_decreases [OF "1.prems" step] body_keeps [OF "1.prems" step]] by simp
  qed (use r in simp)
qed

end

text \<open>Replacing one element of a multiset by finitely many smaller ones, and dropping elements.\<close>

lemma mult_less_add:
  assumes "\<And>k. k \<in># K \<Longrightarrow> k < j"
  shows "(M + K, add_mset j M) \<in> mult less_than"
  using one_step_implies_mult [of "{#j#}" K less_than M] assms by simp

lemma mult_less_subset:
  assumes "A \<subseteq># B" and "A \<noteq> B"
  shows "(A, B) \<in> mult less_than"
proof -
  have "B - A \<noteq> {#}" using assms by (metis Diff_eq_empty_iff_mset subset_mset.antisym)
  from one_step_implies_mult [OF this, of "{#}" less_than A] show ?thesis using assms(1) by simp
qed

end
