(* ===== verification/Scheduler.thy ===== *)
theory Scheduler
  imports Loops Partition_Queue
begin

text \<open>
  The partitioned scheduler of \<^verbatim>\<open>crates/rem6-kernel/src/scheduler.rs\<close> and \<^verbatim>\<open>scheduler/checkpoint.rs\<close>:
  scheduling and cancelling events, quiescent snapshots, checkpoint restores, and the serial runs.

  A callback is a program over the operations of its context; each operation gives its result to the
  rest of the program.  What the callbacks of the simulated system do is the parameter \<open>code\<close>, which
  maps a callback to its program at a partition and a tick; \<open>'w\<close> is the state of the simulated system.
\<close>

section \<open>State\<close>

record 'c scheduler =
  sch_instance_id :: nat
  sch_timeline_revision :: nat
  sch_now :: tick
  sch_min_remote_delay :: tick
  sch_max_parallel_workers :: nat
  sch_partitions :: "'c partition_queue list"

text \<open>The instance number comes from a global counter, so it is an argument here.\<close>

definition with_parallel_worker_limit :: "nat \<Rightarrow> nat \<Rightarrow> tick \<Rightarrow> nat \<Rightarrow> SchedulerError + 'c scheduler" where
  "with_parallel_worker_limit inst partitions min_remote_delay max_parallel_workers =
    (if partitions = 0 then Inl NoPartitions
     else if min_remote_delay = 0 then Inl ZeroLookahead
     else if max_parallel_workers = 0 then Inl ZeroParallelWorkers
     else Inr \<lparr>sch_instance_id = inst, sch_timeline_revision = 0, sch_now = 0,
               sch_min_remote_delay = min_remote_delay, sch_max_parallel_workers = max_parallel_workers,
               sch_partitions = replicate partitions partition_queue_new\<rparr>)"

definition with_min_remote_delay :: "nat \<Rightarrow> nat \<Rightarrow> tick \<Rightarrow> SchedulerError + 'c scheduler" where
  "with_min_remote_delay inst partitions min_remote_delay =
     with_parallel_worker_limit inst partitions min_remote_delay (U64_RANGE - 1)"

definition scheduler_new :: "nat \<Rightarrow> nat \<Rightarrow> SchedulerError + 'c scheduler" where
  "scheduler_new inst partitions = with_min_remote_delay inst partitions 1"

abbreviation partition_count :: "'c scheduler \<Rightarrow> nat" where
  "partition_count s \<equiv> length (sch_partitions s)"

definition is_idle :: "'c scheduler \<Rightarrow> bool" where
  "is_idle s \<longleftrightarrow> list_all (\<lambda>q. pq_pending q = []) (sch_partitions s)"

definition get_partition :: "'c scheduler \<Rightarrow> PartitionId \<Rightarrow> 'c partition_queue option" where
  "get_partition s p = (if p < partition_count s then Some (sch_partitions s ! p) else None)"

definition set_partition :: "'c scheduler \<Rightarrow> PartitionId \<Rightarrow> 'c partition_queue \<Rightarrow> 'c scheduler" where
  "set_partition s p q = s\<lparr>sch_partitions := (sch_partitions s)[p := q]\<rparr>"

text \<open>\<open>partition_mut(p).ok_or(UnknownPartition)?\<close> followed by a method of the queue.\<close>

definition with_partition ::
  "'c scheduler \<Rightarrow> PartitionId \<Rightarrow> ('c partition_queue \<Rightarrow> ('c partition_queue, SchedulerError, 'a) outcome) \<Rightarrow>
   ('c scheduler, SchedulerError, 'a) outcome" where
  "with_partition s p f =
    (case get_partition s p of
       None \<Rightarrow> (s, Inl (UnknownPartition p (partition_count s)))
     | Some q \<Rightarrow> map_prod (set_partition s p) id (f q))"

definition partition_now :: "'c scheduler \<Rightarrow> PartitionId \<Rightarrow> SchedulerError + tick" where
  "partition_now s p = ok_or (UnknownPartition p (partition_count s)) (map_option pq_now (get_partition s p))"

definition next_pending_tick :: "'c scheduler \<Rightarrow> PartitionId \<Rightarrow> SchedulerError + tick option" where
  "next_pending_tick s p = ok_or (UnknownPartition p (partition_count s)) (map_option peek_tick (get_partition s p))"

definition schedule_at ::
  "'c scheduler \<Rightarrow> PartitionId \<Rightarrow> tick \<Rightarrow> 'c \<Rightarrow> ('c scheduler, SchedulerError, partition_event_id) outcome" where
  "schedule_at s p t c = with_partition s p (\<lambda>q. schedule_event_at q p t (SerialCallback c))"

definition schedule_after ::
  "'c scheduler \<Rightarrow> PartitionId \<Rightarrow> tick \<Rightarrow> 'c \<Rightarrow> ('c scheduler, SchedulerError, partition_event_id) outcome" where
  "schedule_after s p delay c =
     st_try s (ok_or (SchedulerTickOverflow (sch_now s) delay) (checked_add (sch_now s) delay)) (\<lambda>t.
     schedule_at s p t c)"

definition schedule_parallel_at ::
  "'c scheduler \<Rightarrow> PartitionId \<Rightarrow> tick \<Rightarrow> 'c \<Rightarrow> ('c scheduler, SchedulerError, partition_event_id) outcome" where
  "schedule_parallel_at s p t c = with_partition s p (\<lambda>q. schedule_event_at q p t (ParallelCallback c))"

definition cancel_event ::
  "'c scheduler \<Rightarrow> partition_event_id \<Rightarrow> ('c scheduler, SchedulerError, unit) outcome" where
  "cancel_event s i = with_partition s (pid_partition i) (\<lambda>q. queue_cancel_event q i)"

definition reschedule_event ::
  "'c scheduler \<Rightarrow> partition_event_id \<Rightarrow> tick \<Rightarrow> ('c scheduler, SchedulerError, unit) outcome" where
  "reschedule_event s i t = with_partition s (pid_partition i) (\<lambda>q. queue_reschedule_event q i t)"

section \<open>Snapshots\<close>

record scheduler_snapshot =
  sn_now :: tick
  sn_min_remote_delay :: tick
  sn_max_parallel_workers :: nat
  sn_partitions :: "partition_snapshot list"

definition snapshot_pending_events :: "scheduler_snapshot \<Rightarrow> nat" where
  "snapshot_pending_events sn = sum_list (map (\<lambda>ps. length (ps_pending_events ps)) (sn_partitions sn))"

definition total_pending_events :: "'c scheduler \<Rightarrow> nat" where
  "total_pending_events s = sum_list (map (\<lambda>q. length (pq_pending q)) (sch_partitions s))"

definition scheduler_snapshot_of :: "'c scheduler \<Rightarrow> scheduler_snapshot" where
  "scheduler_snapshot_of s =
     \<lparr>sn_now = sch_now s, sn_min_remote_delay = sch_min_remote_delay s,
      sn_max_parallel_workers = sch_max_parallel_workers s,
      sn_partitions = map (\<lambda>(p, q). queue_snapshot p q) (enumerate 0 (sch_partitions s))\<rparr>"

definition quiescent_snapshot :: "'c scheduler \<Rightarrow> SchedulerError + scheduler_snapshot" where
  "quiescent_snapshot s =
    (let sn = scheduler_snapshot_of s; pending = snapshot_pending_events sn
     in if pending \<noteq> 0 then Inl (SnapshotContainsPendingEvents pending) else Inr sn)"

definition validate_snapshot_partition ::
  "tick \<Rightarrow> PartitionId \<Rightarrow> partition_snapshot \<Rightarrow> SchedulerError + unit" where
  "validate_snapshot_partition snapshot_now expected ps =
    (if ps_partition ps \<noteq> expected then Inl (SnapshotPartitionIdMismatch expected (ps_partition ps))
     else if ps_now ps > snapshot_now then
       Inl (SnapshotGlobalTickBeforePartitionClock snapshot_now (ps_partition ps) (ps_now ps))
     else if ps_now ps < snapshot_now then
       Inl (SnapshotPartitionClockBeforeGlobalTick snapshot_now (ps_partition ps) (ps_now ps))
     else Inr ())"

definition validate_quiescent_snapshot_compatibility ::
  "'c scheduler \<Rightarrow> scheduler_snapshot \<Rightarrow> SchedulerError + unit" where
  "validate_quiescent_snapshot_compatibility s sn =
    (if snapshot_pending_events sn \<noteq> 0 then Inl (SnapshotContainsPendingEvents (snapshot_pending_events sn))
     else if length (sn_partitions sn) \<noteq> partition_count s then
       Inl (SnapshotPartitionCountMismatch (length (sn_partitions sn)) (partition_count s))
     else
       res_bind (res_foldl (\<lambda>_ (p, ps). validate_snapshot_partition (sn_now sn) p ps) ()
         (enumerate 0 (sn_partitions sn))) (\<lambda>_.
       if sn_min_remote_delay sn \<noteq> sch_min_remote_delay s then
         Inl (SnapshotLookaheadMismatch (sn_min_remote_delay sn) (sch_min_remote_delay s))
       else if sn_max_parallel_workers sn \<noteq> sch_max_parallel_workers s then
         Inl (SnapshotParallelWorkerLimitMismatch (sn_max_parallel_workers sn) (sch_max_parallel_workers s))
       else Inr ()))"

definition validate_quiescent_restore :: "'c scheduler \<Rightarrow> scheduler_snapshot \<Rightarrow> SchedulerError + unit" where
  "validate_quiescent_restore s sn =
    (if snapshot_pending_events sn \<noteq> 0 then Inl (SnapshotContainsPendingEvents (snapshot_pending_events sn))
     else if total_pending_events s \<noteq> 0 then Inl (RestoreWouldDiscardPendingEvents (total_pending_events s))
     else validate_quiescent_snapshot_compatibility s sn)"

definition revise_timeline :: "'c scheduler \<Rightarrow> 'c scheduler" where
  "revise_timeline s = s\<lparr>sch_timeline_revision := (sch_timeline_revision s + 1) mod U64_RANGE\<rparr>"

definition restore_quiescent ::
  "'c scheduler \<Rightarrow> scheduler_snapshot \<Rightarrow> ('c scheduler, SchedulerError, unit) outcome" where
  "restore_quiescent s sn =
     st_try s (validate_quiescent_restore s sn) (\<lambda>_.
     (revise_timeline (s\<lparr>sch_now := sn_now sn,
        sch_partitions := map2 queue_restore_quiescent (sch_partitions s) (sn_partitions sn)\<rparr>), Inr ()))"

section \<open>Checkpoint restore\<close>

definition scheduler_pending_event :: "'c scheduler \<Rightarrow> partition_event_id \<Rightarrow> pending_event_snapshot option" where
  "scheduler_pending_event s i =
     Option.bind (get_partition s (pid_partition i)) (\<lambda>q.
     map_option event_snapshot (List.find (\<lambda>e. pe_id e = i) (pq_pending q)))"

definition has_duplicate_or_conflicting_events ::
  "pending_event_snapshot list \<Rightarrow> pending_event_snapshot list \<Rightarrow> bool" where
  "has_duplicate_or_conflicting_events discarded preserved \<longleftrightarrow>
     list_ex (\<lambda>e. e \<in> set preserved) discarded \<or> \<not> distinct discarded \<or> \<not> distinct preserved"

definition validate_checkpoint_projection ::
  "'c scheduler \<Rightarrow> scheduler_snapshot \<Rightarrow> pending_event_snapshot list \<Rightarrow> pending_event_snapshot list \<Rightarrow>
   SchedulerError + unit" where
  "validate_checkpoint_projection s sn discarded preserved =
     res_bind (validate_quiescent_snapshot_compatibility s sn) (\<lambda>_.
     res_bind (res_foldl (\<lambda>_ e. if scheduler_pending_event s (pes_id e) \<noteq> Some e
         then Inl (EventNotPending (pes_id e)) else Inr ()) () (discarded @ preserved)) (\<lambda>_.
     if has_duplicate_or_conflicting_events discarded preserved then
       Inl (RestoreWouldDiscardPendingEvents (total_pending_events s))
     else if total_pending_events s \<noteq> length discarded + length preserved then
       Inl (RestoreWouldDiscardPendingEvents
         (total_pending_events s - min (length discarded + length preserved) (total_pending_events s)))
     else
       res_foldl (\<lambda>_ e.
         let ps = sn_partitions sn ! pid_partition (pes_id e)
         in if pes_tick e < ps_now ps
            then Inl (PartitionInThePast (pid_partition (pes_id e)) (ps_now ps) (pes_tick e)) else Inr ())
         () preserved))"

text \<open>
  Removing the events of a list one by one; the removed events are collected.  The source expects every
  event to be there, which the validation before it has checked.
\<close>

fun take_events ::
  "'c scheduler \<Rightarrow> pending_event_snapshot list \<Rightarrow> 'c scheduler \<times> 'c partition_event list" where
  "take_events s [] = (s, [])"
| "take_events s (e # es) =
    (case get_partition s (pid_partition (pes_id e)) of
       None \<Rightarrow> take_events s es
     | Some q \<Rightarrow>
         (case remove_event q (pes_id e) of
            (q', None) \<Rightarrow> take_events s es
          | (q', Some x) \<Rightarrow>
              map_prod id (\<lambda>xs. x # xs) (take_events (set_partition s (pid_partition (pes_id e)) q') es)))"

definition restore_preserved_event :: "'c partition_queue \<Rightarrow> 'c partition_event \<Rightarrow> 'c partition_queue" where
  "restore_preserved_event q e =
     q\<lparr>pq_next_id := max (pq_next_id q) (pid_local (pe_id e) + 1),
       pq_next_order := max (pq_next_order q) (pe_order e + 1),
       pq_pending := pq_pending q @ [e]\<rparr>"

definition put_event :: "'c scheduler \<Rightarrow> 'c partition_event \<Rightarrow> 'c scheduler" where
  "put_event s e =
    (case get_partition s (pid_partition (pe_id e)) of
       None \<Rightarrow> s
     | Some q \<Rightarrow> set_partition s (pid_partition (pe_id e)) (restore_preserved_event q e))"

definition restore_checkpoint_projection ::
  "'c scheduler \<Rightarrow> scheduler_snapshot \<Rightarrow> pending_event_snapshot list \<Rightarrow> pending_event_snapshot list \<Rightarrow>
   ('c scheduler, SchedulerError, unit) outcome" where
  "restore_checkpoint_projection s sn discarded preserved =
     st_try s (validate_checkpoint_projection s sn discarded preserved) (\<lambda>_.
       let (s1, kept) = take_events s preserved; (s2, _) = take_events s1 discarded
       in st_bind (restore_quiescent s2 sn) (\<lambda>s3 _. (foldl put_event s3 kept, Inr ())))"

definition discard_exact_events ::
  "'c scheduler \<Rightarrow> pending_event_snapshot list \<Rightarrow> ('c scheduler, SchedulerError, unit) outcome" where
  "discard_exact_events s events =
     st_try s (res_foldl (\<lambda>_ e. if scheduler_pending_event s (pes_id e) \<noteq> Some e
       then Inl (EventNotPending (pes_id e)) else Inr ()) () events) (\<lambda>_.
     if has_duplicate_or_conflicting_events events [] then
       (s, Inl (RestoreWouldDiscardPendingEvents (length events)))
     else
       let (s1, _) = take_events s events
       in (if events \<noteq> [] then revise_timeline s1 else s1, Inr ()))"

section \<open>Serial callbacks\<close>

definition remote_delivery_before_lookahead_error ::
  "PartitionId \<Rightarrow> PartitionId \<Rightarrow> tick \<Rightarrow> tick \<Rightarrow> tick \<Rightarrow> SchedulerError + SchedulerError option" where
  "remote_delivery_before_lookahead_error source target source_tick delivery_tick min_remote_delay =
     res_bind (ok_or (SchedulerTickOverflow source_tick min_remote_delay)
       (checked_add source_tick min_remote_delay)) (\<lambda>minimum.
     Inr (if delivery_tick < minimum
       then Some (RemoteDeliveryBeforeLookaheadBoundary source target source_tick delivery_tick minimum)
       else None))"

definition serial_schedule_local_after ::
  "'c scheduler \<Rightarrow> PartitionId \<Rightarrow> tick \<Rightarrow> tick \<Rightarrow> 'c \<Rightarrow>
   ('c scheduler, SchedulerError, partition_event_id) outcome" where
  "serial_schedule_local_after s p now delay c =
     st_try s (ok_or (SchedulerTickOverflow now delay) (checked_add now delay)) (\<lambda>t. schedule_at s p t c)"

definition serial_schedule_remote_after ::
  "'c scheduler \<Rightarrow> PartitionId \<Rightarrow> tick \<Rightarrow> PartitionId \<Rightarrow> tick \<Rightarrow> 'c \<Rightarrow>
   ('c scheduler, SchedulerError, partition_event_id) outcome" where
  "serial_schedule_remote_after s p now target delay c =
    (if target \<noteq> p \<and> delay = 0 then (s, Inl (ZeroDelayRemoteMessage p target))
     else
       st_try s (ok_or (SchedulerTickOverflow now delay) (checked_add now delay)) (\<lambda>t.
       if target \<noteq> p then
         st_try s (remote_delivery_before_lookahead_error p target now t (sch_min_remote_delay s)) (\<lambda>err.
         case err of Some e \<Rightarrow> (s, Inl e) | None \<Rightarrow> schedule_at s target t c)
       else schedule_at s target t c))"

text \<open>
  The program of a serial callback.  \<open>SerialEffect\<close> changes the simulated system and continues with what
  it was before; the checkpoint operations are those of \<open>SchedulerCheckpointAccess\<close>, whose read-only
  methods are functions of the snapshot.
\<close>

datatype ('c, 'w) serial_script =
    SerialDone
  | SerialPanic
  | SerialEffect "'w \<Rightarrow> 'w" "'w \<Rightarrow> ('c, 'w) serial_script"
  | SerialLocalAfter tick 'c "SchedulerError + partition_event_id \<Rightarrow> ('c, 'w) serial_script"
  | SerialRemoteAfter PartitionId tick 'c "SchedulerError + partition_event_id \<Rightarrow> ('c, 'w) serial_script"
  | SerialSnapshot "scheduler_snapshot \<Rightarrow> ('c, 'w) serial_script"
  | SerialRestoreQuiescent scheduler_snapshot "SchedulerError + unit \<Rightarrow> ('c, 'w) serial_script"
  | SerialRestoreProjection scheduler_snapshot "pending_event_snapshot list" "pending_event_snapshot list"
      "SchedulerError + unit \<Rightarrow> ('c, 'w) serial_script"
  | SerialDiscard "pending_event_snapshot list" "SchedulerError + unit \<Rightarrow> ('c, 'w) serial_script"

type_synonym ('c, 'w) serial_code = "'c \<Rightarrow> PartitionId \<Rightarrow> tick \<Rightarrow> ('c, 'w) serial_script"

datatype scheduler_panic = NoPendingEvent | ParallelEventInSerialDispatcher | CallbackPanicked

type_synonym ('c, 'w, 'a) serial_outcome = "('c scheduler \<times> 'w, scheduler_panic, 'a) outcome"

primrec run_serial_script ::
  "PartitionId \<Rightarrow> tick \<Rightarrow> ('c, 'w) serial_script \<Rightarrow> 'c scheduler \<Rightarrow> 'w \<Rightarrow> ('c, 'w, unit) serial_outcome" where
  "run_serial_script p now SerialDone = (\<lambda>s w. ((s, w), Inr ()))"
| "run_serial_script p now SerialPanic = (\<lambda>s w. ((s, w), Inl CallbackPanicked))"
| "run_serial_script p now (SerialEffect f k) = (\<lambda>s w. run_serial_script p now (k w) s (f w))"
| "run_serial_script p now (SerialLocalAfter delay c k) = (\<lambda>s w.
     let o1 = serial_schedule_local_after s p now delay c in run_serial_script p now (k (snd o1)) (fst o1) w)"
| "run_serial_script p now (SerialRemoteAfter target delay c k) = (\<lambda>s w.
     let o1 = serial_schedule_remote_after s p now target delay c in run_serial_script p now (k (snd o1)) (fst o1) w)"
| "run_serial_script p now (SerialSnapshot k) = (\<lambda>s w.
     run_serial_script p now (k (scheduler_snapshot_of s)) s w)"
| "run_serial_script p now (SerialRestoreQuiescent sn k) = (\<lambda>s w.
     let o1 = restore_quiescent s sn in run_serial_script p now (k (snd o1)) (fst o1) w)"
| "run_serial_script p now (SerialRestoreProjection sn discarded preserved k) = (\<lambda>s w.
     let o1 = restore_checkpoint_projection s sn discarded preserved
     in run_serial_script p now (k (snd o1)) (fst o1) w)"
| "run_serial_script p now (SerialDiscard events k) = (\<lambda>s w.
     let o1 = discard_exact_events s events in run_serial_script p now (k (snd o1)) (fst o1) w)"

section \<open>Serial runs\<close>

record run_summary =
  rs_executed_events :: nat
  rs_final_tick :: tick

record conservative_run_summary =
  crs_epochs :: nat
  crs_executed_events :: nat
  crs_final_tick :: tick

definition advance_partitions_to :: "'c scheduler \<Rightarrow> tick \<Rightarrow> 'c scheduler" where
  "advance_partitions_to s t =
     s\<lparr>sch_partitions := map (\<lambda>q. if pq_now q < t then q\<lparr>pq_now := t\<rparr> else q) (sch_partitions s), sch_now := t\<rparr>"

definition dispatch_next_in_partition ::
  "('c, 'w) serial_code \<Rightarrow> 'c scheduler \<Rightarrow> 'w \<Rightarrow> PartitionId \<Rightarrow> ('c, 'w, unit) serial_outcome" where
  "dispatch_next_in_partition code s w p =
    (case pop_next (sch_partitions s ! p) of
       None \<Rightarrow> ((s, w), Inl NoPendingEvent)
     | Some (e, q) \<Rightarrow>
         let s1 = (set_partition s p (q\<lparr>pq_now := pe_tick e\<rparr>))\<lparr>sch_now := pe_tick e\<rparr>
         in (case pe_callback e of
               SerialCallback c \<Rightarrow> run_serial_script p (pe_tick e) (code c p (pe_tick e)) s1 w
             | ParallelCallback _ \<Rightarrow> ((s1, w), Inl ParallelEventInSerialDispatcher)))"

text \<open>The first pending tick of every partition that has one, in the order of the partitions.\<close>

definition pending_ticks :: "'c scheduler \<Rightarrow> (tick \<times> PartitionId) list" where
  "pending_ticks s =
     List.map_filter (\<lambda>(p, q). map_option (\<lambda>t. (t, p)) (peek_tick q)) (enumerate 0 (sch_partitions s))"

definition next_partition_with_event :: "'c scheduler \<Rightarrow> PartitionId option" where
  "next_partition_with_event s = map_option snd (min_list_option (pending_ticks s))"

definition next_partition_with_event_at_or_before :: "'c scheduler \<Rightarrow> tick \<Rightarrow> PartitionId option" where
  "next_partition_with_event_at_or_before s horizon =
     map_option snd (min_list_option (filter (\<lambda>(t, _). t \<le> horizon) (pending_ticks s)))"

definition next_epoch_horizon :: "'c scheduler \<Rightarrow> tick option" where
  "next_epoch_horizon s =
     Option.bind (those (map (\<lambda>q. checked_add (pq_now q) (sch_min_remote_delay s)) (sch_partitions s)))
       min_list_option"

record epoch_plan =
  ep_horizon :: tick
  ep_ready_partitions :: "(PartitionId \<times> tick) list"

definition plan_next_epoch :: "'c scheduler \<Rightarrow> epoch_plan option" where
  "plan_next_epoch s =
    (if is_idle s then None
     else map_option (\<lambda>horizon.
       \<lparr>ep_horizon = horizon,
        ep_ready_partitions = map prod.swap (filter (\<lambda>(t, _). t \<le> horizon) (pending_ticks s))\<rparr>)
       (next_epoch_horizon s))"

definition run_until_idle_body ::
  "('c, 'w) serial_code \<Rightarrow> nat \<times> 'c scheduler \<times> 'w \<Rightarrow>
   ((nat \<times> 'c scheduler \<times> 'w) + ('c, 'w, run_summary) serial_outcome) option" where
  "run_until_idle_body code = (\<lambda>(executed, s, w).
    (case next_partition_with_event s of
       None \<Rightarrow>
         let s' = advance_partitions_to s (sch_now s)
         in Some (Inr ((s', w), Inr \<lparr>rs_executed_events = executed, rs_final_tick = sch_now s'\<rparr>))
     | Some p \<Rightarrow>
         (case dispatch_next_in_partition code s w p of
            (sw, Inl panic) \<Rightarrow> Some (Inr (sw, Inl panic))
          | ((s', w'), Inr _) \<Rightarrow> Some (Inl (executed + 1, s', w')))))"

definition run_until_idle ::
  "('c, 'w) serial_code \<Rightarrow> 'c scheduler \<Rightarrow> 'w \<Rightarrow> ('c, 'w, run_summary) serial_outcome option" where
  "run_until_idle code s w = loop (run_until_idle_body code) (0, s, w)"

definition serial_epoch_body ::
  "('c, 'w) serial_code \<Rightarrow> tick \<Rightarrow> nat \<times> 'c scheduler \<times> 'w \<Rightarrow>
   ((nat \<times> 'c scheduler \<times> 'w) + ('c, 'w, run_summary) serial_outcome) option" where
  "serial_epoch_body code horizon = (\<lambda>(executed, s, w).
    (case next_partition_with_event_at_or_before s horizon of
       None \<Rightarrow>
         Some (Inr ((advance_partitions_to s horizon, w),
           Inr \<lparr>rs_executed_events = executed, rs_final_tick = horizon\<rparr>))
     | Some p \<Rightarrow>
         (case dispatch_next_in_partition code s w p of
            (sw, Inl panic) \<Rightarrow> Some (Inr (sw, Inl panic))
          | ((s', w'), Inr _) \<Rightarrow>
              if sch_timeline_revision s' \<noteq> sch_timeline_revision s then
                Some (Inr ((advance_partitions_to s' (sch_now s'), w'),
                  Inr \<lparr>rs_executed_events = executed + 1, rs_final_tick = sch_now s'\<rparr>))
              else Some (Inl (executed + 1, s', w')))))"

definition run_serial_epoch_to ::
  "('c, 'w) serial_code \<Rightarrow> 'c scheduler \<Rightarrow> 'w \<Rightarrow> tick \<Rightarrow> ('c, 'w, run_summary) serial_outcome option" where
  "run_serial_epoch_to code s w horizon = loop (serial_epoch_body code horizon) (0, s, w)"

definition run_next_epoch ::
  "('c, 'w) serial_code \<Rightarrow> 'c scheduler \<Rightarrow> 'w \<Rightarrow> ('c, 'w, run_summary) serial_outcome option" where
  "run_next_epoch code s w =
    (case plan_next_epoch s of
       None \<Rightarrow> Some ((s, w), Inr \<lparr>rs_executed_events = 0, rs_final_tick = sch_now s\<rparr>)
     | Some plan \<Rightarrow> run_serial_epoch_to code s w (ep_horizon plan))"

text \<open>The outer option is that of the source: no epoch is run at the limit or without events.\<close>

definition run_next_epoch_until ::
  "('c, 'w) serial_code \<Rightarrow> 'c scheduler \<Rightarrow> 'w \<Rightarrow> tick \<Rightarrow>
   ('c, 'w, run_summary option) serial_outcome option" where
  "run_next_epoch_until code s w tick_limit =
    (if is_idle s \<or> tick_limit \<le> sch_now s then Some ((s, w), Inr None)
     else
       (case plan_next_epoch s of
          None \<Rightarrow> Some ((s, w), Inr None)
        | Some plan \<Rightarrow>
            map_option (map_prod id (map_ok Some))
              (run_serial_epoch_to code s w (min (ep_horizon plan) tick_limit))))"

definition conservative_body ::
  "('c, 'w) serial_code \<Rightarrow> nat \<times> nat \<times> 'c scheduler \<times> 'w \<Rightarrow>
   ((nat \<times> nat \<times> 'c scheduler \<times> 'w) + ('c, 'w, conservative_run_summary) serial_outcome) option" where
  "conservative_body code = (\<lambda>(epochs, executed, s, w).
    (let summary = (\<lambda>epochs executed s. \<lparr>crs_epochs = epochs, crs_executed_events = executed, crs_final_tick = sch_now s\<rparr>)
     in if plan_next_epoch s = None then Some (Inr ((s, w), Inr (summary epochs executed s)))
        else
          Option.bind (run_next_epoch code s w) (\<lambda>r.
            case r of
              (sw, Inl panic) \<Rightarrow> Some (Inr (sw, Inl panic))
            | ((s', w'), Inr rs) \<Rightarrow>
                let executed' = executed + rs_executed_events rs
                in if rs_final_tick rs = sch_now s \<and> rs_executed_events rs = 0
                   then Some (Inr ((s', w'), Inr (summary (epochs + 1) executed' s')))
                   else Some (Inl (epochs + 1, executed', s', w')))))"

definition run_until_idle_conservative ::
  "('c, 'w) serial_code \<Rightarrow> 'c scheduler \<Rightarrow> 'w \<Rightarrow> ('c, 'w, conservative_run_summary) serial_outcome option" where
  "run_until_idle_conservative code s w = loop (conservative_body code) (0, 0, s, w)"

end
