(* ===== verification/Scheduler_Inv.thy ===== *)
theory Scheduler_Inv
  imports Scheduler
begin

text \<open>
  The invariants of the partitioned scheduler: well-formed queues, a global clock between the partition
  clocks and the pending events, and what scheduling, restoring and running callbacks keep of them.
\<close>

section \<open>Invariants\<close>

definition wf_scheduler :: "'c scheduler \<Rightarrow> bool" where
  "wf_scheduler s \<longleftrightarrow> 0 < partition_count s \<and> 0 < sch_min_remote_delay s \<and> 0 < sch_max_parallel_workers s \<and>
     (\<forall>p < partition_count s. wf_queue p (sch_partitions s ! p))"

text \<open>The global clock lies between the partition clocks and the pending events.\<close>

definition timeline :: "'c scheduler \<Rightarrow> bool" where
  "timeline s \<longleftrightarrow> (\<forall>q \<in> set (sch_partitions s).
     pq_now q \<le> sch_now s \<and> (\<forall>e \<in> set (pq_pending q). sch_now s \<le> pe_tick e))"

definition synced :: "'c scheduler \<Rightarrow> bool" where
  "synced s \<longleftrightarrow> (\<forall>q \<in> set (sch_partitions s). pq_now q = sch_now s)"

text \<open>
  While a callback of tick \<open>t\<close> runs, the global clock is not ahead of \<open>t\<close>, unless the callback has
  restored a checkpoint; then all clocks agree.
\<close>

definition callback_inv :: "'c scheduler \<Rightarrow> tick \<Rightarrow> bool" where
  "callback_inv s t \<longleftrightarrow> wf_scheduler s \<and> timeline s \<and> (sch_now s \<le> t \<or> synced s)"

definition same_config :: "'c scheduler \<Rightarrow> 'c scheduler \<Rightarrow> bool" where
  "same_config s s' \<longleftrightarrow> partition_count s' = partition_count s \<and>
     sch_min_remote_delay s' = sch_min_remote_delay s \<and>
     sch_max_parallel_workers s' = sch_max_parallel_workers s \<and> sch_instance_id s' = sch_instance_id s"

lemma same_config_refl [simp]: "same_config s s"
  by (simp add: same_config_def)

lemma same_config_trans: "same_config s s' \<Longrightarrow> same_config s' s'' \<Longrightarrow> same_config s s''"
  by (simp add: same_config_def)

lemma set_partition_simps [simp]:
  "partition_count (set_partition s p q) = partition_count s"
  "sch_now (set_partition s p q) = sch_now s"
  "sch_min_remote_delay (set_partition s p q) = sch_min_remote_delay s"
  "sch_max_parallel_workers (set_partition s p q) = sch_max_parallel_workers s"
  "sch_instance_id (set_partition s p q) = sch_instance_id s"
  "sch_timeline_revision (set_partition s p q) = sch_timeline_revision s"
  "sch_partitions (set_partition s p q) = (sch_partitions s)[p := q]"
  by (simp_all add: set_partition_def)

lemma get_partition_Some [simp]:
  "get_partition s p = Some q \<longleftrightarrow> p < partition_count s \<and> q = sch_partitions s ! p"
  by (auto simp: get_partition_def)

lemma get_partition_None [simp]: "get_partition s p = None \<longleftrightarrow> partition_count s \<le> p"
  by (auto simp: get_partition_def)

lemma wf_scheduler_set:
  assumes "wf_scheduler s" and "wf_queue p q"
  shows "wf_scheduler (set_partition s p q)"
proof -
  have "wf_queue i ((sch_partitions s)[p := q] ! i)" if "i < partition_count s" for i
    using assms that by (cases "p = i") (auto simp: wf_scheduler_def)
  then show ?thesis using assms(1) by (simp add: wf_scheduler_def)
qed

lemma timeline_set:
  assumes "timeline s" and "pq_now q \<le> sch_now s" and "\<forall>e \<in> set (pq_pending q). sch_now s \<le> pe_tick e"
  shows "timeline (set_partition s p q)"
  using assms set_update_subset_insert [of "sch_partitions s" p q]
  by (auto simp: timeline_def dest!: subsetD)

lemma synced_set: "synced s \<Longrightarrow> pq_now q = sch_now s \<Longrightarrow> synced (set_partition s p q)"
  using set_update_subset_insert [of "sch_partitions s" p q] by (auto simp: synced_def dest!: subsetD)

lemma wf_schedulerD: "wf_scheduler s \<Longrightarrow> p < partition_count s \<Longrightarrow> wf_queue p (sch_partitions s ! p)"
  by (simp add: wf_scheduler_def)

lemma timelineD:
  assumes "timeline s" and "p < partition_count s"
  shows "pq_now (sch_partitions s ! p) \<le> sch_now s"
    and "e \<in> set (pq_pending (sch_partitions s ! p)) \<Longrightarrow> sch_now s \<le> pe_tick e"
  using assms by (auto simp: timeline_def)

lemma timeline_wf_synced:
  assumes "wf_scheduler s" and "synced s"
  shows "timeline s"
proof -
  have "pq_now q \<le> pe_tick e" if q: "q \<in> set (sch_partitions s)" and e: "e \<in> set (pq_pending q)" for q e
    using assms(1) q e by (auto simp: wf_scheduler_def wf_queue_def in_set_conv_nth [of q])
  then show ?thesis using assms(2) by (auto simp: timeline_def synced_def)
qed

subsection \<open>Scheduling and cancelling\<close>

lemma with_partition_induct:
  assumes "P s" and "\<And>q. p < partition_count s \<Longrightarrow> q = sch_partitions s ! p \<Longrightarrow> P (set_partition s p (fst (f q)))"
  shows "P (fst (with_partition s p f))"
  using assms by (auto simp: with_partition_def fst_map_prod split: option.splits)

lemma callback_inv_set:
  assumes inv: "callback_inv s t" and wf: "wf_queue p q" and now: "pq_now q = pq_now (sch_partitions s ! p)"
    and p: "p < partition_count s"
    and new: "\<And>e. e \<in> set (pq_pending q) \<Longrightarrow> e \<notin> set (pq_pending (sch_partitions s ! p)) \<Longrightarrow> sch_now s \<le> pe_tick e"
  shows "callback_inv (set_partition s p q) t"
proof -
  have tl: "timeline s" using inv by (simp add: callback_inv_def)
  have "timeline (set_partition s p q)"
    using timelineD(2) [OF tl p] timelineD(1) [OF tl p] now new by (intro timeline_set [OF tl]) auto
  moreover have "synced s \<Longrightarrow> synced (set_partition s p q)"
    using p now by (intro synced_set) (auto simp: synced_def)
  ultimately show ?thesis using inv wf by (auto simp: callback_inv_def intro: wf_scheduler_set)
qed

lemma callback_inv_schedule:
  assumes inv: "callback_inv s t" and late: "t \<le> t'"
  shows "callback_inv (fst (with_partition s p (\<lambda>q. schedule_event_at q p t' c))) t"
proof (rule with_partition_induct [where P = "\<lambda>s. callback_inv s t", OF inv])
  fix q assume p: "p < partition_count s" and q: "q = sch_partitions s ! p"
  have wf: "wf_queue p q" using inv p q by (auto simp: callback_inv_def intro: wf_schedulerD)
  have "pq_now q \<le> t' \<Longrightarrow> sch_now s \<le> t'"
    using inv late p q by (auto simp: callback_inv_def synced_def)
  then show "callback_inv (set_partition s p (fst (schedule_event_at q p t' c))) t"
    using wf_queue_schedule [OF wf, of t' c] q
    by (intro callback_inv_set [OF inv _ _ p]) (auto simp: schedule_event_at_def Let_def split: if_splits)
qed

lemma with_partition_config [simp]: "same_config s (fst (with_partition s p f))"
  by (rule with_partition_induct [where P = "same_config s"]) (simp_all add: same_config_def)

subsection \<open>Restoring\<close>

lemma res_foldl_unit: "res_foldl (\<lambda>_ x. f x) () xs = Inr () \<longleftrightarrow> (\<forall>x \<in> set xs. f x = Inr ())"
  by (induction xs) (auto simp: res_bind_eq_Inr)

lemma set_enumerate: "set (enumerate 0 xs) = (\<lambda>i. (i, xs ! i)) ` {..<length xs}"
  by (auto simp: in_set_enumerate_eq image_iff)

lemma validate_snapshot_partition_ok [simp]:
  "validate_snapshot_partition n p ps = Inr () \<longleftrightarrow> ps_partition ps = p \<and> ps_now ps = n"
  by (auto simp: validate_snapshot_partition_def)

lemma snapshot_compatible_iff:
  "validate_quiescent_snapshot_compatibility s sn = Inr () \<longleftrightarrow>
     snapshot_pending_events sn = 0 \<and> length (sn_partitions sn) = partition_count s \<and>
     (\<forall>p < partition_count s. ps_partition (sn_partitions sn ! p) = p \<and> ps_now (sn_partitions sn ! p) = sn_now sn) \<and>
     sn_min_remote_delay sn = sch_min_remote_delay s \<and> sn_max_parallel_workers sn = sch_max_parallel_workers s"
proof -
  have "res_foldl (\<lambda>_ (p, ps). validate_snapshot_partition (sn_now sn) p ps) () (enumerate 0 (sn_partitions sn)) = Inr () \<longleftrightarrow>
      (\<forall>p < length (sn_partitions sn). ps_partition (sn_partitions sn ! p) = p \<and> ps_now (sn_partitions sn ! p) = sn_now sn)"
    unfolding res_foldl_unit set_enumerate by auto
  then show ?thesis
    by (auto simp: validate_quiescent_snapshot_compatibility_def res_bind_eq_Inr)
qed

lemma revise_timeline_simps [simp]:
  "sch_partitions (revise_timeline s) = sch_partitions s" "sch_now (revise_timeline s) = sch_now s"
  "sch_min_remote_delay (revise_timeline s) = sch_min_remote_delay s"
  "sch_max_parallel_workers (revise_timeline s) = sch_max_parallel_workers s"
  "sch_instance_id (revise_timeline s) = sch_instance_id s"
  by (simp_all add: revise_timeline_def)

lemma revise_timeline_inv [simp]:
  "wf_scheduler (revise_timeline s) = wf_scheduler s" "timeline (revise_timeline s) = timeline s"
  "synced (revise_timeline s) = synced s" "callback_inv (revise_timeline s) t = callback_inv s t"
  by (simp_all add: wf_scheduler_def timeline_def synced_def callback_inv_def)

lemma queue_restore_simps [simp]:
  "pq_pending (queue_restore_quiescent q ps) = []" "pq_now (queue_restore_quiescent q ps) = ps_now ps"
  by (simp_all add: queue_restore_quiescent_def)

text \<open>A restore is refused and changes nothing, or leaves no event and all clocks at the saved tick.\<close>

lemma restore_quiescent_cases:
  assumes "wf_scheduler s"
  shows "(\<exists>e. restore_quiescent s sn = (s, Inl e)) \<or>
    (\<exists>s'. restore_quiescent s sn = (s', Inr ()) \<and> wf_scheduler s' \<and> synced s' \<and> sch_now s' = sn_now sn \<and>
      same_config s s' \<and> is_idle s' \<and> validate_quiescent_snapshot_compatibility s sn = Inr ())"
proof (cases "validate_quiescent_restore s sn")
  case (Inr u)
  then have ok: "validate_quiescent_snapshot_compatibility s sn = Inr ()"
    by (simp add: validate_quiescent_restore_def split: if_splits)
  let ?parts = "map2 queue_restore_quiescent (sch_partitions s) (sn_partitions sn)"
  let ?s = "revise_timeline (s\<lparr>sch_now := sn_now sn, sch_partitions := ?parts\<rparr>)"
  have len: "length (sn_partitions sn) = partition_count s" using ok by (simp add: snapshot_compatible_iff)
  have lenp: "length ?parts = partition_count s" using len by simp
  have q: "\<forall>q \<in> set ?parts. pq_pending q = [] \<and> pq_now q = sn_now sn"
    using len ok by (auto simp: snapshot_compatible_iff in_set_conv_nth)
  have "wf_queue p (?parts ! p)" if "p < partition_count s" for p
    using q that lenp by (metis nth_mem wf_queue_empty)
  then have "wf_scheduler ?s" using assms lenp by (simp add: wf_scheduler_def del: nth_map length_map length_zip)
  moreover have "synced ?s" using q by (simp only: synced_def revise_timeline_simps) simp
  moreover have "is_idle ?s" using q by (simp only: is_idle_def revise_timeline_simps list_all_iff) simp
  moreover have "same_config s ?s" using len by (simp add: same_config_def)
  ultimately show ?thesis using ok Inr by (intro disjI2 exI [of _ ?s]) (simp add: restore_quiescent_def)
qed (simp add: restore_quiescent_def)

subsection \<open>Checkpoints\<close>

lemma scheduler_pending_eventE:
  assumes "scheduler_pending_event s i = Some e"
  obtains x where "pid_partition i < partition_count s"
    "List.find (\<lambda>e. pe_id e = i) (pq_pending (sch_partitions s ! pid_partition i)) = Some x"
    "event_snapshot x = e" "pe_id x = i"
  using assms by (auto simp: scheduler_pending_event_def Option.bind_eq_Some_conv dest: find_SomeD)

lemma find_remove1:
  assumes "List.find P xs = Some x" and "\<not> P y"
  shows "List.find P (remove1 y xs) = Some x"
  using assms by (induction xs) (auto split: if_splits)

lemma pending_event_take:
  assumes "scheduler_pending_event s i = Some e" and "j \<noteq> i"
    and "p = pid_partition j" and "remove_event (sch_partitions s ! p) j = (q', Some x)"
  shows "scheduler_pending_event (set_partition s p q') i = Some e"
proof -
  obtain y where y: "pid_partition i < partition_count s"
      "List.find (\<lambda>e. pe_id e = i) (pq_pending (sch_partitions s ! pid_partition i)) = Some y"
      "event_snapshot y = e"
    using assms(1) by (rule scheduler_pending_eventE)
  have rm: "pe_id x = j" "pq_pending q' = remove1 x (pq_pending (sch_partitions s ! p))"
    using remove_event_SomeD [OF assms(4)] by simp_all
  show ?thesis
  proof (cases "pid_partition i = p")
    case True
    have "List.find (\<lambda>e. pe_id e = i) (pq_pending q') = Some y"
      unfolding rm(2) using y(2) True rm(1) assms(2) by (intro find_remove1) simp_all
    then show ?thesis using y True by (simp add: scheduler_pending_event_def get_partition_def)
  next
    case False
    then show ?thesis using y by (simp add: scheduler_pending_event_def get_partition_def)
  qed
qed

text \<open>Taking pending events out gives exactly the events asked for and keeps the clocks.\<close>

lemma take_events_hit:
  assumes "p = pid_partition (pes_id e)" and "p < partition_count s"
    and "remove_event (sch_partitions s ! p) (pes_id e) = (q', Some x)"
  shows "take_events s (e # es) = map_prod id ((#) x) (take_events (set_partition s p q') es)"
  using assms by (simp add: get_partition_def)

lemma take_events_cases:
  obtains (skip) "take_events s (e # es) = take_events s es"
  | (hit) q' x where "pid_partition (pes_id e) < partition_count s"
      "remove_event (sch_partitions s ! pid_partition (pes_id e)) (pes_id e) = (q', Some x)"
      "take_events s (e # es) = map_prod id ((#) x) (take_events (set_partition s (pid_partition (pes_id e)) q') es)"
proof (cases "pid_partition (pes_id e) < partition_count s")
  case True
  obtain q' r where r: "remove_event (sch_partitions s ! pid_partition (pes_id e)) (pes_id e) = (q', r)"
    by fastforce
  show ?thesis
  proof (cases r)
    case None
    then show ?thesis using skip True r by (simp add: get_partition_def)
  next
    case (Some x)
    then show ?thesis using hit True r take_events_hit by blast
  qed
next
  case False
  then show ?thesis using skip by (simp add: get_partition_def)
qed

lemma remove_event_now: "remove_event q i = (q', r) \<Longrightarrow> pq_now q' = pq_now q"
  by (auto simp: remove_event_def split: option.splits)

lemma take_events_config:
  "same_config s (fst (take_events s es)) \<and> sch_now (fst (take_events s es)) = sch_now s \<and>
   map pq_now (sch_partitions (fst (take_events s es))) = map pq_now (sch_partitions s)"
proof (induction es arbitrary: s)
  case (Cons e es)
  show ?case
  proof (cases rule: take_events_cases [of s e es])
    case (hit q' x)
    have "map pq_now ((sch_partitions s)[pid_partition (pes_id e) := q']) = map pq_now (sch_partitions s)"
      using hit(1) remove_event_now [OF hit(2)] by (simp add: map_update list_update_same_conv)
    then show ?thesis
      using Cons.IH [of "set_partition s (pid_partition (pes_id e)) q'"] unfolding hit(3)
      by (simp add: fst_map_prod same_config_def)
  qed (use Cons.IH [of s] in simp)
qed simp

lemma take_events_inv:
  assumes "wf_scheduler s"
  shows "wf_scheduler (fst (take_events s es))"
  using assms
proof (induction es arbitrary: s)
  case (Cons e es)
  show ?case
  proof (cases rule: take_events_cases [of s e es])
    case (hit q' x)
    have "wf_queue (pid_partition (pes_id e)) q'"
      using wf_queue_remove [OF wf_schedulerD [OF Cons.prems hit(1)], of "pes_id e"] hit(2) by simp
    then show ?thesis
      using Cons.IH [OF wf_scheduler_set [OF Cons.prems]] unfolding hit(3) by (simp add: fst_map_prod)
  qed (use Cons in simp)
qed simp

lemma take_events_timeline:
  assumes "timeline s"
  shows "timeline (fst (take_events s es))"
  using assms
proof (induction es arbitrary: s)
  case (Cons e es)
  show ?case
  proof (cases rule: take_events_cases [of s e es])
    case (hit q' x)
    have "set (pq_pending q') \<subseteq> set (pq_pending (sch_partitions s ! pid_partition (pes_id e)))"
      using remove_event_SomeD(3) [OF hit(2)] by (simp add: set_remove1_subset)
    then have "timeline (set_partition s (pid_partition (pes_id e)) q')"
      using timelineD [OF Cons.prems hit(1)] remove_event_now [OF hit(2)]
      by (intro timeline_set [OF Cons.prems]) auto
    then show ?thesis using Cons.IH unfolding hit(3) by (simp add: fst_map_prod)
  qed (use Cons in simp)
qed simp

lemma take_events_exact:
  assumes "\<forall>e \<in> set es. scheduler_pending_event s (pes_id e) = Some e" and "distinct (map pes_id es)"
  shows "map event_snapshot (snd (take_events s es)) = es"
  using assms
proof (induction es arbitrary: s)
  case (Cons e es)
  have pe: "scheduler_pending_event s (pes_id e) = Some e" using Cons.prems by simp
  obtain x where x: "pid_partition (pes_id e) < partition_count s"
      "List.find (\<lambda>y. pe_id y = pes_id e) (pq_pending (sch_partitions s ! pid_partition (pes_id e))) = Some x"
      "event_snapshot x = e"
    using pe by (rule scheduler_pending_eventE)
  obtain q' where q': "remove_event (sch_partitions s ! pid_partition (pes_id e)) (pes_id e) = (q', Some x)"
    using x(2) by (simp add: remove_event_def)
  have "\<forall>f \<in> set es. scheduler_pending_event (set_partition s (pid_partition (pes_id e)) q') (pes_id f) = Some f"
    using Cons.prems pending_event_take [OF _ _ refl q'] by auto
  from Cons.IH [OF this] show ?case
    using Cons.prems(2) x(3) take_events_hit [OF refl x(1) q', of es] by (simp add: snd_map_prod)
qed simp

lemma put_event_keeps:
  assumes wf: "wf_scheduler s" and sy: "synced s" and late: "sch_now s \<le> pe_tick e"
    and new: "\<forall>q \<in> set (sch_partitions s). pe_id e \<notin> pe_id ` set (pq_pending q)"
  shows "wf_scheduler (put_event s e) \<and> synced (put_event s e) \<and> sch_now (put_event s e) = sch_now s \<and>
    same_config s (put_event s e) \<and>
    (\<Union>q \<in> set (sch_partitions (put_event s e)). pe_id ` set (pq_pending q)) \<subseteq>
      insert (pe_id e) (\<Union>q \<in> set (sch_partitions s). pe_id ` set (pq_pending q))"
proof (cases "pid_partition (pe_id e) < partition_count s")
  case True
  let ?p = "pid_partition (pe_id e)" let ?q = "sch_partitions s ! pid_partition (pe_id e)"
  have q: "?q \<in> set (sch_partitions s)" using True by simp
  have now: "pq_now ?q = sch_now s" using sy q by (simp add: synced_def)
  have "pe_id e \<notin> pe_id ` set (pq_pending ?q)" using new q by blast
  then have wfq: "wf_queue ?p (restore_preserved_event ?q e)"
    using wf_schedulerD [OF wf True] late now by (auto simp: wf_queue_def restore_preserved_event_def)
  have put: "put_event s e = set_partition s ?p (restore_preserved_event ?q e)"
    using True by (simp add: put_event_def get_partition_def)
  have "synced (set_partition s ?p (restore_preserved_event ?q e))"
    using now by (intro synced_set [OF sy]) (simp add: restore_preserved_event_def)
  moreover have "(\<Union>q \<in> set ((sch_partitions s)[?p := restore_preserved_event ?q e]). pe_id ` set (pq_pending q)) \<subseteq>
      insert (pe_id e) (\<Union>q \<in> set (sch_partitions s). pe_id ` set (pq_pending q))"
    using set_update_subset_insert [of "sch_partitions s" ?p "restore_preserved_event ?q e"] q
    by (fastforce simp: restore_preserved_event_def)
  ultimately show ?thesis using wf_scheduler_set [OF wf wfq] by (simp add: put same_config_def)
qed (use assms in \<open>auto simp: put_event_def get_partition_def\<close>)

lemma put_events_keep:
  assumes "wf_scheduler s" and "synced s" and "\<forall>e \<in> set es. sch_now s \<le> pe_tick e"
    and "distinct (map pe_id es)"
    and "\<forall>q \<in> set (sch_partitions s). \<forall>x \<in> set (pq_pending q). pe_id x \<notin> pe_id ` set es"
  shows "wf_scheduler (foldl put_event s es) \<and> synced (foldl put_event s es) \<and>
    same_config s (foldl put_event s es)"
  using assms
proof (induction es arbitrary: s)
  case (Cons e es)
  have new: "\<forall>q \<in> set (sch_partitions s). pe_id e \<notin> pe_id ` set (pq_pending q)"
    using Cons.prems(5) by fastforce
  have "sch_now s \<le> pe_tick e" using Cons.prems(3) by simp
  note put = put_event_keeps [OF Cons.prems(1,2) this new]
  have "pe_id x \<notin> pe_id ` set es"
    if q: "q \<in> set (sch_partitions (put_event s e))" and x: "x \<in> set (pq_pending q)" for q x
  proof -
    have "pe_id x = pe_id e \<or> (\<exists>r \<in> set (sch_partitions s). \<exists>y \<in> set (pq_pending r). pe_id x = pe_id y)"
      using put q x by blast
    then show ?thesis using Cons.prems(4,5) by fastforce
  qed
  then have "wf_scheduler (foldl put_event (put_event s e) es) \<and> synced (foldl put_event (put_event s e) es) \<and>
      same_config (put_event s e) (foldl put_event (put_event s e) es)"
    using put Cons.prems(3,4) by (intro Cons.IH) simp_all
  then show ?case using put same_config_trans by auto
qed simp

lemma distinct_pending_ids:
  assumes "\<forall>e \<in> set es. scheduler_pending_event s (pes_id e) = Some e" and "distinct es"
  shows "distinct (map pes_id es)"
proof -
  have "inj_on pes_id (set es)"
  proof (rule inj_onI)
    fix x y assume "x \<in> set es" "y \<in> set es" "pes_id x = pes_id y"
    then show "x = y" using assms(1) by (metis option.inject)
  qed
  then show ?thesis using assms(2) by (simp add: distinct_map)
qed

lemma checkpoint_projection_ok:
  assumes "validate_checkpoint_projection s sn discarded preserved = Inr ()"
  shows "\<forall>e \<in> set preserved. scheduler_pending_event s (pes_id e) = Some e"
    and "distinct preserved" and "validate_quiescent_snapshot_compatibility s sn = Inr ()"
    and "\<forall>e \<in> set preserved. sn_now sn \<le> pes_tick e"
proof -
  note v = assms [unfolded validate_checkpoint_projection_def res_bind_eq_Inr, simplified, unfolded res_foldl_unit]
  show pend: "\<forall>e \<in> set preserved. scheduler_pending_event s (pes_id e) = Some e"
    using v by (auto simp: ball_Un split: if_splits)
  show "distinct preserved"
    using v by (auto simp: has_duplicate_or_conflicting_events_def split: if_splits)
  show comp: "validate_quiescent_snapshot_compatibility s sn = Inr ()" using v by blast
  have ticks: "\<forall>e \<in> set preserved. ps_now (sn_partitions sn ! pid_partition (pes_id e)) \<le> pes_tick e"
    using v by (auto simp: res_foldl_unit Let_def not_less split: if_splits)
  show "\<forall>e \<in> set preserved. sn_now sn \<le> pes_tick e"
  proof
    fix e assume e: "e \<in> set preserved"
    have "pid_partition (pes_id e) < partition_count s"
      using pend e by (auto elim: scheduler_pending_eventE)
    then show "sn_now sn \<le> pes_tick e" using comp ticks e by (auto simp: snapshot_compatible_iff)
  qed
qed

lemma callback_inv_restore:
  assumes "callback_inv s t"
  shows "callback_inv (fst (restore_quiescent s sn)) t \<and> same_config s (fst (restore_quiescent s sn))"
proof -
  have "wf_scheduler s" using assms by (simp add: callback_inv_def)
  from restore_quiescent_cases [OF this, of sn] show ?thesis
    using assms by (auto simp: callback_inv_def intro: timeline_wf_synced)
qed

lemma callback_inv_take:
  assumes "callback_inv s t"
  shows "callback_inv (fst (take_events s es)) t \<and> same_config s (fst (take_events s es))"
proof -
  have c: "sch_now (fst (take_events s es)) = sch_now s"
      "map pq_now (sch_partitions (fst (take_events s es))) = map pq_now (sch_partitions s)"
    using take_events_config [of s es] by simp_all
  have "synced s' \<longleftrightarrow> (\<forall>n \<in> set (map pq_now (sch_partitions s')). n = sch_now s')" for s' :: "'a scheduler"
    by (simp add: synced_def)
  then have "synced (fst (take_events s es)) = synced s" using c by metis
  then show ?thesis
    using assms c(1) take_events_inv take_events_timeline take_events_config [of s es]
    by (auto simp: callback_inv_def)
qed

lemma callback_inv_projection:
  assumes inv: "callback_inv s t"
  shows "callback_inv (fst (restore_checkpoint_projection s sn discarded preserved)) t \<and>
    same_config s (fst (restore_checkpoint_projection s sn discarded preserved))"
proof (cases "validate_checkpoint_projection s sn discarded preserved")
  case (Inr u)
  then have v: "validate_checkpoint_projection s sn discarded preserved = Inr ()" by simp
  note ok = checkpoint_projection_ok [OF v]
  obtain s1 kept where s1: "take_events s preserved = (s1, kept)" by fastforce
  obtain s2 gone where s2: "take_events s1 discarded = (s2, gone)" by fastforce
  have inv1: "callback_inv s1 t" "same_config s s1" using callback_inv_take [OF inv, of preserved] s1 by simp_all
  have inv2: "callback_inv s2 t" "same_config s1 s2" using callback_inv_take [OF inv1(1), of discarded] s2 by simp_all
  have kept: "map event_snapshot kept = preserved"
    using take_events_exact [OF ok(1) distinct_pending_ids [OF ok(1,2)]] s1 by simp
  have ids: "map pe_id kept = map pes_id preserved" and ticks: "map pe_tick kept = map pes_tick preserved"
    using kept by (auto simp: event_snapshot_def)
  have eq: "restore_checkpoint_projection s sn discarded preserved =
      st_bind (restore_quiescent s2 sn) (\<lambda>s3 _. (foldl put_event s3 kept, Inr ()))"
    by (simp add: restore_checkpoint_projection_def v s1 s2)
  have cfg: "same_config s s2" using same_config_trans [OF inv1(2) inv2(2)] .
  have wf2: "wf_scheduler s2" using inv2(1) by (simp add: callback_inv_def)
  from restore_quiescent_cases [OF wf2, of sn] show ?thesis
  proof (elim disjE exE conjE)
    fix e assume "restore_quiescent s2 sn = (s2, Inl e)"
    then show ?thesis using inv2(1) cfg by (simp add: eq)
  next
    fix s3 assume r: "restore_quiescent s2 sn = (s3, Inr ())" and s3: "wf_scheduler s3" "synced s3"
      "sch_now s3 = sn_now sn" "same_config s2 s3" "is_idle s3"
    have "\<forall>n \<in> set (map pe_tick kept). sn_now sn \<le> n" unfolding ticks using ok(4) by simp
    then have late: "\<forall>e \<in> set kept. sch_now s3 \<le> pe_tick e" using s3(3) by simp
    have dist: "distinct (map pe_id kept)" using distinct_pending_ids [OF ok(1,2)] ids by simp
    have none: "\<forall>q \<in> set (sch_partitions s3). \<forall>x \<in> set (pq_pending q). pe_id x \<notin> pe_id ` set kept"
      using s3(5) by (simp add: is_idle_def list_all_iff)
    note put = put_events_keep [OF s3(1,2) late dist none]
    have "same_config s (foldl put_event s3 kept)"
      using same_config_trans [OF same_config_trans [OF cfg s3(4)]] put by blast
    moreover have "callback_inv (foldl put_event s3 kept) t"
      using put timeline_wf_synced by (auto simp: callback_inv_def)
    ultimately show ?thesis by (simp add: eq r)
  qed
qed (use inv in \<open>simp add: restore_checkpoint_projection_def\<close>)

lemma callback_inv_discard:
  assumes inv: "callback_inv s t"
  shows "callback_inv (fst (discard_exact_events s events)) t \<and> same_config s (fst (discard_exact_events s events))"
proof -
  obtain s1 gone where s1: "take_events s events = (s1, gone)" by fastforce
  have "callback_inv s1 t" "same_config s s1" using callback_inv_take [OF inv, of events] s1 by simp_all
  then show ?thesis
    using inv s1 by (auto simp: discard_exact_events_def st_try_def same_config_def split: sum.splits)
qed

text \<open>
  Whatever a callback does, the invariant of a running callback is kept.
\<close>

lemma schedule_at_late:
  assumes "callback_inv s t" and "t \<le> t'"
  shows "callback_inv (fst (schedule_at s p t' c)) t \<and> same_config s (fst (schedule_at s p t' c))"
  using callback_inv_schedule [OF assms] by (simp add: schedule_at_def)

lemma callback_inv_local:
  assumes "callback_inv s t"
  shows "callback_inv (fst (serial_schedule_local_after s p t d c)) t \<and>
    same_config s (fst (serial_schedule_local_after s p t d c))"
  using assms schedule_at_late [OF assms, of "t + d"]
  by (auto simp: serial_schedule_local_after_def checked_add_def)

lemma callback_inv_remote:
  assumes "callback_inv s t"
  shows "callback_inv (fst (serial_schedule_remote_after s p t target d c)) t \<and>
    same_config s (fst (serial_schedule_remote_after s p t target d c))"
  using assms schedule_at_late [OF assms, of "t + d"]
  by (auto simp: serial_schedule_remote_after_def checked_add_def remote_delivery_before_lookahead_error_def)

lemma run_serial_script_keeps:
  assumes "callback_inv s t"
  shows "callback_inv (fst (fst (run_serial_script p t k s w))) t \<and>
    same_config s (fst (fst (run_serial_script p t k s w)))"
  using assms
proof (induction k arbitrary: s w)
  case (SerialLocalAfter d c k)
  show ?case using SerialLocalAfter.IH callback_inv_local [OF SerialLocalAfter.prems, of p d c] same_config_trans
    by (simp add: Let_def) blast
next
  case (SerialRemoteAfter target d c k)
  show ?case using SerialRemoteAfter.IH callback_inv_remote [OF SerialRemoteAfter.prems, of p target d c] same_config_trans
    by (simp add: Let_def) blast
next
  case (SerialRestoreQuiescent sn k)
  show ?case using SerialRestoreQuiescent.IH callback_inv_restore [OF SerialRestoreQuiescent.prems, of sn] same_config_trans
    by (simp add: Let_def) blast
next
  case (SerialRestoreProjection sn ds ps k)
  show ?case
    using SerialRestoreProjection.IH callback_inv_projection [OF SerialRestoreProjection.prems, of sn ds ps] same_config_trans
    by (simp add: Let_def) blast
next
  case (SerialDiscard es k)
  show ?case using SerialDiscard.IH callback_inv_discard [OF SerialDiscard.prems, of es] same_config_trans
    by (simp add: Let_def) blast
qed simp_all

subsection \<open>Dispatching\<close>

lemma min_list_option_SomeD:
  assumes "min_list_option xs = Some x"
  shows "x \<in> set xs" and "y \<in> set xs \<Longrightarrow> x \<le> y"
  using assms by (auto simp: min_list_option_def split: if_splits intro: Min_in)

lemma min_list_option_None [simp]: "min_list_option xs = None \<longleftrightarrow> xs = []"
  by (simp add: min_list_option_def)

lemma pending_ticks_iff:
  "(t, p) \<in> set (pending_ticks s) \<longleftrightarrow> p < partition_count s \<and> peek_tick (sch_partitions s ! p) = Some t"
  by (auto simp: pending_ticks_def List.map_filter_def set_enumerate image_iff)

lemma next_partitionD:
  assumes "next_partition_with_event s = Some p"
  obtains t where "p < partition_count s" "peek_tick (sch_partitions s ! p) = Some t"
    "\<And>q e. q \<in> set (sch_partitions s) \<Longrightarrow> e \<in> set (pq_pending q) \<Longrightarrow> t \<le> pe_tick e"
proof -
  obtain t where m: "min_list_option (pending_ticks s) = Some (t, p)"
    using assms by (auto simp: next_partition_with_event_def)
  have p: "p < partition_count s" "peek_tick (sch_partitions s ! p) = Some t"
    using min_list_option_SomeD(1) [OF m] by (simp_all add: pending_ticks_iff)
  have "t \<le> pe_tick e" if q: "q \<in> set (sch_partitions s)" and e: "e \<in> set (pq_pending q)" for q e
  proof -
    obtain i where i: "i < partition_count s" "q = sch_partitions s ! i" using q by (auto simp: in_set_conv_nth)
    obtain u where u: "peek_tick q = Some u" using e by (cases "peek_tick q") auto
    have "(t, p) \<le> (u, i)" using min_list_option_SomeD(2) [OF m, of "(u, i)"] i u by (simp add: pending_ticks_iff)
    then show ?thesis using peek_tick_SomeD(2) [OF u e] by (auto simp: less_eq_prod_def)
  qed
  then show ?thesis using that p by blast
qed

subsection \<open>Revisions of the timeline\<close>

text \<open>
  A program that restores or discards at most \<open>n\<close> times.  The revision is a \<open>u64\<close> that wraps around, so
  a change of the timeline is noticed when a callback makes fewer than \<open>2^64\<close> of them.
\<close>

primrec restores_at_most :: "('c, 'w) serial_script \<Rightarrow> nat \<Rightarrow> bool" where
  "restores_at_most SerialDone = (\<lambda>n. True)"
| "restores_at_most SerialPanic = (\<lambda>n. True)"
| "restores_at_most (SerialEffect f k) = (\<lambda>n. \<forall>w. restores_at_most (k w) n)"
| "restores_at_most (SerialLocalAfter delay c k) = (\<lambda>n. \<forall>r. restores_at_most (k r) n)"
| "restores_at_most (SerialRemoteAfter target delay c k) = (\<lambda>n. \<forall>r. restores_at_most (k r) n)"
| "restores_at_most (SerialSnapshot k) = (\<lambda>n. \<forall>sn. restores_at_most (k sn) n)"
| "restores_at_most (SerialRestoreQuiescent sn k) = (\<lambda>n. 0 < n \<and> (\<forall>r. restores_at_most (k r) (n - 1)))"
| "restores_at_most (SerialRestoreProjection sn ds ps k) = (\<lambda>n. 0 < n \<and> (\<forall>r. restores_at_most (k r) (n - 1)))"
| "restores_at_most (SerialDiscard es k) = (\<lambda>n. 0 < n \<and> (\<forall>r. restores_at_most (k r) (n - 1)))"

definition revised :: "'c scheduler \<Rightarrow> 'c scheduler \<Rightarrow> nat \<Rightarrow> bool" where
  "revised s s' m \<longleftrightarrow> sch_timeline_revision s' mod U64_RANGE = (sch_timeline_revision s + m) mod U64_RANGE \<and>
     (m = 0 \<longrightarrow> sch_now s' = sch_now s \<and> sch_timeline_revision s' = sch_timeline_revision s)"

lemma revised_refl [simp]: "revised s s 0"
  by (simp add: revised_def)

lemma revised_trans:
  assumes "revised s s' m" and "revised s' s'' n"
  shows "revised s s'' (m + n)"
proof -
  have "sch_timeline_revision s'' mod U64_RANGE = (sch_timeline_revision s' mod U64_RANGE + n) mod U64_RANGE"
    using assms(2) by (simp add: revised_def mod_add_left_eq)
  also have "\<dots> = (sch_timeline_revision s + (m + n)) mod U64_RANGE"
    using assms(1) by (simp add: revised_def mod_add_left_eq add.assoc)
  finally show ?thesis using assms by (simp add: revised_def)
qed

lemma revised_revise: "sch_timeline_revision s' = sch_timeline_revision s \<Longrightarrow> revised s (revise_timeline s') (Suc 0)"
  by (simp add: revised_def revise_timeline_def)

lemma revised_restore: "\<exists>m \<le> 1. revised s (fst (restore_quiescent s sn)) m"
proof (cases "validate_quiescent_restore s sn")
  case (Inr u)
  then show ?thesis by (intro exI [of _ 1]) (simp add: restore_quiescent_def revised_revise)
qed (intro exI [of _ 0], simp add: restore_quiescent_def)

lemma take_events_revision: "sch_timeline_revision (fst (take_events s es)) = sch_timeline_revision s"
proof (induction es arbitrary: s)
  case (Cons e es)
  show ?case
    by (cases rule: take_events_cases [of s e es]) (simp_all add: Cons.IH fst_map_prod del: take_events.simps)
qed simp

lemma revised_take: "revised s (fst (take_events s es)) 0"
  using take_events_revision [of s es] take_events_config [of s es] by (simp add: revised_def)

lemma put_event_revision: "revised s (put_event s e) 0"
  by (simp add: put_event_def revised_def split: option.splits)

lemma put_events_revision: "revised s (foldl put_event s es) 0"
proof (induction es arbitrary: s)
  case (Cons e es)
  show ?case using revised_trans [OF put_event_revision [of s e] Cons] by simp
qed simp

lemma revised_projection: "\<exists>m \<le> 1. revised s (fst (restore_checkpoint_projection s sn ds ps)) m"
proof (cases "validate_checkpoint_projection s sn ds ps")
  case (Inr u)
  obtain s1 kept where s1: "take_events s ps = (s1, kept)" by fastforce
  obtain s2 gone where s2: "take_events s1 ds = (s2, gone)" by fastforce
  obtain s3 r where s3: "restore_quiescent s2 sn = (s3, r)" by fastforce
  have r2: "revised s s2 0"
    using revised_trans [OF revised_take [of s ps] revised_take [of "fst (take_events s ps)" ds]] s1 s2 by simp
  obtain m where m: "m \<le> 1" "revised s2 s3 m" using revised_restore [of s2 sn] s3 by auto
  have "revised s s3 m" using revised_trans [OF r2 m(2)] by simp
  moreover have "revised s (foldl put_event s3 kept) m"
    using revised_trans [OF calculation put_events_revision [of s3 kept]] by simp
  ultimately show ?thesis using Inr s1 s2 s3 m(1)
    by (cases r) (auto simp: restore_checkpoint_projection_def)
qed (intro exI [of _ 0], simp add: restore_checkpoint_projection_def)

lemma revised_discard: "\<exists>m \<le> 1. revised s (fst (discard_exact_events s es)) m"
proof -
  obtain s1 gone where s1: "take_events s es = (s1, gone)" by fastforce
  have r1: "revised s s1 0" using revised_take [of s es] s1 by simp
  then have "revised s (revise_timeline s1) (Suc 0)" by (intro revised_revise) (simp add: revised_def)
  then show ?thesis using r1 s1
    by (auto simp: discard_exact_events_def st_try_def split: sum.splits)
qed

lemma revised_schedule [simp]: "revised s (fst (schedule_at s p t c)) 0"
  unfolding schedule_at_def
  by (rule with_partition_induct [where P = "\<lambda>s'. revised s s' 0"]) (simp_all add: revised_def)

lemma revised_local [simp]: "revised s (fst (serial_schedule_local_after s p t d c)) 0"
  by (simp add: serial_schedule_local_after_def st_try_def split: sum.splits)

lemma revised_remote [simp]: "revised s (fst (serial_schedule_remote_after s p t target d c)) 0"
  by (simp add: serial_schedule_remote_after_def st_try_def split: sum.splits option.splits)

lemma revised_step:
  assumes "revised s s1 m" and "m \<le> i" and "\<exists>k \<le> n. revised s1 s2 k" and "i + n \<le> j"
  shows "\<exists>k \<le> j. revised s s2 k"
  using assms revised_trans by (metis add_mono order_trans)

lemma run_serial_script_revised:
  "restores_at_most k n \<Longrightarrow> \<exists>m \<le> n. revised s (fst (fst (run_serial_script p t k s w))) m"
proof (induction k arbitrary: s w n)
  case (SerialLocalAfter d c k)
  show ?case
    using revised_step [OF revised_local [of s p t d c] le0 SerialLocalAfter.IH [of _ n]] SerialLocalAfter.prems
    by (simp add: Let_def)
next
  case (SerialRemoteAfter target d c k)
  show ?case
    using revised_step [OF revised_remote [of s p t target d c] le0 SerialRemoteAfter.IH [of _ n]] SerialRemoteAfter.prems
    by (simp add: Let_def)
next
  case (SerialRestoreQuiescent sn k)
  obtain m where "m \<le> 1" "revised s (fst (restore_quiescent s sn)) m" using revised_restore by blast
  then show ?case
    using revised_step [OF _ _ SerialRestoreQuiescent.IH [of _ "n - 1"]] SerialRestoreQuiescent.prems
    by (simp add: Let_def)
next
  case (SerialRestoreProjection sn ds ps k)
  obtain m where "m \<le> 1" "revised s (fst (restore_checkpoint_projection s sn ds ps)) m" using revised_projection by blast
  then show ?case
    using revised_step [OF _ _ SerialRestoreProjection.IH [of _ "n - 1"]] SerialRestoreProjection.prems
    by (simp add: Let_def)
next
  case (SerialDiscard es k)
  obtain m where "m \<le> 1" "revised s (fst (discard_exact_events s es)) m" using revised_discard by blast
  then show ?case
    using revised_step [OF _ _ SerialDiscard.IH [of _ "n - 1"]] SerialDiscard.prems
    by (simp add: Let_def)
qed auto

lemma unrevised_now:
  assumes "revised s s' m" and "m < U64_RANGE" and "sch_timeline_revision s' = sch_timeline_revision s"
  shows "sch_now s' = sch_now s"
proof -
  have "sch_timeline_revision s mod U64_RANGE = (sch_timeline_revision s + m) mod U64_RANGE"
    using assms(1,3) by (simp add: revised_def)
  then have "U64_RANGE dvd sch_timeline_revision s + m - sch_timeline_revision s"
    by (intro mod_eq_dvd_iff_nat [THEN iffD1]) simp_all
  then have "m = 0" using assms(2) by (auto dest: dvd_imp_le)
  then show ?thesis using assms(1) by (simp add: revised_def)
qed

subsection \<open>Serial runs\<close>

definition bounded_code :: "('c, 'w) serial_code \<Rightarrow> bool" where
  "bounded_code code \<longleftrightarrow> (\<forall>c p t. restores_at_most (code c p t) (U64_RANGE - 1))"

lemma next_partition_beforeD:
  assumes "next_partition_with_event_at_or_before s h = Some p"
  obtains t where "p < partition_count s" "peek_tick (sch_partitions s ! p) = Some t" "t \<le> h"
    "\<And>q e. q \<in> set (sch_partitions s) \<Longrightarrow> e \<in> set (pq_pending q) \<Longrightarrow> t \<le> pe_tick e"
proof -
  obtain t where m: "min_list_option (filter (\<lambda>(t, _). t \<le> h) (pending_ticks s)) = Some (t, p)"
    using assms by (auto simp: next_partition_with_event_at_or_before_def)
  have p: "p < partition_count s" "peek_tick (sch_partitions s ! p) = Some t" "t \<le> h"
    using min_list_option_SomeD(1) [OF m] by (simp_all add: pending_ticks_iff)
  have "t \<le> pe_tick e" if q: "q \<in> set (sch_partitions s)" and e: "e \<in> set (pq_pending q)" for q e
  proof -
    obtain i where i: "i < partition_count s" "q = sch_partitions s ! i" using q by (auto simp: in_set_conv_nth)
    obtain u where u: "peek_tick q = Some u" using e by (cases "peek_tick q") auto
    have "u \<le> h \<Longrightarrow> (t, p) \<le> (u, i)"
      using min_list_option_SomeD(2) [OF m, of "(u, i)"] i u by (simp add: pending_ticks_iff)
    then have "t \<le> u" using p(3) by (cases "u \<le> h") (auto simp: less_eq_prod_def)
    then show ?thesis using peek_tick_SomeD(2) [OF u e] by simp
  qed
  then show ?thesis using that p by blast
qed

lemma no_partition_before:
  assumes "next_partition_with_event_at_or_before s h = None" and "q \<in> set (sch_partitions s)"
    and "e \<in> set (pq_pending q)"
  shows "h < pe_tick e"
proof (rule ccontr)
  assume "\<not> h < pe_tick e"
  obtain i where i: "i < partition_count s" "q = sch_partitions s ! i" using assms(2) by (auto simp: in_set_conv_nth)
  obtain u where u: "peek_tick q = Some u" using assms(3) by (cases "peek_tick q") auto
  have "u \<le> h" using peek_tick_SomeD(2) [OF u assms(3)] \<open>\<not> h < pe_tick e\<close> by simp
  then have "(u, i) \<in> set (filter (\<lambda>(t, _). t \<le> h) (pending_ticks s))" using i u by (simp add: pending_ticks_iff)
  then have "filter (\<lambda>(t, _). t \<le> h) (pending_ticks s) \<noteq> []" by (metis empty_iff list.set(1))
  then show False using assms(1) by (simp add: next_partition_with_event_at_or_before_def)
qed

lemma no_partition_idle: "next_partition_with_event s = None \<longleftrightarrow> is_idle s"
proof -
  have none: "(\<forall>t. peek_tick q \<noteq> Some t) \<longleftrightarrow> pq_pending q = []" for q :: "'a partition_queue"
    by (metis not_Some_eq peek_tick_None)
  have "pending_ticks s = [] \<longleftrightarrow> (\<forall>p t. (t, p) \<notin> set (pending_ticks s))" by (cases "pending_ticks s") auto
  also have "\<dots> \<longleftrightarrow> (\<forall>p < partition_count s. \<forall>t. peek_tick (sch_partitions s ! p) \<noteq> Some t)"
    by (simp add: pending_ticks_iff)
  finally show ?thesis by (simp add: next_partition_with_event_def none is_idle_def list_all_length)
qed

text \<open>The state in which the callback of a dispatched event starts.\<close>

lemma dispatch_start:
  assumes wf: "wf_scheduler s" and tl: "timeline s" and p: "p < partition_count s"
    and pop: "pop_next (sch_partitions s ! p) = Some (e, q)"
    and least: "\<And>q x. q \<in> set (sch_partitions s) \<Longrightarrow> x \<in> set (pq_pending q) \<Longrightarrow> pe_tick e \<le> pe_tick x"
  shows "callback_inv ((set_partition s p (q\<lparr>pq_now := pe_tick e\<rparr>))\<lparr>sch_now := pe_tick e\<rparr>) (pe_tick e)"
proof -
  let ?s = "(set_partition s p (q\<lparr>pq_now := pe_tick e\<rparr>))\<lparr>sch_now := pe_tick e\<rparr>"
  have "wf_scheduler (set_partition s p (q\<lparr>pq_now := pe_tick e\<rparr>))"
    by (intro wf_scheduler_set [OF wf] wf_queue_pop [OF wf_schedulerD [OF wf p] pop])
  then have "wf_scheduler ?s" by (simp add: wf_scheduler_def)
  moreover have "timeline ?s"
  proof -
    have now: "sch_now s \<le> pe_tick e" using timelineD(2) [OF tl p] pop_next_SomeD(1) [OF pop] by simp
    have "pq_now r \<le> pe_tick e \<and> (\<forall>x \<in> set (pq_pending r). pe_tick e \<le> pe_tick x)"
      if "r \<in> set ((sch_partitions s)[p := q\<lparr>pq_now := pe_tick e\<rparr>])" for r
    proof (cases "r = q\<lparr>pq_now := pe_tick e\<rparr>")
      case True
      have "set (pq_pending q) \<subseteq> set (pq_pending (sch_partitions s ! p))"
        using pop_next_SomeD(2) [OF pop] by (simp add: set_remove1_subset)
      then show ?thesis using True least [OF nth_mem [OF p]] by auto
    next
      case False
      then have "r \<in> set (sch_partitions s)" using that set_update_subset_insert by fast
      then show ?thesis using tl now least by (auto simp: timeline_def intro: order_trans)
    qed
    then show ?thesis by (simp add: timeline_def)
  qed
  ultimately show ?thesis by (simp add: callback_inv_def)
qed

lemma dispatch_keeps:
  assumes wf: "wf_scheduler s" and tl: "timeline s" and p: "p < partition_count s"
    and t: "peek_tick (sch_partitions s ! p) = Some t"
    and least: "\<And>q x. q \<in> set (sch_partitions s) \<Longrightarrow> x \<in> set (pq_pending q) \<Longrightarrow> t \<le> pe_tick x"
    and run: "dispatch_next_in_partition code s w p = ((s', w'), r)"
  shows "callback_inv s' t \<and> same_config s s' \<and>
    (bounded_code code \<longrightarrow> sch_timeline_revision s' = sch_timeline_revision s \<longrightarrow> sch_now s' = t)"
proof -
  obtain e q where pop: "pop_next (sch_partitions s ! p) = Some (e, q)" and e: "pe_tick e = t"
    using peek_tick_pop [OF t] by blast
  let ?s = "(set_partition s p (q\<lparr>pq_now := t\<rparr>))\<lparr>sch_now := t\<rparr>"
  have start: "callback_inv ?s t"
    using dispatch_start [OF wf tl p pop] least unfolding e by blast
  have cfg: "same_config s ?s" by (simp add: same_config_def)
  show ?thesis
  proof (cases "pe_callback e")
    case (SerialCallback c)
    have s': "s' = fst (fst (run_serial_script p t (code c p t) ?s w))"
      using run by (simp add: dispatch_next_in_partition_def pop e SerialCallback)
    have keeps: "callback_inv s' t" "same_config s s'"
      using run_serial_script_keeps [OF start, of p "code c p t" w] same_config_trans [OF cfg] unfolding s' by blast+
    have "sch_now s' = t" if b: "bounded_code code" and rev: "sch_timeline_revision s' = sch_timeline_revision s"
    proof -
      obtain m where m: "m \<le> U64_RANGE - 1" "revised ?s s' m"
        using run_serial_script_revised [of "code c p t" "U64_RANGE - 1" ?s p t w] b unfolding s' bounded_code_def by blast
      have "sch_now s' = sch_now ?s" using m rev by (intro unrevised_now [OF m(2)]) simp_all
      then show ?thesis by simp
    qed
    then show ?thesis using keeps by blast
  next
    case (ParallelCallback c)
    then have "s' = ?s" using run by (simp add: dispatch_next_in_partition_def pop e)
    then show ?thesis using start cfg by simp
  qed
qed

lemma advance_keeps:
  assumes wf: "wf_scheduler s"
    and clocks: "\<And>q. q \<in> set (sch_partitions s) \<Longrightarrow> pq_now q \<le> t"
    and late: "\<And>q e. q \<in> set (sch_partitions s) \<Longrightarrow> e \<in> set (pq_pending q) \<Longrightarrow> t \<le> pe_tick e"
  shows "wf_scheduler (advance_partitions_to s t) \<and> synced (advance_partitions_to s t) \<and>
    same_config s (advance_partitions_to s t) \<and> sch_now (advance_partitions_to s t) = t"
proof -
  have "wf_queue p (if pq_now (sch_partitions s ! p) < t then (sch_partitions s ! p)\<lparr>pq_now := t\<rparr> else sch_partitions s ! p)"
    if p: "p < partition_count s" for p
    using wf_schedulerD [OF wf p] late [OF nth_mem [OF p]] by (auto simp: wf_queue_def)
  then have "wf_scheduler (advance_partitions_to s t)"
    using wf by (simp add: wf_scheduler_def advance_partitions_to_def)
  then show ?thesis using clocks by (auto simp: synced_def advance_partitions_to_def same_config_def intro: antisym)
qed

lemma advance_idle [simp]: "is_idle (advance_partitions_to s t) = is_idle s"
  by (auto simp: is_idle_def advance_partitions_to_def list_all_length)

lemma outcome_loop_invariant:
  fixes body :: "'x \<Rightarrow> ('x + ('s, 'e, 'a) outcome) option"
  assumes run: "loop body x = Some (s', Inr r)" and "I x"
    and "\<And>x x'. I x \<Longrightarrow> body x = Some (Inl x') \<Longrightarrow> I x'"
    and "\<And>x s' r. I x \<Longrightarrow> body x = Some (Inr (s', Inr r)) \<Longrightarrow> Q s' r"
  shows "Q s' r"
proof -
  let ?P = "\<lambda>v :: ('s, 'e, 'a) outcome. \<forall>s' r. v = (s', Inr r) \<longrightarrow> Q s' r"
  have "?P (s', Inr r)"
  proof (rule loop_invariant [where I = I and Q = ?P, OF run assms(2)])
    show "\<And>x x'. I x \<Longrightarrow> body x = Some (Inl x') \<Longrightarrow> I x'" by (rule assms(3))
    show "\<And>x v. I x \<Longrightarrow> body x = Some (Inr v) \<Longrightarrow> ?P v" using assms(4) by simp
  qed
  then show ?thesis by simp
qed

lemma run_until_idle_step:
  assumes "wf_scheduler s" and "timeline s" and "run_until_idle_body code (n, s, w) = Some (Inl x)"
  obtains n' s' w' where "x = (n', s', w')" "wf_scheduler s'" "timeline s'" "same_config s s'"
proof -
  obtain p s' w' u where p: "next_partition_with_event s = Some p" and x: "x = (n + 1, s', w')"
      and d: "dispatch_next_in_partition code s w p = ((s', w'), u)"
    using assms(3) by (auto simp: run_until_idle_body_def Let_def split: option.splits prod.splits sum.splits)
  obtain t where t: "p < partition_count s" "peek_tick (sch_partitions s ! p) = Some t"
      "\<And>q e. q \<in> set (sch_partitions s) \<Longrightarrow> e \<in> set (pq_pending q) \<Longrightarrow> t \<le> pe_tick e"
    using p by (rule next_partitionD) blast
  show ?thesis using dispatch_keeps [OF assms(1,2) t d] x that by (auto simp: callback_inv_def)
qed

lemma run_until_idle_keeps:
  assumes run: "run_until_idle code s w = Some (sw, Inr rs)" and "wf_scheduler s" and "timeline s"
  shows "wf_scheduler (fst sw) \<and> synced (fst sw) \<and> same_config s (fst sw) \<and> is_idle (fst sw)"
proof (rule outcome_loop_invariant [OF run [unfolded run_until_idle_def],
      where I = "\<lambda>(n, s1, w1). wf_scheduler s1 \<and> timeline s1 \<and> same_config s s1"])
  fix x x' assume I: "case x of (n, s1, w1) \<Rightarrow> wf_scheduler s1 \<and> timeline s1 \<and> same_config s s1"
    and step: "run_until_idle_body code x = Some (Inl x')"
  obtain n s1 w1 where x: "x = (n, s1, w1)" by (cases x)
  show "case x' of (n, s1, w1) \<Rightarrow> wf_scheduler s1 \<and> timeline s1 \<and> same_config s s1"
  proof -
    have I1: "wf_scheduler s1" "timeline s1" "same_config s s1" using I by (simp_all add: x)
    obtain n' s' w' where "x' = (n', s', w')" "wf_scheduler s'" "timeline s'" "same_config s1 s'"
      using run_until_idle_step [OF I1(1,2) step [unfolded x]] .
    then show ?thesis using same_config_trans [OF I1(3)] by simp
  qed
next
  fix x sw rs assume I: "case x of (n, s1, w1) \<Rightarrow> wf_scheduler s1 \<and> timeline s1 \<and> same_config s s1"
    and step: "run_until_idle_body code x = Some (Inr (sw, Inr rs))"
  obtain n s1 w1 where x: "x = (n, s1, w1)" by (cases x)
  have idle: "next_partition_with_event s1 = None" and sw: "sw = (advance_partitions_to s1 (sch_now s1), w1)"
    using step by (auto simp: x run_until_idle_body_def Let_def split: option.splits prod.splits sum.splits)
  have I1: "wf_scheduler s1" "timeline s1" "same_config s s1" using I by (simp_all add: x)
  have "is_idle s1" using idle no_partition_idle by blast
  moreover have "wf_scheduler (fst sw) \<and> synced (fst sw) \<and> same_config s1 (fst sw)"
    using advance_keeps [OF I1(1), of "sch_now s1"] I1(2) unfolding sw by (auto simp: timeline_def)
  ultimately show "wf_scheduler (fst sw) \<and> synced (fst sw) \<and> same_config s (fst sw) \<and> is_idle (fst sw)"
    using same_config_trans [OF I1(3), of "fst sw"] by (simp add: sw)
qed (use assms in simp)

lemma serial_epoch_cases:
  assumes wf: "wf_scheduler s" and tl: "timeline s" and b: "bounded_code code" and h: "sch_now s \<le> h"
    and step: "serial_epoch_body code h (n, s, w) = Some r"
  obtains (iterate) n' s' w' where "r = Inl (n', s', w')" "wf_scheduler s'" "timeline s'" "sch_now s' \<le> h"
      "same_config s s'"
  | (panic) sw panic where "r = Inr (sw, Inl panic)"
  | (leave) s' w' rs where "r = Inr ((s', w'), Inr rs)" "wf_scheduler s'" "synced s'" "same_config s s'"
proof (cases "next_partition_with_event_at_or_before s h")
  case None
  have "wf_scheduler (advance_partitions_to s h) \<and> synced (advance_partitions_to s h) \<and>
      same_config s (advance_partitions_to s h)"
    using advance_keeps [OF wf, of h] tl h no_partition_before [OF None]
    by (fastforce simp: timeline_def)
  moreover have "r = Inr ((advance_partitions_to s h, w), Inr \<lparr>rs_executed_events = n, rs_final_tick = h\<rparr>)"
    using step None by (simp add: serial_epoch_body_def)
  ultimately show ?thesis using leave by blast
next
  case (Some p)
  obtain t where t: "p < partition_count s" "peek_tick (sch_partitions s ! p) = Some t" "t \<le> h"
      "\<And>q e. q \<in> set (sch_partitions s) \<Longrightarrow> e \<in> set (pq_pending q) \<Longrightarrow> t \<le> pe_tick e"
    using Some by (rule next_partition_beforeD) blast
  obtain s1 w1 u where d: "dispatch_next_in_partition code s w p = ((s1, w1), u)" by (metis surj_pair)
  have k: "wf_scheduler s1" "timeline s1" "same_config s s1"
      "sch_timeline_revision s1 = sch_timeline_revision s \<Longrightarrow> sch_now s1 = t"
    using dispatch_keeps [OF wf tl t(1,2,4) d] b by (auto simp: callback_inv_def)
  have adv: "wf_scheduler (advance_partitions_to s1 (sch_now s1)) \<and> synced (advance_partitions_to s1 (sch_now s1)) \<and>
      same_config s (advance_partitions_to s1 (sch_now s1))"
    using advance_keeps [OF k(1), of "sch_now s1"] k(2) same_config_trans [OF k(3)] by (auto simp: timeline_def)
  show ?thesis
  proof (cases u)
    case (Inl e)
    then have "r = Inr ((s1, w1), Inl e)" using step Some d by (simp add: serial_epoch_body_def)
    then show ?thesis by (rule panic)
  next
    case (Inr v)
    show ?thesis
    proof (cases "sch_timeline_revision s1 = sch_timeline_revision s")
      case True
      then have "r = Inl (n + 1, s1, w1)" using step Some d Inr by (simp add: serial_epoch_body_def)
      then show ?thesis using k True t(3) by (intro iterate) simp_all
    next
      case False
      then have "r = Inr ((advance_partitions_to s1 (sch_now s1), w1),
          Inr \<lparr>rs_executed_events = n + 1, rs_final_tick = sch_now s1\<rparr>)"
        using step Some d Inr by (simp add: serial_epoch_body_def)
      then show ?thesis using adv leave by blast
    qed
  qed
qed

lemma run_serial_epoch_keeps:
  assumes run: "run_serial_epoch_to code s w h = Some (sw, Inr rs)"
    and "wf_scheduler s" and "timeline s" and "bounded_code code" and "sch_now s \<le> h"
  shows "wf_scheduler (fst sw) \<and> synced (fst sw) \<and> same_config s (fst sw)"
proof (rule outcome_loop_invariant [OF run [unfolded run_serial_epoch_to_def],
      where I = "\<lambda>(n, s1, w1). wf_scheduler s1 \<and> timeline s1 \<and> sch_now s1 \<le> h \<and> same_config s s1"])
  fix x x' assume I: "case x of (n, s1, w1) \<Rightarrow> wf_scheduler s1 \<and> timeline s1 \<and> sch_now s1 \<le> h \<and> same_config s s1"
    and step: "serial_epoch_body code h x = Some (Inl x')"
  obtain n s1 w1 where x: "x = (n, s1, w1)" by (cases x)
  have I1: "wf_scheduler s1" "timeline s1" "sch_now s1 \<le> h" "same_config s s1" using I by (simp_all add: x)
  show "case x' of (n, s1, w1) \<Rightarrow> wf_scheduler s1 \<and> timeline s1 \<and> sch_now s1 \<le> h \<and> same_config s s1"
    by (rule serial_epoch_cases [OF I1(1,2) assms(4) I1(3) step [unfolded x]])
      (use same_config_trans [OF I1(4)] in auto)
next
  fix x sw rs assume I: "case x of (n, s1, w1) \<Rightarrow> wf_scheduler s1 \<and> timeline s1 \<and> sch_now s1 \<le> h \<and> same_config s s1"
    and step: "serial_epoch_body code h x = Some (Inr (sw, Inr rs))"
  obtain n s1 w1 where x: "x = (n, s1, w1)" by (cases x)
  have I1: "wf_scheduler s1" "timeline s1" "sch_now s1 \<le> h" "same_config s s1" using I by (simp_all add: x)
  show "wf_scheduler (fst sw) \<and> synced (fst sw) \<and> same_config s (fst sw)"
    by (rule serial_epoch_cases [OF I1(1,2) assms(4) I1(3) step [unfolded x]])
      (use same_config_trans [OF I1(4)] in auto)
qed (use assms in simp)

lemma those_checked_add:
  "those (map (\<lambda>q. checked_add (f q) d) qs) = Some hs \<longleftrightarrow>
     hs = map (\<lambda>q. f q + d) qs \<and> (\<forall>q \<in> set qs. f q + d < U64_RANGE)"
  by (induction qs arbitrary: hs) (auto simp: checked_add_def split: option.splits)

lemma plan_next_epoch_horizon:
  assumes "plan_next_epoch s = Some plan"
  shows "q \<in> set (sch_partitions s) \<Longrightarrow> ep_horizon plan \<le> pq_now q + sch_min_remote_delay s"
    and "\<exists>q \<in> set (sch_partitions s). ep_horizon plan = pq_now q + sch_min_remote_delay s"
proof -
  have "next_epoch_horizon s = Some (ep_horizon plan)"
    using assms by (auto simp: plan_next_epoch_def split: if_splits)
  then have m: "min_list_option (map (\<lambda>q. pq_now q + sch_min_remote_delay s) (sch_partitions s)) = Some (ep_horizon plan)"
    by (auto simp: next_epoch_horizon_def Option.bind_eq_Some_conv those_checked_add)
  show "q \<in> set (sch_partitions s) \<Longrightarrow> ep_horizon plan \<le> pq_now q + sch_min_remote_delay s"
    by (rule min_list_option_SomeD(2) [OF m]) simp
  show "\<exists>q \<in> set (sch_partitions s). ep_horizon plan = pq_now q + sch_min_remote_delay s"
    using min_list_option_SomeD(1) [OF m] by auto
qed

lemma run_next_epoch_keeps:
  assumes run: "run_next_epoch code s w = Some (sw, Inr rs)"
    and wf: "wf_scheduler s" and sy: "synced s" and b: "bounded_code code"
  shows "wf_scheduler (fst sw) \<and> synced (fst sw) \<and> same_config s (fst sw)"
proof (cases "plan_next_epoch s")
  case (Some plan)
  have "sch_now s \<le> ep_horizon plan" using plan_next_epoch_horizon(2) [OF Some] sy by (auto simp: synced_def)
  then show ?thesis
    using run_serial_epoch_keeps [OF _ wf timeline_wf_synced [OF wf sy] b] run Some by (simp add: run_next_epoch_def)
qed (use assms in \<open>auto simp: run_next_epoch_def\<close>)

lemma run_next_epoch_until_keeps:
  assumes run: "run_next_epoch_until code s w limit = Some (sw, Inr rs)"
    and wf: "wf_scheduler s" and sy: "synced s" and b: "bounded_code code"
  shows "wf_scheduler (fst sw) \<and> synced (fst sw) \<and> same_config s (fst sw)"
proof (cases "is_idle s \<or> limit \<le> sch_now s \<or> plan_next_epoch s = None")
  case False
  then obtain plan where plan: "plan_next_epoch s = Some plan" by auto
  have h: "sch_now s \<le> min (ep_horizon plan) limit"
    using plan_next_epoch_horizon(2) [OF plan] sy False by (auto simp: synced_def)
  obtain sw' rs' where "run_serial_epoch_to code s w (min (ep_horizon plan) limit) = Some (sw', Inr rs')" "sw' = sw"
    using run plan False by (auto simp: run_next_epoch_until_def map_ok_eq_Inr)
  then show ?thesis using run_serial_epoch_keeps [OF _ wf timeline_wf_synced [OF wf sy] b h] by simp
qed (use assms in \<open>auto simp: run_next_epoch_until_def split: if_splits\<close>)

lemma conservative_cases:
  assumes step: "conservative_body code (n, m, s, w) = Some r"
  obtains (stop) rs where "r = Inr ((s, w), Inr rs)"
  | (panic) sw panic where "r = Inr (sw, Inl panic)"
  | (epoch) sw rs where "run_next_epoch code s w = Some (sw, Inr rs)"
      "(\<exists>crs. r = Inr (sw, Inr crs)) \<or> (\<exists>n' m'. r = Inl (n', m', sw))"
proof (cases "plan_next_epoch s = None")
  case True
  then show ?thesis using step stop by (auto simp: conservative_body_def Let_def)
next
  case False
  then obtain sw v where e: "run_next_epoch code s w = Some (sw, v)"
    using step by (cases "run_next_epoch code s w") (auto simp: conservative_body_def Let_def)
  obtain s' w' where sw: "sw = (s', w')" by (cases sw)
  show ?thesis
  proof (cases v)
    case (Inl e')
    then have "r = Inr (sw, Inl e')" using step e False by (auto simp: conservative_body_def Let_def sw)
    then show ?thesis by (rule panic)
  next
    case (Inr rs)
    then have "(\<exists>crs. r = Inr (sw, Inr crs)) \<or> (\<exists>n' m'. r = Inl (n', m', sw))"
      using step e False by (auto simp: conservative_body_def Let_def sw split: if_splits)
    then show ?thesis using epoch e Inr by blast
  qed
qed

lemma run_until_idle_conservative_keeps:
  assumes run: "run_until_idle_conservative code s w = Some (sw, Inr rs)"
    and "wf_scheduler s" and "synced s" and b: "bounded_code code"
  shows "wf_scheduler (fst sw) \<and> synced (fst sw) \<and> same_config s (fst sw)"
proof (rule outcome_loop_invariant [OF run [unfolded run_until_idle_conservative_def],
      where I = "\<lambda>(n, m, s1, w1). wf_scheduler s1 \<and> synced s1 \<and> same_config s s1"])
  fix x x' assume I: "case x of (n, m, s1, w1) \<Rightarrow> wf_scheduler s1 \<and> synced s1 \<and> same_config s s1"
    and step: "conservative_body code x = Some (Inl x')"
  obtain n m s1 w1 where x: "x = (n, m, s1, w1)" by (cases x)
  show "case x' of (n, m, s1, w1) \<Rightarrow> wf_scheduler s1 \<and> synced s1 \<and> same_config s s1"
  proof (rule conservative_cases [OF step [unfolded x]])
    fix sw rs assume e: "run_next_epoch code s1 w1 = Some (sw, Inr rs)"
      and "(\<exists>crs. Inl x' = Inr (sw, Inr crs)) \<or> (\<exists>n' m'. Inl x' = Inl (n', m', sw))"
    then obtain n' m' where "x' = (n', m', sw)" by auto
    then show ?thesis
      using run_next_epoch_keeps [OF e _ _ b] I same_config_trans [of s s1 "fst sw"] unfolding x by (cases sw) simp
  qed simp_all
next
  fix x sw rs assume I: "case x of (n, m, s1, w1) \<Rightarrow> wf_scheduler s1 \<and> synced s1 \<and> same_config s s1"
    and step: "conservative_body code x = Some (Inr (sw, Inr rs))"
  obtain n m s1 w1 where x: "x = (n, m, s1, w1)" by (cases x)
  show "wf_scheduler (fst sw) \<and> synced (fst sw) \<and> same_config s (fst sw)"
  proof (rule conservative_cases [OF step [unfolded x]])
    fix sw' rs' assume e: "run_next_epoch code s1 w1 = Some (sw', Inr rs')"
      and "(\<exists>crs. Inr (sw, Inr rs) = Inr (sw', Inr crs)) \<or> (\<exists>n' m'. Inr (sw, Inr rs) = Inl (n', m', sw'))"
    then have "sw' = sw" by auto
    then show ?thesis
      using run_next_epoch_keeps [OF e _ _ b] I same_config_trans [of s s1 "fst sw"] unfolding x by simp
  qed (use I x in auto)
qed (use assms in simp)

end
