(* ===== verification/Scheduler_Serial.thy ===== *)
theory Scheduler_Serial
  imports Scheduler_Inv
begin

text \<open>
  The serial epochs of the scheduler end when every callback schedules into the future: the ticks left
  to the horizon, taken over the pending events, decrease in the multiset order with every dispatch.
\<close>

section \<open>Work before the horizon\<close>

definition sched_work :: "tick \<Rightarrow> 'c scheduler \<Rightarrow> nat multiset" where
  "sched_work h s = sum_list (map (\<lambda>q. due_work h (pq_pending q)) (sch_partitions s))"

lemma sum_list_map_update:
  fixes f :: "'a \<Rightarrow> 'b::comm_monoid_add"
  shows "p < length xs \<Longrightarrow> sum_list (map f (xs[p := y])) + f (xs ! p) = sum_list (map f xs) + f y"
proof (induction xs arbitrary: p)
  case (Cons x xs)
  then show ?case by (cases p) (auto simp: ac_simps)
qed simp

lemma sched_work_set:
  assumes "p < partition_count s"
  shows "sched_work h (set_partition s p q) + due_work h (pq_pending (sch_partitions s ! p)) =
    sched_work h s + due_work h (pq_pending q)"
  using sum_list_map_update [OF assms, of "\<lambda>q. due_work h (pq_pending q)" q] by (simp add: sched_work_def)

lemma sched_work_empty_iff:
  "sched_work h s = {#} \<longleftrightarrow> (\<forall>q \<in> set (sch_partitions s). \<forall>e \<in> set (pq_pending q). h < pe_tick e)"
proof -
  have "sum_list (map (\<lambda>q. due_work h (pq_pending q)) qs) = {#} \<longleftrightarrow>
      (\<forall>q \<in> set qs. due_work h (pq_pending q) = {#})" for qs :: "'a partition_queue list"
    by (induction qs) simp_all
  then show ?thesis by (simp add: sched_work_def due_work_empty_iff)
qed

lemma sched_work_now [simp]: "sched_work h (s\<lparr>sch_now := t\<rparr>) = sched_work h s"
  by (simp add: sched_work_def)

text \<open>Scheduling at a tick after \<open>t\<close> adds less work than an event of tick \<open>t\<close> has.\<close>

definition adds_later :: "tick \<Rightarrow> tick \<Rightarrow> 'c scheduler \<Rightarrow> 'c scheduler \<Rightarrow> bool" where
  "adds_later h t s s' \<longleftrightarrow> (\<exists>K. sched_work h s' = sched_work h s + K \<and> (\<forall>k \<in># K. k < h - t))"

lemma adds_later_refl [simp]: "adds_later h t s s"
  by (auto simp: adds_later_def)

lemma adds_later_trans: "adds_later h t s s' \<Longrightarrow> adds_later h t s' s'' \<Longrightarrow> adds_later h t s s''"
  unfolding adds_later_def by (elim exE conjE, rule_tac x = "K + Ka" in exI) (auto simp: ac_simps)

lemma adds_later_schedule:
  assumes "t < t'"
  shows "adds_later h t s (fst (schedule_at s p t' c))"
proof (cases "p < partition_count s \<and> pq_now (sch_partitions s ! p) \<le> t'")
  case True
  let ?q = "fst (schedule_event_at (sch_partitions s ! p) p t' (SerialCallback c))"
  let ?K = "if t' \<le> h then {#h - t'#} else {#}"
  have "due_work h (pq_pending ?q) = due_work h (pq_pending (sch_partitions s ! p)) + ?K"
    using True by (simp add: schedule_event_at_def Let_def)
  then have "sched_work h (set_partition s p ?q) = sched_work h s + ?K"
    using sched_work_set [of p s h ?q] True by (simp add: ac_simps)
  moreover have "fst (schedule_at s p t' c) = set_partition s p ?q"
    using True by (simp add: schedule_at_def with_partition_def get_partition_def fst_map_prod)
  ultimately show ?thesis using assms by (auto simp: adds_later_def)
next
  case False
  then have "fst (schedule_at s p t' c) = s"
    by (auto simp: schedule_at_def with_partition_def get_partition_def schedule_event_at_def set_partition_def)
  then show ?thesis by simp
qed

section \<open>Callbacks that move forward\<close>

text \<open>
  The program schedules with positive delays only and does not restore or discard events.
\<close>

primrec forward_script :: "('c, 'w) serial_script \<Rightarrow> bool" where
  "forward_script SerialDone = True"
| "forward_script SerialPanic = True"
| "forward_script (SerialEffect f k) = (\<forall>w. forward_script (k w))"
| "forward_script (SerialLocalAfter delay c k) = (0 < delay \<and> (\<forall>r. forward_script (k r)))"
| "forward_script (SerialRemoteAfter target delay c k) = (0 < delay \<and> (\<forall>r. forward_script (k r)))"
| "forward_script (SerialSnapshot k) = (\<forall>sn. forward_script (k sn))"
| "forward_script (SerialRestoreQuiescent sn k) = False"
| "forward_script (SerialRestoreProjection sn ds ps k) = False"
| "forward_script (SerialDiscard es k) = False"

definition forward_code :: "('c, 'w) serial_code \<Rightarrow> bool" where
  "forward_code code \<longleftrightarrow> (\<forall>c p t. forward_script (code c p t))"

lemma adds_later_local: "0 < d \<Longrightarrow> adds_later h t s (fst (serial_schedule_local_after s p t d c))"
  using adds_later_schedule [of t "t + d" h s p c] by (simp add: serial_schedule_local_after_def checked_add_def)

lemma adds_later_remote: "0 < d \<Longrightarrow> adds_later h t s (fst (serial_schedule_remote_after s p t target d c))"
  using adds_later_schedule [of t "t + d" h s target c]
  by (auto simp: serial_schedule_remote_after_def checked_add_def remote_delivery_before_lookahead_error_def)

lemma forward_script_keeps:
  assumes "forward_script k"
  shows "adds_later h t s (fst (fst (run_serial_script p t k s w))) \<and>
    revised s (fst (fst (run_serial_script p t k s w))) 0"
  using assms
proof (induction k arbitrary: s w)
  case (SerialLocalAfter d c k)
  then show ?case
    using adds_later_trans [OF adds_later_local [of d h t s p c]] revised_trans [OF revised_local [of s p t d c], of _ 0]
    by (simp add: Let_def)
next
  case (SerialRemoteAfter target d c k)
  then show ?case
    using adds_later_trans [OF adds_later_remote [of d h t s p target c]]
      revised_trans [OF revised_remote [of s p t target d c], of _ 0]
    by (simp add: Let_def)
qed simp_all

lemma forward_dispatch:
  assumes code: "forward_code code" and p: "p < partition_count s"
    and t: "peek_tick (sch_partitions s ! p) = Some t" "t \<le> h"
    and d: "dispatch_next_in_partition code s w p = ((s', w'), r)"
  shows "(sched_work h s', sched_work h s) \<in> mult less_than"
    and "sch_timeline_revision s' = sch_timeline_revision s"
proof -
  obtain e q where pop: "pop_next (sch_partitions s ! p) = Some (e, q)" and e: "pe_tick e = t"
    using peek_tick_pop [OF t(1)] by blast
  let ?s = "(set_partition s p (q\<lparr>pq_now := t\<rparr>))\<lparr>sch_now := t\<rparr>"
  have "due_work h (pq_pending (sch_partitions s ! p)) = add_mset (h - t) (due_work h (pq_pending q))"
    using due_work_remove1 [OF pop_next_SomeD(1) [OF pop], of h] pop_next_SomeD(2) [OF pop] t(2) e by simp
  then have work: "sched_work h s = add_mset (h - t) (sched_work h ?s)"
    using sched_work_set [OF p, of h "q\<lparr>pq_now := t\<rparr>"] by simp
  have later: "adds_later h t ?s s' \<and> revised ?s s' 0"
  proof (cases "pe_callback e")
    case (SerialCallback c)
    have "s' = fst (fst (run_serial_script p t (code c p t) ?s w))"
      using d by (simp add: dispatch_next_in_partition_def pop e SerialCallback)
    moreover have "forward_script (code c p t)" using code by (simp add: forward_code_def)
    ultimately show ?thesis using forward_script_keeps by simp
  next
    case (ParallelCallback c)
    then have "s' = ?s" using d by (simp add: dispatch_next_in_partition_def pop e)
    then show ?thesis by simp
  qed
  then obtain K where K: "sched_work h s' = sched_work h ?s + K" "\<forall>k \<in># K. k < h - t"
    by (auto simp: adds_later_def)
  show "(sched_work h s', sched_work h s) \<in> mult less_than"
    unfolding K(1) work by (rule mult_less_add) (use K(2) in blast)
  show "sch_timeline_revision s' = sch_timeline_revision s" using later by (simp add: revised_def)
qed

text \<open>The loop of a serial epoch meets the contract of a loop that ends.\<close>

lemma serial_epoch_forward:
  assumes code: "forward_code code" and step: "serial_epoch_body code h (n, s, w) = Some (Inl x)"
  obtains s' w' where "x = (n + 1, s', w')" "(sched_work h s', sched_work h s) \<in> mult less_than"
proof -
  obtain p s' w' u where p: "next_partition_with_event_at_or_before s h = Some p"
      and d: "dispatch_next_in_partition code s w p = ((s', w'), u)" and x: "x = (n + 1, s', w')"
    using step by (auto simp: serial_epoch_body_def split: option.splits prod.splits sum.splits if_splits)
  obtain t where "p < partition_count s" "peek_tick (sch_partitions s ! p) = Some t" "t \<le> h"
    using p by (rule next_partition_beforeD)
  then show ?thesis using forward_dispatch(1) [OF code _ _ _ d] x that by blast
qed

interpretation serial_epoch: decreasing_loop "serial_epoch_body code h" "\<lambda>_. forward_code code"
  "\<lambda>(n, s, w). sched_work h s" for code h
proof
  fix x :: "nat \<times> 'a scheduler \<times> 'b"
  show "serial_epoch_body code h x \<noteq> None"
    by (cases x) (simp add: serial_epoch_body_def split: option.splits prod.splits sum.splits)
next
  fix x x' :: "nat \<times> 'a scheduler \<times> 'b"
  assume code: "forward_code code" and step: "serial_epoch_body code h x = Some (Inl x')"
  obtain n s w where x: "x = (n, s, w)" by (cases x)
  obtain s' w' where "x' = (n + 1, s', w')" "(sched_work h s', sched_work h s) \<in> mult less_than"
    using serial_epoch_forward [OF code step [unfolded x]] .
  then show "((\<lambda>(n, s, w). sched_work h s) x', (\<lambda>(n, s, w). sched_work h s) x) \<in> mult less_than"
    by (simp add: x)
qed

lemma run_serial_script_panic: "run_serial_script p t k s w = (sw, Inl panic) \<Longrightarrow> panic = CallbackPanicked"
  by (induction k arbitrary: s w) (simp_all add: Let_def, blast+)

lemma serial_epoch_panic:
  assumes "run_serial_epoch_to code s w h = Some (sw, Inl panic)"
  shows "panic \<noteq> NoPendingEvent"
proof -
  have "case (sw, Inl panic :: scheduler_panic + run_summary) of (_, Inl panic) \<Rightarrow> panic \<noteq> NoPendingEvent | _ \<Rightarrow> True"
  proof (rule loop_invariant [OF assms [unfolded run_serial_epoch_to_def], where I = "\<lambda>_. True"])
    fix x v assume step: "serial_epoch_body code h x = Some (Inr v)"
    obtain n s w where x: "x = (n, s, w)" by (cases x)
    obtain sw r where v: "v = (sw, r)" by (cases v)
    show "case v of (_, Inl panic) \<Rightarrow> panic \<noteq> NoPendingEvent | _ \<Rightarrow> True"
    proof (cases r)
      case (Inl panic)
      then obtain p where p: "next_partition_with_event_at_or_before s h = Some p"
          and d: "dispatch_next_in_partition code s w p = (sw, Inl panic)"
        using step unfolding x v
        by (auto simp: serial_epoch_body_def split: option.splits prod.splits sum.splits if_splits)
      obtain t where t: "peek_tick (sch_partitions s ! p) = Some t" using p by (rule next_partition_beforeD)
      obtain e q where "pop_next (sch_partitions s ! p) = Some (e, q)" using peek_tick_pop [OF t] by blast
      then show ?thesis using d run_serial_script_panic
        by (fastforce simp: v Inl dispatch_next_in_partition_def Let_def split: partition_callback.splits)
    qed (simp add: v)
  qed simp_all
  then show ?thesis by simp
qed

lemma serial_epoch_drains:
  assumes run: "run_serial_epoch_to code s w h = Some (sw, Inr rs)" and code: "forward_code code"
  shows "rs_final_tick rs = h \<and> sch_now (fst sw) = h \<and> sched_work h (fst sw) = {#}"
proof (rule outcome_loop_invariant [OF run [unfolded run_serial_epoch_to_def], where I = "\<lambda>_. True"])
  fix x sw rs assume step: "serial_epoch_body code h x = Some (Inr (sw, Inr rs))"
  obtain n s w where x: "x = (n, s, w)" by (cases x)
  have none: "next_partition_with_event_at_or_before s h = None"
  proof (rule ccontr)
    assume "next_partition_with_event_at_or_before s h \<noteq> None"
    then obtain p where p: "next_partition_with_event_at_or_before s h = Some p" by auto
    obtain s' w' u where d: "dispatch_next_in_partition code s w p = ((s', w'), u)" by (metis surj_pair)
    obtain t where "p < partition_count s" "peek_tick (sch_partitions s ! p) = Some t" "t \<le> h"
      using p by (rule next_partition_beforeD)
    then have "sch_timeline_revision s' = sch_timeline_revision s" using forward_dispatch(2) [OF code _ _ _ d] by blast
    then show False using step p d by (cases u) (simp_all add: x serial_epoch_body_def)
  qed
  then have sw: "sw = (advance_partitions_to s h, w)" and rs: "rs_final_tick rs = h"
    using step by (auto simp: x serial_epoch_body_def)
  have "sched_work h (advance_partitions_to s h) = {#}"
    using no_partition_before [OF none] by (auto simp: sched_work_empty_iff advance_partitions_to_def)
  then show "rs_final_tick rs = h \<and> sch_now (fst sw) = h \<and> sched_work h (fst sw) = {#}"
    using sw rs by (simp add: advance_partitions_to_def)
qed simp_all

section \<open>Properties\<close>


text \<open>A scheduler with two partitions and a periodic callback, which schedules itself again every tick.\<close>

definition example_scheduler :: "nat scheduler" where
  "example_scheduler =
     \<lparr>sch_instance_id = 1, sch_timeline_revision = 0, sch_now = 0, sch_min_remote_delay = 2,
      sch_max_parallel_workers = 4,
      sch_partitions = [fst (schedule_event_at partition_queue_new 0 1 (SerialCallback 7)), partition_queue_new]\<rparr>"

definition periodic_code :: "(nat, unit) serial_code" where
  "periodic_code c p t = SerialLocalAfter 1 c (\<lambda>_. SerialDone)"


end
