(* ===== verification/Parallel_Worker.thy ===== *)
theory Parallel_Worker
  imports Scheduler
begin

text \<open>
  One worker of a parallel epoch, \<open>run_parallel_partition\<close> of \<^verbatim>\<open>crates/rem6-kernel/src/scheduler.rs\<close>, and
  the context its callbacks see.  A worker owns the queue of its partition; events for other partitions
  are collected and merged after all workers have ended.

  The program of a parallel callback schedules events, records progress and may panic.  What it does to
  the simulated system beside the scheduler is not part of the model.
\<close>

section \<open>Records\<close>

datatype LivelockTransitionKind =
    SchedulerEpoch
  | ProtocolRetry
  | QueueRotation
  | MessageRetry
  | ResourceArbitration

record progress_transition_record =
  ptr_partition :: PartitionId
  ptr_subject :: WaitForNode
  ptr_kind :: LivelockTransitionKind
  ptr_tick :: tick
  ptr_order :: nat

record 'c remote_scheduled_event =
  rse_source :: PartitionId
  rse_target :: PartitionId
  rse_source_tick :: tick
  rse_tick :: tick
  rse_order :: nat
  rse_callback :: 'c

text \<open>What the context shares with the scheduler, and what its callbacks change.\<close>

record parallel_env =
  env_partition :: PartitionId
  env_partition_nows :: "tick list"
  env_min_remote_delay :: tick

record 'c parallel_context =
  pc_queue :: "'c partition_queue"
  pc_remote_events :: "'c remote_scheduled_event list"
  pc_next_remote_order :: nat
  pc_progress_transitions :: "progress_transition_record list"
  pc_next_progress_order :: nat

section \<open>Operations of a parallel callback\<close>

definition record_progress_transition ::
  "parallel_env \<Rightarrow> tick \<Rightarrow> WaitForNode \<Rightarrow> LivelockTransitionKind \<Rightarrow> 'c parallel_context \<Rightarrow> 'c parallel_context" where
  "record_progress_transition env now subject kind ctx =
     ctx\<lparr>pc_next_progress_order := pc_next_progress_order ctx + 1,
         pc_progress_transitions := pc_progress_transitions ctx @
           [\<lparr>ptr_partition = env_partition env, ptr_subject = subject, ptr_kind = kind, ptr_tick = now,
             ptr_order = pc_next_progress_order ctx\<rparr>]\<rparr>"

definition parallel_schedule_local_after ::
  "parallel_env \<Rightarrow> tick \<Rightarrow> tick \<Rightarrow> 'c \<Rightarrow> 'c parallel_context \<Rightarrow>
   ('c parallel_context, SchedulerError, partition_event_id) outcome" where
  "parallel_schedule_local_after env now delay c ctx =
     st_try ctx (ok_or (SchedulerTickOverflow now delay) (checked_add now delay)) (\<lambda>t.
     map_prod (\<lambda>q. ctx\<lparr>pc_queue := q\<rparr>) id
       (schedule_event_at (pc_queue ctx) (env_partition env) t (ParallelCallback c)))"

definition parallel_schedule_remote_after ::
  "parallel_env \<Rightarrow> tick \<Rightarrow> PartitionId \<Rightarrow> tick \<Rightarrow> 'c \<Rightarrow> 'c parallel_context \<Rightarrow>
   ('c parallel_context, SchedulerError, partition_event_id) outcome" where
  "parallel_schedule_remote_after env now target delay c ctx =
    (let source = env_partition env; nows = env_partition_nows env
     in if length nows \<le> target then (ctx, Inl (UnknownPartition target (length nows)))
        else if target \<noteq> source \<and> delay = 0 then (ctx, Inl (ZeroDelayRemoteMessage source target))
        else if target = source then parallel_schedule_local_after env now delay c ctx
        else
          st_try ctx (ok_or (SchedulerTickOverflow now delay) (checked_add now delay)) (\<lambda>t.
          st_try ctx (remote_delivery_before_lookahead_error source target now t (env_min_remote_delay env)) (\<lambda>err.
          case err of
            Some e \<Rightarrow> (ctx, Inl e)
          | None \<Rightarrow>
              if t < nows ! target then (ctx, Inl (PartitionInThePast target (nows ! target) t))
              else
                let order = pc_next_remote_order ctx
                in (ctx\<lparr>pc_next_remote_order := order + 1,
                        pc_remote_events := pc_remote_events ctx @
                          [\<lparr>rse_source = source, rse_target = target, rse_source_tick = now, rse_tick = t,
                            rse_order = order, rse_callback = c\<rparr>]\<rparr>,
                    Inr \<lparr>pid_partition = target, pid_local = order\<rparr>))))"

datatype 'c parallel_script =
    ParallelDone
  | ParallelPanic
  | ParallelProgress WaitForNode LivelockTransitionKind "'c parallel_script"
  | ParallelLocalAfter tick 'c "SchedulerError + partition_event_id \<Rightarrow> 'c parallel_script"
  | ParallelRemoteAfter PartitionId tick 'c "SchedulerError + partition_event_id \<Rightarrow> 'c parallel_script"

type_synonym 'c parallel_code = "'c \<Rightarrow> PartitionId \<Rightarrow> tick \<Rightarrow> 'c parallel_script"

text \<open>The flag says whether the callback panicked.\<close>

primrec run_parallel_script ::
  "parallel_env \<Rightarrow> tick \<Rightarrow> 'c parallel_script \<Rightarrow> 'c parallel_context \<Rightarrow> 'c parallel_context \<times> bool" where
  "run_parallel_script env now ParallelDone = (\<lambda>ctx. (ctx, False))"
| "run_parallel_script env now ParallelPanic = (\<lambda>ctx. (ctx, True))"
| "run_parallel_script env now (ParallelProgress subject kind k) = (\<lambda>ctx.
     run_parallel_script env now k (record_progress_transition env now subject kind ctx))"
| "run_parallel_script env now (ParallelLocalAfter delay c k) = (\<lambda>ctx.
     let o1 = parallel_schedule_local_after env now delay c ctx
     in run_parallel_script env now (k (snd o1)) (fst o1))"
| "run_parallel_script env now (ParallelRemoteAfter target delay c k) = (\<lambda>ctx.
     let o1 = parallel_schedule_remote_after env now target delay c ctx
     in run_parallel_script env now (k (snd o1)) (fst o1))"

section \<open>The worker\<close>

record 'c parallel_partition_result =
  ppr_index :: PartitionId
  ppr_queue :: "'c partition_queue"
  ppr_executed_events :: nat
  ppr_dispatches :: "dispatch_record list"
  ppr_remote_events :: "'c remote_scheduled_event list"
  ppr_progress_transitions :: "progress_transition_record list"
  ppr_error :: "SchedulerError option"

definition worker_result ::
  "parallel_env \<Rightarrow> nat \<Rightarrow> dispatch_record list \<Rightarrow> 'c parallel_context \<Rightarrow> SchedulerError option \<Rightarrow>
   'c parallel_partition_result" where
  "worker_result env executed dispatches ctx err =
     \<lparr>ppr_index = env_partition env,
      ppr_queue = (pc_queue ctx)\<lparr>pq_next_remote_order := pc_next_remote_order ctx,
                                 pq_next_progress_order := pc_next_progress_order ctx\<rparr>,
      ppr_executed_events = executed, ppr_dispatches = dispatches,
      ppr_remote_events = pc_remote_events ctx, ppr_progress_transitions = pc_progress_transitions ctx,
      ppr_error = err\<rparr>"

text \<open>After a panic everything the callback has scheduled, sent and recorded is taken back.\<close>

definition rollback_context :: "'c parallel_context \<Rightarrow> 'c parallel_context \<Rightarrow> 'c parallel_context" where
  "rollback_context before after =
     \<lparr>pc_queue = rollback_scheduled_events (pq_next_id (pc_queue before)) (pq_next_order (pc_queue before))
        (pc_queue after),
      pc_remote_events = take (length (pc_remote_events before)) (pc_remote_events after),
      pc_next_remote_order = pc_next_remote_order before,
      pc_progress_transitions = take (length (pc_progress_transitions before)) (pc_progress_transitions after),
      pc_next_progress_order = pc_next_progress_order before\<rparr>"

definition pop_due :: "tick \<Rightarrow> 'c partition_queue \<Rightarrow> ('c partition_event \<times> 'c partition_queue) option" where
  "pop_due horizon q =
    (case peek_tick q of None \<Rightarrow> None | Some t \<Rightarrow> if t \<le> horizon then pop_next q else None)"

definition worker_body ::
  "'c parallel_code \<Rightarrow> parallel_env \<Rightarrow> tick \<Rightarrow> nat \<times> dispatch_record list \<times> 'c parallel_context \<Rightarrow>
   ((nat \<times> dispatch_record list \<times> 'c parallel_context) + 'c parallel_partition_result) option" where
  "worker_body code env horizon = (\<lambda>(executed, dispatches, ctx).
    (case pop_due horizon (pc_queue ctx) of
       None \<Rightarrow> Some (Inr (worker_result env executed dispatches ctx None))
     | Some (e, q) \<Rightarrow>
         let p = env_partition env; ctx1 = ctx\<lparr>pc_queue := q\<lparr>pq_now := pe_tick e\<rparr>\<rparr>
         in (case pe_callback e of
               SerialCallback _ \<Rightarrow>
                 Some (Inr (worker_result env executed dispatches ctx1
                   (Some (SerialEventInParallelEpoch p (pe_tick e)))))
             | ParallelCallback c \<Rightarrow>
                 (case run_parallel_script env (pe_tick e) (code c p (pe_tick e)) ctx1 of
                    (ctx2, True) \<Rightarrow>
                      Some (Inr (worker_result env executed dispatches (rollback_context ctx1 ctx2)
                        (Some (ParallelWorkerPanicked p))))
                  | (ctx2, False) \<Rightarrow>
                      Some (Inl (executed + 1,
                        dispatches @ [\<lparr>dr_id = pe_id e, dr_tick = pe_tick e, dr_kind = Parallel\<rparr>], ctx2))))))"

definition run_parallel_partition ::
  "'c parallel_code \<Rightarrow> parallel_env \<Rightarrow> 'c partition_queue \<Rightarrow> tick \<Rightarrow> 'c parallel_partition_result option" where
  "run_parallel_partition code env q horizon =
     loop (worker_body code env horizon)
       (0, [], \<lparr>pc_queue = q, pc_remote_events = [], pc_next_remote_order = pq_next_remote_order q,
                pc_progress_transitions = [], pc_next_progress_order = pq_next_progress_order q\<rparr>)"

end
