(* ===== verification/Parallel_Inv.thy ===== *)
theory Parallel_Inv
  imports Parallel_Worker
begin

text \<open>
  What the callbacks of a worker and the worker itself do: they only append parallel events, what they
  send respects the lookahead, a panic leaves no trace, and the worker ends when its callbacks schedule
  into the future.
\<close>

section \<open>Callbacks\<close>

definition remote_ok :: "parallel_env \<Rightarrow> tick \<Rightarrow> 'c remote_scheduled_event \<Rightarrow> bool" where
  "remote_ok env t r \<longleftrightarrow>
     rse_source r = env_partition env \<and> rse_target r \<noteq> env_partition env \<and>
     rse_target r < length (env_partition_nows env) \<and> t \<le> rse_source_tick r \<and>
     rse_source_tick r + env_min_remote_delay env \<le> rse_tick r \<and>
     env_partition_nows env ! rse_target r \<le> rse_tick r"

text \<open>
  From \<open>ctx\<close> to \<open>ctx'\<close> a callback of tick \<open>t\<close> has appended parallel events at \<open>t + d\<close> or later, remote
  events and progress records.
\<close>

definition ctx_grows :: "parallel_env \<Rightarrow> tick \<Rightarrow> nat \<Rightarrow> 'c parallel_context \<Rightarrow> 'c parallel_context \<Rightarrow> bool" where
  "ctx_grows env t d ctx ctx' \<longleftrightarrow>
     (wf_queue (env_partition env) (pc_queue ctx) \<longrightarrow> wf_queue (env_partition env) (pc_queue ctx')) \<and>
     queue_grows (env_partition env) (pc_queue ctx) (pc_queue ctx') \<and>
     (\<exists>es. pq_pending (pc_queue ctx') = pq_pending (pc_queue ctx) @ es \<and>
        (\<forall>e \<in> set es. \<not> is_serial e \<and> t + d \<le> pe_tick e)) \<and>
     (\<exists>rs. pc_remote_events ctx' = pc_remote_events ctx @ rs \<and>
        (\<forall>r \<in> set rs. remote_ok env t r \<and> rse_source_tick r = t)) \<and>
     (\<exists>ps. pc_progress_transitions ctx' = pc_progress_transitions ctx @ ps)"

lemma ctx_grows_refl [simp]: "ctx_grows env t d ctx ctx"
  by (simp add: ctx_grows_def)

lemma appends_trans:
  assumes "\<exists>es. ys = xs @ es \<and> (\<forall>e \<in> set es. P e)" and "\<exists>es. zs = ys @ es \<and> (\<forall>e \<in> set es. P e)"
  shows "\<exists>es. zs = xs @ es \<and> (\<forall>e \<in> set es. P e)"
proof -
  obtain es fs where "ys = xs @ es" "\<forall>e \<in> set es. P e" "zs = ys @ fs" "\<forall>e \<in> set fs. P e"
    using assms by blast
  then show ?thesis by (intro exI [of _ "es @ fs"]) auto
qed

lemma ctx_growsD:
  assumes "ctx_grows env t d ctx ctx'"
  shows "wf_queue (env_partition env) (pc_queue ctx) \<Longrightarrow> wf_queue (env_partition env) (pc_queue ctx')"
    and "queue_grows (env_partition env) (pc_queue ctx) (pc_queue ctx')"
    and "\<exists>es. pq_pending (pc_queue ctx') = pq_pending (pc_queue ctx) @ es \<and>
      (\<forall>e \<in> set es. \<not> is_serial e \<and> t + d \<le> pe_tick e)"
    and "\<exists>rs. pc_remote_events ctx' = pc_remote_events ctx @ rs \<and>
      (\<forall>r \<in> set rs. remote_ok env t r \<and> rse_source_tick r = t)"
    and "\<exists>ps. pc_progress_transitions ctx' = pc_progress_transitions ctx @ ps"
  using assms unfolding ctx_grows_def by simp_all

lemma ctx_grows_trans:
  assumes "ctx_grows env t d c1 c2" and "ctx_grows env t d c2 c3"
  shows "ctx_grows env t d c1 c3"
  unfolding ctx_grows_def
proof (intro conjI)
  show "\<exists>ps. pc_progress_transitions c3 = pc_progress_transitions c1 @ ps"
    using ctx_growsD(5) [OF assms(1)] ctx_growsD(5) [OF assms(2)] by (elim exE) simp
qed (use ctx_growsD(1) [OF assms(1)] ctx_growsD(1) [OF assms(2)] in simp,
     rule queue_grows_trans [OF ctx_growsD(2) [OF assms(1)] ctx_growsD(2) [OF assms(2)]],
     rule appends_trans [OF ctx_growsD(3) [OF assms(1)] ctx_growsD(3) [OF assms(2)]],
     rule appends_trans [OF ctx_growsD(4) [OF assms(1)] ctx_growsD(4) [OF assms(2)]])

lemma ctx_grows_progress: "ctx_grows env t d ctx (record_progress_transition env t subject kind ctx)"
  by (simp add: ctx_grows_def record_progress_transition_def)

lemma ctx_grows_local:
  assumes "d \<le> delay"
  shows "ctx_grows env t d ctx (fst (parallel_schedule_local_after env t delay c ctx))"
proof (cases "t + delay < U64_RANGE")
  case True
  let ?q = "fst (schedule_event_at (pc_queue ctx) (env_partition env) (t + delay) (ParallelCallback c))"
  have eq: "fst (parallel_schedule_local_after env t delay c ctx) = ctx\<lparr>pc_queue := ?q\<rparr>"
    using True by (simp add: parallel_schedule_local_after_def checked_add_def fst_map_prod)
  have "\<exists>es. pq_pending ?q = pq_pending (pc_queue ctx) @ es \<and> (\<forall>e \<in> set es. \<not> is_serial e \<and> t + d \<le> pe_tick e)"
    using assms by (simp add: schedule_event_at_def Let_def is_serial_def callback_kind_def)
  then show ?thesis
    unfolding eq ctx_grows_def by (simp add: wf_queue_schedule queue_grows_schedule)
next
  case False
  then show ?thesis by (simp add: parallel_schedule_local_after_def checked_add_def)
qed

lemma ctx_grows_remote:
  assumes "d \<le> delay"
  shows "ctx_grows env t d ctx (fst (parallel_schedule_remote_after env t target delay c ctx))"
proof (cases "target < length (env_partition_nows env) \<and> target \<noteq> env_partition env \<and> delay \<noteq> 0 \<and>
    t + delay < U64_RANGE \<and> t + env_min_remote_delay env < U64_RANGE \<and> env_min_remote_delay env \<le> delay \<and>
    env_partition_nows env ! target \<le> t + delay")
  case True
  then show ?thesis
    by (simp add: parallel_schedule_remote_after_def checked_add_def remote_delivery_before_lookahead_error_def
        ctx_grows_def remote_ok_def Let_def)
next
  case False
  show ?thesis
  proof (cases "target = env_partition env \<and> target < length (env_partition_nows env)")
    case True
    then show ?thesis using ctx_grows_local [OF assms] by (simp add: parallel_schedule_remote_after_def)
  next
    case nonlocal: False
    have "fst (parallel_schedule_remote_after env t target delay c ctx) = ctx"
      using False nonlocal
      by (auto simp: parallel_schedule_remote_after_def checked_add_def
          remote_delivery_before_lookahead_error_def Let_def)
    then show ?thesis by simp
  qed
qed

text \<open>All delays of the program are at least \<open>d\<close>; with \<open>d = 1\<close> it schedules into the future.\<close>

primrec delays_at_least :: "nat \<Rightarrow> 'c parallel_script \<Rightarrow> bool" where
  "delays_at_least d ParallelDone = True"
| "delays_at_least d ParallelPanic = True"
| "delays_at_least d (ParallelProgress subject kind k) = delays_at_least d k"
| "delays_at_least d (ParallelLocalAfter delay c k) = (d \<le> delay \<and> (\<forall>r. delays_at_least d (k r)))"
| "delays_at_least d (ParallelRemoteAfter target delay c k) = (d \<le> delay \<and> (\<forall>r. delays_at_least d (k r)))"

lemma delays_at_least_0 [simp]: "delays_at_least 0 k"
  by (induction k) auto

lemma run_parallel_script_grows:
  "delays_at_least d k \<Longrightarrow> ctx_grows env t d ctx (fst (run_parallel_script env t k ctx))"
proof (induction k arbitrary: ctx)
  case (ParallelProgress subject kind k)
  then show ?case using ctx_grows_trans [OF ctx_grows_progress [of env t d ctx subject kind]] by simp
next
  case (ParallelLocalAfter delay c k)
  then show ?case using ctx_grows_trans [OF ctx_grows_local [of d delay env t ctx c]] by (simp add: Let_def)
next
  case (ParallelRemoteAfter target delay c k)
  then show ?case using ctx_grows_trans [OF ctx_grows_remote [of d delay env t ctx target c]] by (simp add: Let_def)
qed simp_all

text \<open>Rolling back after a panic gives the context in which the callback started, up to the tokens.\<close>

lemma rollback_context_restores:
  assumes "wf_queue (env_partition env) (pc_queue ctx)" and "ctx_grows env t d ctx ctx'"
  shows "rollback_context ctx ctx' =
    ctx\<lparr>pc_queue := (pc_queue ctx)\<lparr>pq_next_runtime_token := pq_next_runtime_token (pc_queue ctx')\<rparr>\<rparr>"
proof -
  have "queue_grows (env_partition env) (pc_queue ctx) (pc_queue ctx')"
    using assms(2) by (simp add: ctx_grows_def)
  note q = rollback_restores [OF assms(1) this]
  have "take (length (pc_remote_events ctx)) (pc_remote_events ctx') = pc_remote_events ctx"
      "take (length (pc_progress_transitions ctx)) (pc_progress_transitions ctx') = pc_progress_transitions ctx"
    using assms(2) by (auto simp: ctx_grows_def)
  then show ?thesis by (simp add: rollback_context_def q)
qed

section \<open>The worker loop\<close>

lemma pop_due_Some: "pop_due h q = Some (e, q') \<longleftrightarrow> pop_next q = Some (e, q') \<and> pe_tick e \<le> h"
proof
  assume "pop_due h q = Some (e, q')"
  then obtain t where "peek_tick q = Some t" "t \<le> h" "pop_next q = Some (e, q')"
    by (auto simp: pop_due_def split: option.splits if_splits)
  then show "pop_next q = Some (e, q') \<and> pe_tick e \<le> h" using pop_next_SomeD(3) [of q e q'] by simp
next
  assume "pop_next q = Some (e, q') \<and> pe_tick e \<le> h"
  then show "pop_due h q = Some (e, q')" using pop_next_SomeD(3) [of q e q'] by (simp add: pop_due_def)
qed

lemma pop_due_None: "pop_due h q = None \<longleftrightarrow> (\<forall>e \<in> set (pq_pending q). h < pe_tick e)"
proof (cases "peek_tick q")
  case (Some t)
  obtain e q' where pop: "pop_next q = Some (e, q')" "pe_tick e = t" using peek_tick_pop [OF Some] by blast
  have mem: "e \<in> set (pq_pending q)" using pop_next_SomeD(1) [OF pop(1)] .
  have least: "\<And>x. x \<in> set (pq_pending q) \<Longrightarrow> t \<le> pe_tick x" using peek_tick_SomeD(2) [OF Some] .
  have "pop_due h q = None \<longleftrightarrow> h < t" using Some pop by (simp add: pop_due_def not_le)
  also have "\<dots> \<longleftrightarrow> (\<forall>x \<in> set (pq_pending q). h < pe_tick x)"
    using mem pop(2) least by (meson less_le_trans)
  finally show ?thesis .
next
  case None
  then have "pop_due h q = None" unfolding pop_due_def by (simp only: option.case)
  then show ?thesis using None by simp
qed

lemma worker_cases:
  assumes step: "worker_body code env h (n, ds, ctx) = Some r"
  obtains (stop) "\<forall>e \<in> set (pq_pending (pc_queue ctx)). h < pe_tick e" "r = Inr (worker_result env n ds ctx None)"
  | (serial) e q where "pop_next (pc_queue ctx) = Some (e, q)" "pe_tick e \<le> h" "is_serial e"
      "r = Inr (worker_result env n ds (ctx\<lparr>pc_queue := q\<lparr>pq_now := pe_tick e\<rparr>\<rparr>)
        (Some (SerialEventInParallelEpoch (env_partition env) (pe_tick e))))"
  | (panic) e q ctx1 ctx2 c where "pop_next (pc_queue ctx) = Some (e, q)" "pe_tick e \<le> h" "\<not> is_serial e"
      "ctx1 = ctx\<lparr>pc_queue := q\<lparr>pq_now := pe_tick e\<rparr>\<rparr>"
      "ctx2 = fst (run_parallel_script env (pe_tick e) (code c (env_partition env) (pe_tick e)) ctx1)"
      "r = Inr (worker_result env n ds (rollback_context ctx1 ctx2) (Some (ParallelWorkerPanicked (env_partition env))))"
  | (run) e q ctx1 ctx2 c ds' where "pop_next (pc_queue ctx) = Some (e, q)" "pe_tick e \<le> h" "\<not> is_serial e"
      "ctx1 = ctx\<lparr>pc_queue := q\<lparr>pq_now := pe_tick e\<rparr>\<rparr>"
      "ctx2 = fst (run_parallel_script env (pe_tick e) (code c (env_partition env) (pe_tick e)) ctx1)"
      "r = Inl (n + 1, ds', ctx2)"
proof (cases "pop_due h (pc_queue ctx)")
  case None
  then have "r = Inr (worker_result env n ds ctx None)" using step by (simp add: worker_body_def)
  then show ?thesis using None stop by (simp add: pop_due_None)
next
  case (Some x)
  obtain e q where x: "x = (e, q)" by (cases x)
  have pop: "pop_next (pc_queue ctx) = Some (e, q)" "pe_tick e \<le> h" using Some by (simp_all add: x pop_due_Some)
  let ?ctx1 = "ctx\<lparr>pc_queue := q\<lparr>pq_now := pe_tick e\<rparr>\<rparr>"
  show ?thesis
  proof (cases "pe_callback e")
    case (SerialCallback c)
    then have "is_serial e" by (simp add: is_serial_def callback_kind_def)
    moreover have "r = Inr (worker_result env n ds ?ctx1 (Some (SerialEventInParallelEpoch (env_partition env) (pe_tick e))))"
      using step Some SerialCallback by (simp add: worker_body_def x Let_def)
    ultimately show ?thesis by (rule serial [OF pop])
  next
    case (ParallelCallback c)
    then have par: "\<not> is_serial e" by (simp add: is_serial_def callback_kind_def)
    obtain ctx2 b where s: "run_parallel_script env (pe_tick e) (code c (env_partition env) (pe_tick e)) ?ctx1 = (ctx2, b)"
      by fastforce
    then have ctx2: "ctx2 = fst (run_parallel_script env (pe_tick e) (code c (env_partition env) (pe_tick e)) ?ctx1)"
      by simp
    show ?thesis
    proof (cases b)
      case True
      have "r = Inr (worker_result env n ds (rollback_context ?ctx1 ctx2) (Some (ParallelWorkerPanicked (env_partition env))))"
        using step Some ParallelCallback s True by (simp add: worker_body_def x Let_def)
      then show ?thesis by (rule panic [OF pop par refl ctx2])
    next
      case False
      have "r = Inl (n + 1, ds @ [\<lparr>dr_id = pe_id e, dr_tick = pe_tick e, dr_kind = Parallel\<rparr>], ctx2)"
        using step Some ParallelCallback s False by (simp add: worker_body_def x Let_def)
      then show ?thesis by (rule run [OF pop par refl ctx2])
    qed
  qed
qed

definition serial_events :: "'c partition_queue \<Rightarrow> 'c partition_event list" where
  "serial_events q = filter is_serial (pq_pending q)"

text \<open>
  The invariant of a worker that started with queue \<open>q0\<close>, all of whose events lie at \<open>m\<close> or later and
  whose serial events lie after the horizon \<open>h\<close>.
\<close>

definition worker_inv ::
  "parallel_env \<Rightarrow> 'c partition_queue \<Rightarrow> tick \<Rightarrow> tick \<Rightarrow> 'c parallel_context \<Rightarrow> bool" where
  "worker_inv env q0 m h ctx \<longleftrightarrow>
     wf_queue (env_partition env) (pc_queue ctx) \<and>
     pq_now q0 \<le> pq_now (pc_queue ctx) \<and> pq_now (pc_queue ctx) \<le> max (pq_now q0) h \<and>
     (\<forall>e \<in> set (pq_pending (pc_queue ctx)). m \<le> pe_tick e) \<and>
     (\<forall>r \<in> set (pc_remote_events ctx). remote_ok env m r) \<and>
     serial_events (pc_queue ctx) = serial_events q0"

lemma remote_ok_mono: "remote_ok env t r \<Longrightarrow> m \<le> t \<Longrightarrow> remote_ok env m r"
  by (simp add: remote_ok_def)

lemma worker_inv_start:
  assumes inv: "worker_inv env q0 m h ctx" and pop: "pop_next (pc_queue ctx) = Some (e, q)"
    and e: "pe_tick e \<le> h" "\<not> is_serial e"
  shows "worker_inv env q0 m h (ctx\<lparr>pc_queue := q\<lparr>pq_now := pe_tick e\<rparr>\<rparr>)" and "m \<le> pe_tick e"
proof -
  have q: "q = (pc_queue ctx)\<lparr>pq_pending := remove1 e (pq_pending (pc_queue ctx))\<rparr>"
    and mem: "e \<in> set (pq_pending (pc_queue ctx))"
    by (rule pop_next_SomeD [OF pop])+
  have wf: "wf_queue (env_partition env) (pc_queue ctx)" using inv by (simp add: worker_inv_def)
  have "pq_now (pc_queue ctx) \<le> pe_tick e" using wf mem by (simp add: wf_queue_def)
  moreover have "filter is_serial (pq_pending q) = filter is_serial (pq_pending (pc_queue ctx))"
    using e(2) by (simp add: q filter_remove1 remove1_idem)
  moreover have "set (pq_pending q) \<subseteq> set (pq_pending (pc_queue ctx))" by (simp add: q set_remove1_subset)
  ultimately show "worker_inv env q0 m h (ctx\<lparr>pc_queue := q\<lparr>pq_now := pe_tick e\<rparr>\<rparr>)"
    using inv wf_queue_pop [OF wf pop] e(1) by (auto simp: worker_inv_def serial_events_def)
  show "m \<le> pe_tick e" using inv mem by (simp add: worker_inv_def)
qed

lemma worker_inv_grows:
  assumes inv: "worker_inv env q0 m h ctx" and g: "ctx_grows env t d ctx ctx'" and t: "m \<le> t"
  shows "worker_inv env q0 m h ctx'"
proof -
  obtain es where es: "pq_pending (pc_queue ctx') = pq_pending (pc_queue ctx) @ es"
      "\<forall>e \<in> set es. \<not> is_serial e \<and> t + d \<le> pe_tick e"
    using ctx_growsD(3) [OF g] by blast
  obtain rs where rs: "pc_remote_events ctx' = pc_remote_events ctx @ rs" "\<forall>r \<in> set rs. remote_ok env t r"
    using ctx_growsD(4) [OF g] by blast
  have "filter is_serial es = []" using es(2) by (simp add: filter_empty_conv)
  then have "serial_events (pc_queue ctx') = serial_events (pc_queue ctx)" by (simp add: serial_events_def es(1))
  moreover have "pq_now (pc_queue ctx') = pq_now (pc_queue ctx)"
    using ctx_growsD(2) [OF g] by (simp add: queue_grows_def)
  moreover have "\<forall>e \<in> set es. m \<le> pe_tick e" using es(2) t by fastforce
  moreover have "\<forall>r \<in> set rs. remote_ok env m r" using rs(2) t remote_ok_mono by blast
  ultimately show ?thesis
    using inv ctx_growsD(1) [OF g] by (simp add: worker_inv_def es(1) rs(1) ball_Un)
qed

lemma worker_inv_not_serial:
  assumes inv: "worker_inv env q0 m h ctx" and serial: "\<forall>e \<in> set (serial_events q0). h < pe_tick e"
    and pop: "pop_next (pc_queue ctx) = Some (e, q)" "pe_tick e \<le> h"
  shows "\<not> is_serial e"
proof
  assume "is_serial e"
  then have "e \<in> set (serial_events (pc_queue ctx))" using pop_next_SomeD(1) [OF pop(1)] by (simp add: serial_events_def)
  then have "h < pe_tick e" using inv serial by (simp add: worker_inv_def)
  then show False using pop(2) by simp
qed

lemma worker_inv_rollback:
  assumes "worker_inv env q0 m h ctx" and "ctx_grows env t d ctx ctx'"
  shows "worker_inv env q0 m h (rollback_context ctx ctx')"
proof -
  have "wf_queue (env_partition env) (pc_queue ctx)" using assms(1) by (simp add: worker_inv_def)
  from rollback_context_restores [OF this assms(2)] show ?thesis
    using assms(1) by (simp add: worker_inv_def wf_queue_def serial_events_def)
qed

text \<open>What is known of the result of a worker.\<close>

definition worker_post ::
  "parallel_env \<Rightarrow> 'c partition_queue \<Rightarrow> tick \<Rightarrow> tick \<Rightarrow> 'c parallel_partition_result \<Rightarrow> bool" where
  "worker_post env q0 m h res \<longleftrightarrow>
     ppr_index res = env_partition env \<and> wf_queue (env_partition env) (ppr_queue res) \<and>
     pq_now q0 \<le> pq_now (ppr_queue res) \<and> pq_now (ppr_queue res) \<le> max (pq_now q0) h \<and>
     (\<forall>r \<in> set (ppr_remote_events res). remote_ok env m r) \<and>
     serial_events (ppr_queue res) = serial_events q0 \<and>
     (ppr_error res = None \<and> (\<forall>e \<in> set (pq_pending (ppr_queue res)). h < pe_tick e) \<or>
      ppr_error res = Some (ParallelWorkerPanicked (env_partition env)))"

lemma worker_post_result:
  assumes "worker_inv env q0 m h ctx"
    and "err = None \<and> (\<forall>e \<in> set (pq_pending (pc_queue ctx)). h < pe_tick e) \<or>
      err = Some (ParallelWorkerPanicked (env_partition env))"
  shows "worker_post env q0 m h (worker_result env n ds ctx err)"
  using assms by (auto simp: worker_post_def worker_inv_def worker_result_def wf_queue_def serial_events_def)

lemma run_parallel_partition_post:
  assumes run: "run_parallel_partition code env q0 h = Some res"
    and wf: "wf_queue (env_partition env) q0" and m: "\<forall>e \<in> set (pq_pending q0). m \<le> pe_tick e"
    and serial: "\<forall>e \<in> set (serial_events q0). h < pe_tick e"
  shows "worker_post env q0 m h res"
proof (rule loop_invariant [OF run [unfolded run_parallel_partition_def], where I = "\<lambda>(n, ds, ctx). worker_inv env q0 m h ctx"])
  fix x x' assume I: "case x of (n, ds, ctx) \<Rightarrow> worker_inv env q0 m h ctx"
    and step: "worker_body code env h x = Some (Inl x')"
  obtain n ds ctx where x: "x = (n, ds, ctx)" by (cases x)
  have inv: "worker_inv env q0 m h ctx" using I by (simp add: x)
  show "case x' of (n, ds, ctx) \<Rightarrow> worker_inv env q0 m h ctx"
  proof (rule worker_cases [OF step [unfolded x]])
    fix e q assume "pop_next (pc_queue ctx) = Some (e, q)" "pe_tick e \<le> h" "is_serial e"
    then show ?thesis using worker_inv_not_serial [OF inv serial] by blast
  next
    fix e q ctx1 ctx2 c ds'
    assume pop: "pop_next (pc_queue ctx) = Some (e, q)" "pe_tick e \<le> h" "\<not> is_serial e"
      and ctx1: "ctx1 = ctx\<lparr>pc_queue := q\<lparr>pq_now := pe_tick e\<rparr>\<rparr>"
      and ctx2: "ctx2 = fst (run_parallel_script env (pe_tick e) (code c (env_partition env) (pe_tick e)) ctx1)"
      and x': "Inl x' = Inl (n + 1, ds', ctx2)"
    have "worker_inv env q0 m h ctx2"
      unfolding ctx2 ctx1
      by (rule worker_inv_grows [OF worker_inv_start(1) [OF inv pop] run_parallel_script_grows worker_inv_start(2) [OF inv pop]])
        (rule delays_at_least_0)
    then show ?thesis using x' by simp
  qed simp_all
next
  fix x res assume I: "case x of (n, ds, ctx) \<Rightarrow> worker_inv env q0 m h ctx"
    and step: "worker_body code env h x = Some (Inr res)"
  obtain n ds ctx where x: "x = (n, ds, ctx)" by (cases x)
  have inv: "worker_inv env q0 m h ctx" using I by (simp add: x)
  show "worker_post env q0 m h res"
  proof (rule worker_cases [OF step [unfolded x]])
    assume "\<forall>e \<in> set (pq_pending (pc_queue ctx)). h < pe_tick e" "Inr res = Inr (worker_result env n ds ctx None)"
    then show ?thesis using worker_post_result [OF inv] by simp
  next
    fix e q assume "pop_next (pc_queue ctx) = Some (e, q)" "pe_tick e \<le> h" "is_serial e"
    then show ?thesis using worker_inv_not_serial [OF inv serial] by blast
  next
    fix e q ctx1 ctx2 c
    assume pop: "pop_next (pc_queue ctx) = Some (e, q)" "pe_tick e \<le> h" "\<not> is_serial e"
      and ctx1: "ctx1 = ctx\<lparr>pc_queue := q\<lparr>pq_now := pe_tick e\<rparr>\<rparr>"
      and ctx2: "ctx2 = fst (run_parallel_script env (pe_tick e) (code c (env_partition env) (pe_tick e)) ctx1)"
      and res: "Inr res = Inr (worker_result env n ds (rollback_context ctx1 ctx2)
        (Some (ParallelWorkerPanicked (env_partition env))))"
    have "worker_inv env q0 m h (rollback_context ctx1 ctx2)"
      unfolding ctx2 ctx1
      by (rule worker_inv_rollback [OF worker_inv_start(1) [OF inv pop] run_parallel_script_grows])
        (rule delays_at_least_0)
    from worker_post_result [OF this] show ?thesis using res by simp
  qed simp_all
qed (use assms in \<open>simp add: worker_inv_def\<close>)

section \<open>The worker ends\<close>

definition forward_parallel_code :: "'c parallel_code \<Rightarrow> bool" where
  "forward_parallel_code code \<longleftrightarrow> (\<forall>c p t. delays_at_least 1 (code c p t))"

lemma worker_forward:
  assumes code: "forward_parallel_code code" and step: "worker_body code env h (n, ds, ctx) = Some (Inl x)"
  obtains ds' ctx' where "x = (n + 1, ds', ctx')"
    "(due_work h (pq_pending (pc_queue ctx')), due_work h (pq_pending (pc_queue ctx))) \<in> mult less_than"
proof (rule worker_cases [OF step])
  fix e q ctx1 ctx2 c ds'
  assume pop: "pop_next (pc_queue ctx) = Some (e, q)" "pe_tick e \<le> h"
    and ctx1: "ctx1 = ctx\<lparr>pc_queue := q\<lparr>pq_now := pe_tick e\<rparr>\<rparr>"
    and ctx2: "ctx2 = fst (run_parallel_script env (pe_tick e) (code c (env_partition env) (pe_tick e)) ctx1)"
    and x: "Inl x = Inl (n + 1, ds', ctx2)"
  have "ctx_grows env (pe_tick e) 1 ctx1 ctx2"
    unfolding ctx2 using code by (intro run_parallel_script_grows) (simp add: forward_parallel_code_def)
  from ctx_growsD(3) [OF this] obtain es where es: "pq_pending (pc_queue ctx2) = pq_pending q @ es"
      "\<forall>x \<in> set es. pe_tick e + 1 \<le> pe_tick x"
    unfolding ctx1 by auto
  have "due_work h (pq_pending (pc_queue ctx)) = add_mset (h - pe_tick e) (due_work h (pq_pending q))"
    using due_work_remove1 [OF pop_next_SomeD(1) [OF pop(1)] pop(2)] pop_next_SomeD(2) [OF pop(1)] by simp
  moreover have "k < h - pe_tick e" if "k \<in># due_work h es" for k
    using that es(2) by (fastforce simp: due_work_def)
  ultimately have "(due_work h (pq_pending (pc_queue ctx2)), due_work h (pq_pending (pc_queue ctx))) \<in> mult less_than"
    by (simp add: es(1) mult_less_add)
  then show ?thesis using that x by simp
qed (use step that in simp_all)

interpretation worker: decreasing_loop "worker_body code env h" "\<lambda>_. forward_parallel_code code"
  "\<lambda>(n, ds, ctx). due_work h (pq_pending (pc_queue ctx))" for code env h
proof
  fix x :: "nat \<times> dispatch_record list \<times> 'a parallel_context"
  show "worker_body code env h x \<noteq> None"
    by (cases x) (auto simp: worker_body_def Let_def split: option.splits partition_callback.splits prod.splits bool.splits)
next
  fix x x' :: "nat \<times> dispatch_record list \<times> 'a parallel_context"
  assume code: "forward_parallel_code code" and step: "worker_body code env h x = Some (Inl x')"
  obtain n ds ctx where x: "x = (n, ds, ctx)" by (cases x)
  obtain ds' ctx' where "x' = (n + 1, ds', ctx')"
      "(due_work h (pq_pending (pc_queue ctx')), due_work h (pq_pending (pc_queue ctx))) \<in> mult less_than"
    using worker_forward [OF code step [unfolded x]] .
  then show "((\<lambda>(n, ds, ctx). due_work h (pq_pending (pc_queue ctx))) x',
      (\<lambda>(n, ds, ctx). due_work h (pq_pending (pc_queue ctx))) x) \<in> mult less_than"
    by (simp add: x)
qed

lemma run_parallel_partition_returns:
  "forward_parallel_code code \<Longrightarrow> \<exists>res. run_parallel_partition code env q h = Some res"
  unfolding run_parallel_partition_def by (rule worker.loop_returns)

section \<open>Properties\<close>

text \<open>
  C34. A panic leaves no trace.  When a worker stops because a callback panicked, the result is that of a
  callback that did nothing: the event is taken out of the queue and the clock is at its tick, but every
  event, message and progress record of the callback is gone and all counters except the runtime tokens
  are back; the events run before it stay counted.
\<close>

theorem worker_panic_rolls_back:
  assumes wf: "wf_queue (env_partition env) (pc_queue ctx)"
    and step: "worker_body code env h (n, ds, ctx) = Some (Inr res)"
    and err: "ppr_error res = Some (ParallelWorkerPanicked (env_partition env))"
  shows "\<exists>e q k. pop_next (pc_queue ctx) = Some (e, q) \<and> pe_tick e \<le> h \<and>
    res = worker_result env n ds
      (ctx\<lparr>pc_queue := q\<lparr>pq_now := pe_tick e, pq_next_runtime_token := k\<rparr>\<rparr>)
      (Some (ParallelWorkerPanicked (env_partition env)))"
proof (rule worker_cases [OF step])
  fix e q ctx1 ctx2 c
  assume pop: "pop_next (pc_queue ctx) = Some (e, q)" "pe_tick e \<le> h"
    and ctx1: "ctx1 = ctx\<lparr>pc_queue := q\<lparr>pq_now := pe_tick e\<rparr>\<rparr>"
    and ctx2: "ctx2 = fst (run_parallel_script env (pe_tick e) (code c (env_partition env) (pe_tick e)) ctx1)"
    and res: "Inr res = Inr (worker_result env n ds (rollback_context ctx1 ctx2)
      (Some (ParallelWorkerPanicked (env_partition env))))"
  have wf1: "wf_queue (env_partition env) (pc_queue ctx1)" using wf_queue_pop [OF wf pop(1)] by (simp add: ctx1)
  have "ctx_grows env (pe_tick e) 0 ctx1 ctx2" unfolding ctx2 by (rule run_parallel_script_grows) simp
  from rollback_context_restores [OF wf1 this] show ?thesis using res pop by (auto simp: ctx1)
qed (use err in \<open>auto simp: worker_result_def\<close>)

definition panicking_code :: "nat parallel_code" where
  "panicking_code c p t = ParallelLocalAfter 1 c (\<lambda>_. ParallelRemoteAfter 1 5 c (\<lambda>_. ParallelPanic))"

definition example_env :: parallel_env where
  "example_env = \<lparr>env_partition = 0, env_partition_nows = [0, 0], env_min_remote_delay = 2\<rparr>"

definition example_context :: "nat parallel_context" where
  "example_context =
     \<lparr>pc_queue = fst (schedule_event_at partition_queue_new 0 3 (ParallelCallback 8)), pc_remote_events = [],
      pc_next_remote_order = 0, pc_progress_transitions = [], pc_next_progress_order = 0\<rparr>"

theorem worker_panic_rolls_back_witness:
  "\<exists>res e q k. worker_body panicking_code example_env 10 (0, [], example_context) = Some (Inr res) \<and>
    pop_next (pc_queue example_context) = Some (e, q) \<and>
    res = worker_result example_env 0 []
      (example_context\<lparr>pc_queue := q\<lparr>pq_now := pe_tick e, pq_next_runtime_token := k\<rparr>\<rparr>)
      (Some (ParallelWorkerPanicked 0))"
proof -
  have q: "pc_queue example_context = fst (schedule_event_at partition_queue_new 0 3 (ParallelCallback 8))"
    by (simp add: example_context_def)
  have wf: "wf_queue (env_partition example_env) (pc_queue example_context)"
    unfolding q by (simp add: example_env_def wf_queue_schedule)
  obtain res where step: "worker_body panicking_code example_env 10 (0, [], example_context) = Some (Inr res)"
      and err: "ppr_error res = Some (ParallelWorkerPanicked (env_partition example_env))"
    by (simp add: worker_body_def pop_due_def peek_tick_def peek_event_def pop_next_def heap_pop_def heap_peek_def
        example_context_def schedule_event_at_def partition_queue_new_def Let_def panicking_code_def
        parallel_schedule_local_after_def parallel_schedule_remote_after_def example_env_def checked_add_def
        remote_delivery_before_lookahead_error_def worker_result_def)
  from worker_panic_rolls_back [OF wf step err] show ?thesis using step by (auto simp: example_env_def)
qed

end
