(* ===== verification/Scheduler_Parallel.thy ===== *)
theory Scheduler_Parallel
  imports Parallel_Worker
begin

text \<open>
  Parallel epochs of the partitioned scheduler, \<^verbatim>\<open>scheduler.rs\<close>, \<^verbatim>\<open>scheduler/parallel_epoch.rs\<close>,
  \<^verbatim>\<open>scheduler/mixed_event.rs\<close> and the records of \<^verbatim>\<open>scheduler/state.rs\<close> under
  \<^verbatim>\<open>crates/rem6-kernel/src\<close>: the plan of an epoch, the batches of workers, merging what they send to each
  other, and single mixed events.  The workers of a batch own disjoint queues and share nothing, so their
  threads are run one after the other in the order in which the source joins them.
\<close>

section \<open>Records of plans and runs\<close>

type_synonym ready_partition = "PartitionId \<times> tick"

record partition_frontier =
  pf_partition :: PartitionId
  pf_now :: tick
  pf_safe_until :: tick
  pf_next_tick :: "tick option"
  pf_pending_events :: nat

record planned_worker_record =
  pw_lane :: nat
  pw_partition :: PartitionId
  pw_start_tick :: tick
  pw_horizon :: tick
  pw_duration_ticks :: tick

record planned_batch =
  pb_horizon :: tick
  pb_ready_partitions :: "ready_partition list"
  pb_planned_workers :: "planned_worker_record list"

definition planned_batch_new :: "tick \<Rightarrow> ready_partition list \<Rightarrow> planned_batch" where
  "planned_batch_new horizon ready =
     \<lparr>pb_horizon = horizon, pb_ready_partitions = ready,
      pb_planned_workers = map (\<lambda>(lane, p, t).
        \<lparr>pw_lane = lane, pw_partition = p, pw_start_tick = t, pw_horizon = horizon,
         pw_duration_ticks = horizon - t\<rparr>) (enumerate 0 ready)\<rparr>"

function chunks :: "nat \<Rightarrow> 'a list \<Rightarrow> 'a list list" where
  "chunks n xs = (if xs = [] \<or> n = 0 then [] else take n xs # chunks n (drop n xs))"
  by pat_completeness auto
termination
  by (relation "measure (\<lambda>(n, xs). length xs)") auto

declare chunks.simps [simp del]

definition collect_planned_batches :: "tick \<Rightarrow> ready_partition list \<Rightarrow> nat \<Rightarrow> planned_batch list" where
  "collect_planned_batches horizon ready worker_limit =
     map (planned_batch_new horizon) (chunks (max worker_limit 1) ready)"

record remote_delivery_window =
  rw_source :: PartitionId
  rw_target :: PartitionId
  rw_source_tick :: tick
  rw_target_now :: tick
  rw_minimum_delivery_tick :: "tick option"
  rw_first_accepted_delivery_tick :: "tick option"
  rw_horizon :: tick

definition remote_window_new ::
  "PartitionId \<Rightarrow> PartitionId \<Rightarrow> tick \<Rightarrow> tick \<Rightarrow> tick option \<Rightarrow> tick \<Rightarrow> remote_delivery_window" where
  "remote_window_new source target source_tick target_now minimum horizon =
     \<lparr>rw_source = source, rw_target = target, rw_source_tick = source_tick, rw_target_now = target_now,
      rw_minimum_delivery_tick = minimum,
      rw_first_accepted_delivery_tick = map_option (\<lambda>t. if t < target_now then target_now else t) minimum,
      rw_horizon = horizon\<rparr>"

definition collect_remote_delivery_windows ::
  "tick \<Rightarrow> ready_partition list \<Rightarrow> partition_frontier list \<Rightarrow> remote_delivery_window list" where
  "collect_remote_delivery_windows horizon ready frontiers =
     concat (map (\<lambda>(p, t).
       case List.find (\<lambda>f. pf_partition f = p) frontiers of
         None \<Rightarrow> []
       | Some source \<Rightarrow>
           map (\<lambda>f. remote_window_new p (pf_partition f) t (pf_now f)
               (checked_add t (pf_safe_until source - pf_now source)) horizon)
             (filter (\<lambda>f. pf_partition f \<noteq> p) frontiers)) ready)"

record parallel_epoch_plan =
  pep_scheduler_instance :: "nat option"
  pep_horizon :: tick
  pep_ready_partitions :: "ready_partition list"
  pep_ready_event_tokens :: "(PartitionId \<times> nat) list"
  pep_frontiers :: "partition_frontier list"
  pep_serial_blockers :: "dispatch_record list"
  pep_serial_blocker_tokens :: "(partition_event_id \<times> nat) list"
  pep_parallel_worker_limit :: nat
  pep_parallel_batches :: "planned_batch list"
  pep_remote_delivery_windows :: "remote_delivery_window list"

definition plan_with_runtime_provenance ::
  "nat option \<Rightarrow> tick \<Rightarrow> ready_partition list \<Rightarrow> (PartitionId \<times> nat) list \<Rightarrow> partition_frontier list \<Rightarrow>
   dispatch_record list \<Rightarrow> (partition_event_id \<times> nat) list \<Rightarrow> nat \<Rightarrow> parallel_epoch_plan" where
  "plan_with_runtime_provenance inst horizon ready tokens frontiers blockers blocker_tokens worker_limit =
     \<lparr>pep_scheduler_instance = inst, pep_horizon = horizon, pep_ready_partitions = ready,
      pep_ready_event_tokens = tokens, pep_frontiers = frontiers, pep_serial_blockers = blockers,
      pep_serial_blocker_tokens = blocker_tokens, pep_parallel_worker_limit = max worker_limit 1,
      pep_parallel_batches = collect_planned_batches horizon ready (max worker_limit 1),
      pep_remote_delivery_windows = collect_remote_delivery_windows horizon ready frontiers\<rparr>"

text \<open>\<open>matches_runtime_plan\<close> compares every field.\<close>

definition matches_runtime_plan :: "parallel_epoch_plan \<Rightarrow> parallel_epoch_plan \<Rightarrow> bool" where
  "matches_runtime_plan plan other \<longleftrightarrow> plan = other"

record worker_record =
  wr_lane :: nat
  wr_partition :: PartitionId
  wr_start_tick :: tick
  wr_safe_until :: tick
  wr_next_tick :: "tick option"
  wr_pending_events :: nat

record remote_send_record =
  rsr_source :: PartitionId
  rsr_target :: PartitionId
  rsr_source_tick :: tick
  rsr_tick :: tick
  rsr_order :: nat

record epoch_batch_record =
  ebr_horizon :: tick
  ebr_workers :: "worker_record list"
  ebr_dispatches :: "dispatch_record list"
  ebr_remote_sends :: "remote_send_record list"
  ebr_progress_transitions :: "progress_transition_record list"

record run_profile =
  rp_epoch_count :: nat
  rp_empty_epoch_count :: nat
  rp_batch_count :: nat
  rp_dispatch_count :: nat
  rp_total_parallel_workers :: nat
  rp_max_parallel_workers :: nat

definition profile_default :: run_profile where
  "profile_default =
     \<lparr>rp_epoch_count = 0, rp_empty_epoch_count = 0, rp_batch_count = 0, rp_dispatch_count = 0,
      rp_total_parallel_workers = 0, rp_max_parallel_workers = 0\<rparr>"

definition profile_for_epoch :: "epoch_batch_record list \<Rightarrow> nat \<Rightarrow> bool \<Rightarrow> run_profile" where
  "profile_for_epoch batches dispatch_count empty_epoch =
     \<lparr>rp_epoch_count = 1, rp_empty_epoch_count = of_bool empty_epoch, rp_batch_count = length batches,
      rp_dispatch_count = dispatch_count,
      rp_total_parallel_workers = sum_list (map (\<lambda>b. length (ebr_workers b)) batches),
      rp_max_parallel_workers = foldl max 0 (map (\<lambda>b. length (ebr_workers b)) batches)\<rparr>"

definition profile_merge :: "run_profile \<Rightarrow> run_profile \<Rightarrow> run_profile" where
  "profile_merge a b =
     \<lparr>rp_epoch_count = rp_epoch_count a + rp_epoch_count b,
      rp_empty_epoch_count = rp_empty_epoch_count a + rp_empty_epoch_count b,
      rp_batch_count = rp_batch_count a + rp_batch_count b,
      rp_dispatch_count = rp_dispatch_count a + rp_dispatch_count b,
      rp_total_parallel_workers = rp_total_parallel_workers a + rp_total_parallel_workers b,
      rp_max_parallel_workers = max (rp_max_parallel_workers a) (rp_max_parallel_workers b)\<rparr>"

record recorded_run_summary =
  rrs_summary :: run_summary
  rrs_initial_frontiers :: "partition_frontier list"
  rrs_final_frontiers :: "partition_frontier list"
  rrs_dispatches :: "dispatch_record list"
  rrs_planned_parallel_worker_limit :: nat
  rrs_planned_batches :: "planned_batch list"
  rrs_batches :: "epoch_batch_record list"
  rrs_profile :: run_profile

record recorded_conservative_run_summary =
  rcs_summary :: conservative_run_summary
  rcs_epochs :: "recorded_run_summary list"
  rcs_profile :: run_profile

section \<open>Planning an epoch\<close>

definition parallel_epoch_frontiers :: "'c scheduler \<Rightarrow> SchedulerError + partition_frontier list" where
  "parallel_epoch_frontiers s =
     res_foldl (\<lambda>frontiers (p, q).
       res_bind (ok_or (EpochHorizonOverflow p (pq_now q) (sch_min_remote_delay s))
         (checked_add (pq_now q) (sch_min_remote_delay s))) (\<lambda>safe_until.
       Inr (frontiers @ [\<lparr>pf_partition = p, pf_now = pq_now q, pf_safe_until = safe_until,
         pf_next_tick = peek_tick q, pf_pending_events = length (pq_pending q)\<rparr>])))
       [] (enumerate 0 (sch_partitions s))"

definition first_serial_event_at_or_before :: "'c scheduler \<Rightarrow> tick \<Rightarrow> (PartitionId \<times> tick) option" where
  "first_serial_event_at_or_before s horizon =
     map_option prod.swap (min_list_option (List.map_filter (\<lambda>(p, q).
       map_option (\<lambda>t. (t, p)) (first_serial_tick_at_or_before q horizon)) (enumerate 0 (sch_partitions s))))"

definition serial_blockers_with_tokens_at_or_before :: "'c scheduler \<Rightarrow> tick \<Rightarrow> (dispatch_record \<times> nat) list" where
  "serial_blockers_with_tokens_at_or_before s horizon =
     sort_key (\<lambda>(r, _). (dr_tick r, pid_partition (dr_id r), pid_local (dr_id r)))
       (concat (map (\<lambda>(p, q). queue_serial_blockers q p horizon) (enumerate 0 (sch_partitions s))))"

definition sort_ready_partitions :: "ready_partition list \<Rightarrow> ready_partition list" where
  "sort_ready_partitions ready = sort_key prod.swap ready"

definition ready_partitions_at_or_before :: "'c scheduler \<Rightarrow> tick \<Rightarrow> PartitionId list" where
  "ready_partitions_at_or_before s horizon =
     map fst (sort_ready_partitions (map prod.swap (filter (\<lambda>(t, _). t \<le> horizon) (pending_ticks s))))"

text \<open>The horizon is the least safe tick of a partition, or the limit when that is earlier.\<close>

definition plan_next_parallel_epoch_with_limit ::
  "'c scheduler \<Rightarrow> tick option \<Rightarrow> SchedulerError + parallel_epoch_plan" where
  "plan_next_parallel_epoch_with_limit s horizon_limit =
     res_bind (parallel_epoch_frontiers s) (\<lambda>frontiers.
       let safe = the (min_list_option (map pf_safe_until frontiers));
           horizon = (case horizon_limit of None \<Rightarrow> safe | Some limit \<Rightarrow> min safe limit);
           ready = sort_ready_partitions (List.map_filter (\<lambda>f.
             case pf_next_tick f of
               None \<Rightarrow> None
             | Some t \<Rightarrow> if t \<le> horizon then Some (pf_partition f, t) else None) frontiers);
           tokens = map (\<lambda>(p, _). (p, pe_token (the (peek_event (sch_partitions s ! p))))) ready;
           blockers = serial_blockers_with_tokens_at_or_before s horizon
       in Inr (plan_with_runtime_provenance (Some (sch_instance_id s)) horizon ready tokens frontiers
            (map fst blockers) (map (\<lambda>(r, token). (dr_id r, token)) blockers) (sch_max_parallel_workers s)))"

definition plan_next_parallel_epoch :: "'c scheduler \<Rightarrow> SchedulerError + parallel_epoch_plan option" where
  "plan_next_parallel_epoch s =
    (if is_idle s then Inr None else map_ok Some (plan_next_parallel_epoch_with_limit s None))"

definition plan_next_parallel_epoch_until ::
  "'c scheduler \<Rightarrow> tick \<Rightarrow> SchedulerError + parallel_epoch_plan option" where
  "plan_next_parallel_epoch_until s tick_limit =
    (if is_idle s \<or> tick_limit \<le> sch_now s then Inr None
     else map_ok Some (plan_next_parallel_epoch_with_limit s (Some tick_limit)))"

definition validate_parallel_epoch_plan :: "'c scheduler \<Rightarrow> parallel_epoch_plan \<Rightarrow> SchedulerError + unit" where
  "validate_parallel_epoch_plan s plan =
    (if is_idle s then Inl StaleParallelEpochPlan
     else
       res_bind (plan_next_parallel_epoch_with_limit s (Some (pep_horizon plan))) (\<lambda>current.
       if matches_runtime_plan current plan then Inr () else Inl StaleParallelEpochPlan))"

section \<open>Batches\<close>

definition remote_event_delivery_key :: "'c remote_scheduled_event \<Rightarrow> PartitionId \<times> tick \<times> PartitionId \<times> nat" where
  "remote_event_delivery_key e = (rse_target e, rse_tick e, rse_source e, rse_order e)"

fun merge_events :: "'c scheduler \<Rightarrow> 'c remote_scheduled_event list \<Rightarrow> ('c scheduler, SchedulerError, unit) outcome" where
  "merge_events s [] = (s, Inr ())"
| "merge_events s (e # es) =
     st_bind (map_prod (set_partition s (rse_target e)) id
       (schedule_event_at (sch_partitions s ! rse_target e) (rse_target e) (rse_tick e)
         (ParallelCallback (rse_callback e)))) (\<lambda>s' _.
     merge_events s' es)"

definition merge_remote_parallel_events ::
  "'c scheduler \<Rightarrow> 'c remote_scheduled_event list \<Rightarrow> ('c scheduler, SchedulerError, unit) outcome" where
  "merge_remote_parallel_events s events = merge_events s (sort_key remote_event_delivery_key events)"

definition remote_send_of :: "'c remote_scheduled_event \<Rightarrow> remote_send_record" where
  "remote_send_of e =
     \<lparr>rsr_source = rse_source e, rsr_target = rse_target e, rsr_source_tick = rse_source_tick e,
      rsr_tick = rse_tick e, rsr_order = rse_order e\<rparr>"

text \<open>
  The queues of the batch are moved out of the scheduler, an empty queue takes the place of each.
\<close>

fun take_queues ::
  "'c scheduler \<Rightarrow> tick \<Rightarrow> nat \<Rightarrow> PartitionId list \<Rightarrow>
   ('c scheduler, SchedulerError, (worker_record \<times> PartitionId \<times> 'c partition_queue) list) outcome" where
  "take_queues s horizon lane [] = (s, Inr [])"
| "take_queues s horizon lane (p # ps) =
    (let q = sch_partitions s ! p; s1 = set_partition s p partition_queue_new; delay = sch_min_remote_delay s
     in st_try s1 (ok_or (EpochHorizonOverflow p (pq_now q) delay) (checked_add (pq_now q) delay)) (\<lambda>safe_until.
        map_prod id (map_ok (\<lambda>ws.
          (\<lparr>wr_lane = lane, wr_partition = p, wr_start_tick = pq_now q, wr_safe_until = min safe_until horizon,
            wr_next_tick = peek_tick q, wr_pending_events = length (pq_pending q)\<rparr>, p, q) # ws))
          (take_queues s1 horizon (lane + 1) ps)))"

record 'c parallel_batch_result =
  pbr_executed_events :: nat
  pbr_remote_events :: "'c remote_scheduled_event list"
  pbr_dispatches :: "dispatch_record list"
  pbr_record :: epoch_batch_record

definition put_results :: "'c scheduler \<Rightarrow> 'c parallel_partition_result list \<Rightarrow> 'c scheduler" where
  "put_results s results = foldl (\<lambda>s r. set_partition s (ppr_index r) (ppr_queue r)) s results"

definition batch_record_of ::
  "tick \<Rightarrow> worker_record list \<Rightarrow> 'c parallel_partition_result list \<Rightarrow> 'c parallel_batch_result" where
  "batch_record_of horizon workers results =
    (let dispatches = sort_key (\<lambda>r. (dr_tick r, pid_partition (dr_id r), pid_local (dr_id r)))
           (concat (map ppr_dispatches results));
         progress = sort_key (\<lambda>r. (ptr_tick r, ptr_partition r, ptr_order r))
           (concat (map ppr_progress_transitions results));
         remote_events = sort_key remote_event_delivery_key (concat (map ppr_remote_events results))
     in \<lparr>pbr_executed_events = sum_list (map ppr_executed_events results), pbr_remote_events = remote_events,
         pbr_dispatches = dispatches,
         pbr_record = \<lparr>ebr_horizon = horizon, ebr_workers = workers, ebr_dispatches = dispatches,
           ebr_remote_sends = map remote_send_of remote_events, ebr_progress_transitions = progress\<rparr>\<rparr>)"

definition worker_env :: "'c scheduler \<Rightarrow> PartitionId \<Rightarrow> parallel_env" where
  "worker_env s p =
     \<lparr>env_partition = p, env_partition_nows = map pq_now (sch_partitions s),
      env_min_remote_delay = sch_min_remote_delay s\<rparr>"

definition run_parallel_batch ::
  "'c parallel_code \<Rightarrow> 'c scheduler \<Rightarrow> tick \<Rightarrow> PartitionId list \<Rightarrow>
   ('c scheduler, SchedulerError, 'c parallel_batch_result) outcome option" where
  "run_parallel_batch code s horizon ready =
    (case take_queues s horizon 0 ready of
       (s1, Inl e) \<Rightarrow> Some (s1, Inl e)
     | (s1, Inr ws) \<Rightarrow>
         map_option (\<lambda>results.
           let s2 = put_results s1 results
           in case find_map ppr_error results of
                Some e \<Rightarrow>
                  st_bind (merge_remote_parallel_events
                    (s2\<lparr>sch_now := foldl max (sch_now s) (map (\<lambda>r. pq_now (ppr_queue r)) results)\<rparr>)
                    (concat (map ppr_remote_events results))) (\<lambda>s3 _. (s3, Inl e))
              | None \<Rightarrow> (s2, Inr (batch_record_of horizon (map fst ws) results)))
           (those (map (\<lambda>(_, p, q). run_parallel_partition code (worker_env s p) q horizon) ws)))"

section \<open>Epochs\<close>

type_synonym 'c epoch_state =
  "PartitionId list \<times> nat \<times> dispatch_record list \<times> epoch_batch_record list \<times> 'c scheduler"

type_synonym 'c epoch_result =
  "('c scheduler, SchedulerError, nat \<times> dispatch_record list \<times> epoch_batch_record list) outcome"

definition parallel_epoch_body ::
  "'c parallel_code \<Rightarrow> tick \<Rightarrow> 'c epoch_state \<Rightarrow> ('c epoch_state + 'c epoch_result) option" where
  "parallel_epoch_body code horizon = (\<lambda>(ready, executed, dispatches, batches, s).
    (if ready = [] then Some (Inr (s, Inr (executed, dispatches, batches)))
     else
       map_option (\<lambda>o1.
         case o1 of
           (s1, Inl e) \<Rightarrow> Inr (s1, Inl e)
         | (s1, Inr b) \<Rightarrow>
             (case merge_remote_parallel_events s1 (pbr_remote_events b) of
                (s2, Inl e) \<Rightarrow> Inr (s2, Inl e)
              | (s2, Inr _) \<Rightarrow>
                  (case first_serial_event_at_or_before s2 horizon of
                     Some (p, t) \<Rightarrow> Inr (s2, Inl (SerialEventInParallelEpoch p t))
                   | None \<Rightarrow>
                       Inl (ready_partitions_at_or_before s2 horizon, executed + pbr_executed_events b,
                         dispatches @ pbr_dispatches b, batches @ [pbr_record b], s2))))
         (run_parallel_batch code s horizon (take (sch_max_parallel_workers s) ready))))"

definition run_parallel_epoch_plan_recorded ::
  "'c parallel_code \<Rightarrow> 'c scheduler \<Rightarrow> parallel_epoch_plan \<Rightarrow>
   ('c scheduler, SchedulerError, recorded_run_summary) outcome option" where
  "run_parallel_epoch_plan_recorded code s plan =
    (case pep_serial_blockers plan of
       blocker # _ \<Rightarrow>
         Some (s, Inl (SerialEventInParallelEpoch (pid_partition (dr_id blocker)) (dr_tick blocker)))
     | [] \<Rightarrow>
         map_option (\<lambda>o1.
           st_bind o1 (\<lambda>s1 (executed, dispatches, batches).
             let s2 = advance_partitions_to s1 (pep_horizon plan)
             in st_try s2 (parallel_epoch_frontiers s2) (\<lambda>final_frontiers.
               (s2, Inr \<lparr>rrs_summary = \<lparr>rs_executed_events = executed, rs_final_tick = sch_now s2\<rparr>,
                 rrs_initial_frontiers = pep_frontiers plan, rrs_final_frontiers = final_frontiers,
                 rrs_dispatches = sort_key (\<lambda>r. (dr_tick r, pid_partition (dr_id r), pid_local (dr_id r))) dispatches,
                 rrs_planned_parallel_worker_limit = pep_parallel_worker_limit plan,
                 rrs_planned_batches = pep_parallel_batches plan, rrs_batches = batches,
                 rrs_profile = profile_for_epoch batches (length dispatches) (batches = [])\<rparr>))))
           (loop (parallel_epoch_body code (pep_horizon plan)) (map fst (pep_ready_partitions plan), 0, [], [], s)))"

definition empty_recorded_parallel_summary :: "'c scheduler \<Rightarrow> recorded_run_summary" where
  "empty_recorded_parallel_summary s =
     \<lparr>rrs_summary = \<lparr>rs_executed_events = 0, rs_final_tick = sch_now s\<rparr>, rrs_initial_frontiers = [],
      rrs_final_frontiers = [], rrs_dispatches = [],
      rrs_planned_parallel_worker_limit = sch_max_parallel_workers s, rrs_planned_batches = [], rrs_batches = [],
      rrs_profile = profile_default\<rparr>"

definition run_next_epoch_parallel_recorded ::
  "'c parallel_code \<Rightarrow> 'c scheduler \<Rightarrow> ('c scheduler, SchedulerError, recorded_run_summary) outcome option" where
  "run_next_epoch_parallel_recorded code s =
    (case plan_next_parallel_epoch s of
       Inl e \<Rightarrow> Some (s, Inl e)
     | Inr None \<Rightarrow> Some (s, Inr (empty_recorded_parallel_summary s))
     | Inr (Some plan) \<Rightarrow> run_parallel_epoch_plan_recorded code s plan)"

definition run_next_epoch_parallel_recorded_until ::
  "'c parallel_code \<Rightarrow> 'c scheduler \<Rightarrow> tick \<Rightarrow>
   ('c scheduler, SchedulerError, (parallel_epoch_plan \<times> recorded_run_summary) option) outcome option" where
  "run_next_epoch_parallel_recorded_until code s tick_limit =
    (case plan_next_parallel_epoch_until s tick_limit of
       Inl e \<Rightarrow> Some (s, Inl e)
     | Inr None \<Rightarrow> Some (s, Inr None)
     | Inr (Some plan) \<Rightarrow>
         map_option (map_prod id (map_ok (\<lambda>recorded. Some (plan, recorded))))
           (run_parallel_epoch_plan_recorded code s plan))"

definition parallel_idle_body ::
  "'c parallel_code \<Rightarrow> recorded_run_summary list \<times> nat \<times> run_profile \<times> 'c scheduler \<Rightarrow>
   ((recorded_run_summary list \<times> nat \<times> run_profile \<times> 'c scheduler) +
    ('c scheduler, SchedulerError, recorded_conservative_run_summary) outcome) option" where
  "parallel_idle_body code = (\<lambda>(epochs, executed, profile, s).
    (let finish = (\<lambda>epochs executed profile s.
           \<lparr>rcs_summary = \<lparr>crs_epochs = length epochs, crs_executed_events = executed, crs_final_tick = sch_now s\<rparr>,
            rcs_epochs = epochs, rcs_profile = profile\<rparr>)
     in case plan_next_parallel_epoch s of
          Inl e \<Rightarrow> Some (Inr (s, Inl e))
        | Inr None \<Rightarrow> Some (Inr (s, Inr (finish epochs executed profile s)))
        | Inr (Some _) \<Rightarrow>
            map_option (\<lambda>o1.
              case o1 of
                (s', Inl e) \<Rightarrow> Inr (s', Inl e)
              | (s', Inr epoch) \<Rightarrow>
                  let summary = rrs_summary epoch; epochs' = epochs @ [epoch];
                      executed' = executed + rs_executed_events summary;
                      profile' = profile_merge profile (rrs_profile epoch)
                  in if rs_final_tick summary = sch_now s \<and> rs_executed_events summary = 0
                     then Inr (s', Inr (finish epochs' executed' profile' s'))
                     else Inl (epochs', executed', profile', s'))
              (run_next_epoch_parallel_recorded code s)))"

definition run_until_idle_parallel_recorded ::
  "'c parallel_code \<Rightarrow> 'c scheduler \<Rightarrow>
   ('c scheduler, SchedulerError, recorded_conservative_run_summary) outcome option" where
  "run_until_idle_parallel_recorded code s = loop (parallel_idle_body code) ([], 0, profile_default, s)"

section \<open>Mixed events\<close>

datatype MixedEventRun =
    MixedSerial run_summary
  | MixedParallel parallel_epoch_plan recorded_run_summary

definition dispatch_next_parallel_in_partition ::
  "'c parallel_code \<Rightarrow> 'c scheduler \<Rightarrow> PartitionId \<Rightarrow> parallel_epoch_plan \<Rightarrow> 'c partition_event \<Rightarrow>
   'c partition_queue \<Rightarrow> 'c \<Rightarrow>
   ('c scheduler, SchedulerError, parallel_epoch_plan \<times> recorded_run_summary) outcome" where
  "dispatch_next_parallel_in_partition code s p plan e q c =
    (let t = pe_tick e; q0 = sch_partitions s ! p;
         worker = \<lparr>wr_lane = 0, wr_partition = p, wr_start_tick = pq_now q0, wr_safe_until = t,
           wr_next_tick = Some t, wr_pending_events = length (pq_pending q0)\<rparr>;
         env = worker_env s p;
         ctx = \<lparr>pc_queue = q\<lparr>pq_now := t\<rparr>, pc_remote_events = [], pc_next_remote_order = pq_next_remote_order q,
           pc_progress_transitions = [], pc_next_progress_order = pq_next_progress_order q\<rparr>
     in case run_parallel_script env t (code c p t) ctx of
          (ctx2, True) \<Rightarrow>
            (advance_partitions_to (set_partition s p
               (ppr_queue (worker_result env 0 [] (rollback_context ctx ctx2) None))) t,
             Inl (ParallelWorkerPanicked p))
        | (ctx2, False) \<Rightarrow>
            let s1 = (set_partition s p (ppr_queue (worker_result env 1 [] ctx2 None)))\<lparr>sch_now := t\<rparr>;
                dispatch = \<lparr>dr_id = pe_id e, dr_tick = t, dr_kind = Parallel\<rparr>;
                batch = \<lparr>ebr_horizon = t, ebr_workers = [worker], ebr_dispatches = [dispatch],
                  ebr_remote_sends = map remote_send_of (pc_remote_events ctx2),
                  ebr_progress_transitions = pc_progress_transitions ctx2\<rparr>
            in st_bind (merge_remote_parallel_events s1 (pc_remote_events ctx2)) (\<lambda>s2 _.
                 let s3 = advance_partitions_to s2 (sch_now s2)
                 in st_try s3 (parallel_epoch_frontiers s3) (\<lambda>final_frontiers.
                   (s3, Inr (plan,
                     \<lparr>rrs_summary = \<lparr>rs_executed_events = 1, rs_final_tick = sch_now s3\<rparr>,
                      rrs_initial_frontiers = pep_frontiers plan, rrs_final_frontiers = final_frontiers,
                      rrs_dispatches = [dispatch],
                      rrs_planned_parallel_worker_limit = pep_parallel_worker_limit plan,
                      rrs_planned_batches = pep_parallel_batches plan, rrs_batches = [batch],
                      rrs_profile = profile_for_epoch [batch] 1 False\<rparr>)))))"

text \<open>A panic of a serial callback is the outer error, an error the source returns the inner one.\<close>

definition run_next_mixed_event ::
  "('c, 'w) serial_code \<Rightarrow> 'c parallel_code \<Rightarrow> 'c scheduler \<Rightarrow> 'w \<Rightarrow> parallel_epoch_plan \<Rightarrow>
   ('c, 'w, SchedulerError + MixedEventRun) serial_outcome" where
  "run_next_mixed_event code pcode s w plan =
    (case validate_parallel_epoch_plan s plan of
       Inl e \<Rightarrow> ((s, w), Inr (Inl e))
     | Inr _ \<Rightarrow>
         (case next_partition_with_event s of
            None \<Rightarrow> ((s, w), Inr (Inr (MixedSerial \<lparr>rs_executed_events = 0, rs_final_tick = sch_now s\<rparr>)))
          | Some p \<Rightarrow>
              (case pop_next (sch_partitions s ! p) of
                 None \<Rightarrow> ((s, w), Inl NoPendingEvent)
               | Some (e, q) \<Rightarrow>
                   if (p, pe_tick e) \<notin> set (pep_ready_partitions plan) then ((s, w), Inr (Inl StaleParallelEpochPlan))
                   else
                     (case pe_callback e of
                        SerialCallback _ \<Rightarrow>
                          (case dispatch_next_in_partition code s w p of
                             (sw, Inl panic) \<Rightarrow> (sw, Inl panic)
                           | ((s1, w1), Inr _) \<Rightarrow>
                               let s2 = advance_partitions_to s1 (sch_now s1)
                               in ((s2, w1), Inr (Inr (MixedSerial
                                    \<lparr>rs_executed_events = 1, rs_final_tick = sch_now s2\<rparr>))))
                      | ParallelCallback c \<Rightarrow>
                          (case dispatch_next_parallel_in_partition pcode s p plan e q c of
                             (s1, r) \<Rightarrow> ((s1, w), Inr (map_ok (\<lambda>(plan, recorded). MixedParallel plan recorded) r)))))))"

end
