(* ===== verification/Parallel_Epoch.thy ===== *)
theory Parallel_Epoch
  imports Scheduler_Parallel Parallel_Inv Scheduler_Serial
begin

text \<open>
  Parallel epochs: what a batch of workers and the merge of their messages do to the scheduler, the
  invariant of the epoch loop, and the properties of epochs.
\<close>

section \<open>Merging\<close>

text \<open>The queue \<open>q'\<close> is \<open>q\<close> with parallel events at \<open>t\<close> or later added.\<close>

definition receives :: "tick \<Rightarrow> 'c partition_queue \<Rightarrow> 'c partition_queue \<Rightarrow> bool" where
  "receives t q q' \<longleftrightarrow> pq_now q' = pq_now q \<and>
     (\<exists>es. pq_pending q' = pq_pending q @ es \<and> (\<forall>e \<in> set es. \<not> is_serial e \<and> t \<le> pe_tick e))"

lemma receives_refl [simp]: "receives t q q"
  by (simp add: receives_def)

lemma receives_trans:
  assumes "receives t q r" and "receives t r s"
  shows "receives t q s"
  using assms appends_trans [of "pq_pending r" "pq_pending q" _ "pq_pending s"] by (simp add: receives_def)

lemma receives_serial: "receives t q q' \<Longrightarrow> serial_events q' = serial_events q"
  by (auto simp: receives_def serial_events_def filter_empty_conv)

lemma receives_schedule:
  "t \<le> t' \<Longrightarrow> receives t q (fst (schedule_event_at q p t' (ParallelCallback c)))"
  by (simp add: receives_def schedule_event_at_def Let_def is_serial_def callback_kind_def)

definition all_receive :: "tick \<Rightarrow> 'c scheduler \<Rightarrow> 'c scheduler \<Rightarrow> bool" where
  "all_receive t s s' \<longleftrightarrow> same_config s s' \<and> sch_now s' = sch_now s \<and>
     sch_timeline_revision s' = sch_timeline_revision s \<and>
     (\<forall>p < partition_count s. receives t (sch_partitions s ! p) (sch_partitions s' ! p))"

lemma all_receive_refl [simp]: "all_receive t s s"
  by (simp add: all_receive_def)

lemma all_receive_trans: "all_receive t s s' \<Longrightarrow> all_receive t s' s'' \<Longrightarrow> all_receive t s s''"
  unfolding all_receive_def by (auto simp: same_config_def intro: receives_trans)

lemma all_receive_set:
  assumes "receives t (sch_partitions s ! p) q"
  shows "all_receive t s (set_partition s p q)"
proof -
  have "receives t (sch_partitions s ! i) ((sch_partitions s)[p := q] ! i)" if "i < partition_count s" for i
    using assms that by (cases "i = p") simp_all
  then show ?thesis by (simp add: all_receive_def same_config_def)
qed

text \<open>Merging succeeds when no message is in the past of its target.\<close>

lemma merge_events_ok:
  assumes "wf_scheduler s"
    and "\<forall>e \<in> set es. rse_target e < partition_count s \<and> pq_now (sch_partitions s ! rse_target e) \<le> rse_tick e \<and>
      t \<le> rse_tick e"
  shows "\<exists>s'. merge_events s es = (s', Inr ()) \<and> wf_scheduler s' \<and> all_receive t s s' \<and>
    sched_work h s' = sched_work h s + {# h - rse_tick e. e \<in># filter_mset (\<lambda>e. rse_tick e \<le> h) (mset es) #}"
  using assms
proof (induction es arbitrary: s)
  case (Cons e es)
  let ?p = "rse_target e" let ?q = "sch_partitions s ! rse_target e"
  let ?q' = "fst (schedule_event_at ?q ?p (rse_tick e) (ParallelCallback (rse_callback e)))"
  let ?s = "set_partition s ?p ?q'"
  have p: "?p < partition_count s" "pq_now ?q \<le> rse_tick e" "t \<le> rse_tick e" using Cons.prems(2) by simp_all
  have rec: "receives t ?q ?q'" using p(3) by (rule receives_schedule)
  have wf: "wf_scheduler ?s"
    by (intro wf_scheduler_set [OF Cons.prems(1)] wf_queue_schedule wf_schedulerD [OF Cons.prems(1) p(1)])
  have prems: "\<forall>e \<in> set es. rse_target e < partition_count ?s \<and>
      pq_now (sch_partitions ?s ! rse_target e) \<le> rse_tick e \<and> t \<le> rse_tick e"
    using Cons.prems(2) rec by (auto simp: receives_def nth_list_update p(1))
  have step: "merge_events s (e # es) = merge_events ?s es"
    using p(2) by (simp add: schedule_event_at_def Let_def)
  have "due_work h (pq_pending ?q') = due_work h (pq_pending ?q) + (if rse_tick e \<le> h then {#h - rse_tick e#} else {#})"
    using p(2) by (simp add: schedule_event_at_def Let_def)
  then have "sched_work h ?s = sched_work h s + (if rse_tick e \<le> h then {#h - rse_tick e#} else {#})"
    using sched_work_set [OF p(1), of h ?q'] by (simp add: ac_simps)
  then show ?case
    using Cons.IH [OF wf prems] all_receive_trans [OF all_receive_set [OF rec]] unfolding step by auto
qed simp

lemma merge_remote_ok:
  assumes "wf_scheduler s"
    and "\<forall>e \<in> set es. rse_target e < partition_count s \<and> pq_now (sch_partitions s ! rse_target e) \<le> rse_tick e \<and>
      t \<le> rse_tick e"
  shows "\<exists>s'. merge_remote_parallel_events s es = (s', Inr ()) \<and> wf_scheduler s' \<and> all_receive t s s' \<and>
    sched_work h s' = sched_work h s + {# h - rse_tick e. e \<in># filter_mset (\<lambda>e. rse_tick e \<le> h) (mset es) #}"
  using merge_events_ok [OF assms(1), of "sort_key remote_event_delivery_key es" t h] assms(2)
  by (simp add: merge_remote_parallel_events_def)

section \<open>Batches\<close>

lemma take_queues_cases:
  assumes "distinct ps"
  shows "(\<exists>s1 p n d. take_queues s h lane ps = (s1, Inl (EpochHorizonOverflow p n d))) \<or>
    (\<exists>s1 ws. take_queues s h lane ps = (s1, Inr ws) \<and> map snd ws = map (\<lambda>p. (p, sch_partitions s ! p)) ps \<and>
      same_config s s1 \<and> sch_now s1 = sch_now s \<and> sch_timeline_revision s1 = sch_timeline_revision s \<and>
      (\<forall>i. i \<notin> set ps \<longrightarrow> sch_partitions s1 ! i = sch_partitions s ! i))"
  using assms
proof (induction ps arbitrary: s lane)
  case (Cons p ps)
  let ?s = "set_partition s p partition_queue_new"
  show ?case
  proof (cases "pq_now (sch_partitions s ! p) + sch_min_remote_delay s < U64_RANGE")
    case True
    have old: "map (\<lambda>i. (i, sch_partitions ?s ! i)) ps = map (\<lambda>i. (i, sch_partitions s ! i)) ps"
      using Cons.prems by (auto intro!: nth_list_update_neq)
    have "distinct ps" using Cons.prems by simp
    from Cons.IH [OF this, of ?s "lane + 1"] show ?thesis
      using True unfolding old
      by (auto simp: checked_add_def Let_def same_config_def)
  qed (simp add: Let_def checked_add_def)
qed simp

lemma put_results_other:
  "i \<notin> ppr_index ` set rs \<Longrightarrow> sch_partitions (put_results s rs) ! i = sch_partitions s ! i"
  by (induction rs arbitrary: s) (auto simp: put_results_def)

lemma put_results_config:
  "same_config s (put_results s rs) \<and> sch_now (put_results s rs) = sch_now s \<and>
   sch_timeline_revision (put_results s rs) = sch_timeline_revision s"
  by (induction rs arbitrary: s) (auto simp: put_results_def same_config_def)

lemma put_results_at:
  assumes "distinct (map ppr_index rs)" and "r \<in> set rs" and "ppr_index r < partition_count s"
  shows "sch_partitions (put_results s rs) ! ppr_index r = ppr_queue r"
  using assms
proof (induction rs arbitrary: s)
  case (Cons x rs)
  have step: "put_results s (x # rs) = put_results (set_partition s (ppr_index x) (ppr_queue x)) rs"
    by (simp add: put_results_def)
  show ?case
  proof (cases "r = x")
    case True
    then have "ppr_index r \<notin> ppr_index ` set rs" using Cons.prems(1) by simp
    then show ?thesis using Cons.prems(3) True by (simp add: step put_results_other)
  next
    case False
    then show ?thesis using Cons by (simp add: step)
  qed
qed simp

lemma those_map_Some: "those (map f xs) = Some ys \<longleftrightarrow> map f xs = map Some ys"
  by (induction xs arbitrary: ys) (auto split: option.splits)

definition first_tick :: "'c partition_queue \<Rightarrow> tick" where
  "first_tick q = (case peek_tick q of None \<Rightarrow> pq_now q | Some t \<Rightarrow> t)"

lemma first_tick_le: "e \<in> set (pq_pending q) \<Longrightarrow> first_tick q \<le> pe_tick e"
  using peek_tick_SomeD(2) [of q _ e] by (cases "peek_tick q") (auto simp: first_tick_def)

lemma first_tick_now:
  assumes "wf_queue p q"
  shows "pq_now q \<le> first_tick q"
proof (cases "peek_tick q")
  case (Some t)
  then show ?thesis using peek_tick_SomeD(1) [OF Some] assms by (auto simp: first_tick_def wf_queue_def)
qed (simp only: first_tick_def option.case)

text \<open>
  The states in which a batch up to the horizon \<open>h\<close> may start: the horizon is safe for every partition
  and no serial event is due.
\<close>

definition batch_pre :: "'c scheduler \<Rightarrow> tick \<Rightarrow> bool" where
  "batch_pre s h \<longleftrightarrow> wf_scheduler s \<and>
     (\<forall>p < partition_count s. h \<le> pq_now (sch_partitions s ! p) + sch_min_remote_delay s \<and>
        (\<forall>e \<in> set (serial_events (sch_partitions s ! p)). h < pe_tick e))"

text \<open>
  The queues after the workers have ended, before their messages are merged, and the messages: clocks have
  moved forward but not past the horizon, the serial events are as before, and no message is due before
  the horizon or in the past of its target.
\<close>

definition queue_advances :: "tick \<Rightarrow> 'c partition_queue \<Rightarrow> 'c partition_queue \<Rightarrow> bool" where
  "queue_advances h q q' \<longleftrightarrow> pq_now q \<le> pq_now q' \<and> pq_now q' \<le> max (pq_now q) h \<and>
     serial_events q' = serial_events q"

lemma queue_advances_refl [simp]: "queue_advances h q q"
  by (simp add: queue_advances_def)

lemma queue_advances_trans: "queue_advances h q r \<Longrightarrow> queue_advances h r s \<Longrightarrow> queue_advances h q s"
  by (auto simp: queue_advances_def)

lemma queue_advances_receives: "receives t q q' \<Longrightarrow> queue_advances h q q'"
  by (simp add: queue_advances_def receives_serial) (simp add: receives_def)

definition message_ok :: "'c scheduler \<Rightarrow> tick \<Rightarrow> PartitionId list \<Rightarrow> 'c remote_scheduled_event \<Rightarrow> bool" where
  "message_ok s h ready e \<longleftrightarrow> rse_target e < partition_count s \<and> rse_source e \<in> set ready \<and>
     h \<le> rse_tick e \<and> pq_now (sch_partitions s ! rse_target e) \<le> rse_tick e \<and>
     first_tick (sch_partitions s ! rse_source e) + sch_min_remote_delay s \<le> rse_tick e"

definition batch_post ::
  "'c scheduler \<Rightarrow> tick \<Rightarrow> PartitionId list \<Rightarrow> 'c scheduler \<Rightarrow> 'c remote_scheduled_event list \<Rightarrow> bool" where
  "batch_post s h ready s' es \<longleftrightarrow> wf_scheduler s' \<and> same_config s s' \<and>
     sch_timeline_revision s' = sch_timeline_revision s \<and>
     (\<forall>p < partition_count s. queue_advances h (sch_partitions s ! p) (sch_partitions s' ! p) \<and>
        (p \<notin> set ready \<longrightarrow> sch_partitions s' ! p = sch_partitions s ! p)) \<and>
     (\<forall>e \<in> set es. message_ok s h ready e)"

lemma workers_post:
  assumes pre: "batch_pre s h" and ready: "distinct ready" "\<forall>p \<in> set ready. p < partition_count s"
    and ws: "map snd ws = map (\<lambda>p. (p, sch_partitions s ! p)) ready"
    and run: "those (map (\<lambda>(_, p, q). run_parallel_partition code (worker_env s p) q h) ws) = Some results"
  shows "list_all2 (\<lambda>p r. worker_post (worker_env s p)
        (sch_partitions s ! p) (first_tick (sch_partitions s ! p)) h r) ready results"
proof -
  let ?run = "\<lambda>(p, q). run_parallel_partition code (worker_env s p) q h"
  have "map (\<lambda>(_, p, q). ?run (p, q)) ws = map ?run (map snd ws)" by (simp add: case_prod_beta comp_def)
  also have "\<dots> = map (\<lambda>p. ?run (p, sch_partitions s ! p)) ready" unfolding ws by (simp add: comp_def)
  finally have "map (\<lambda>p. run_parallel_partition code (worker_env s p) (sch_partitions s ! p) h) ready = map Some results"
    using run by (simp add: those_map_Some case_prod_beta)
  then have "list_all2 (\<lambda>p r. run_parallel_partition code (worker_env s p) (sch_partitions s ! p) h = Some r) ready results"
    by (simp add: list_all2_conv_all_nth list_eq_iff_nth_eq)
  then show ?thesis
  proof (rule list.rel_mono_strong)
    fix p r assume p: "p \<in> set ready" and r: "run_parallel_partition code (worker_env s p) (sch_partitions s ! p) h = Some r"
    have "p < partition_count s" using ready(2) p by blast
    then show "worker_post (worker_env s p) (sch_partitions s ! p) (first_tick (sch_partitions s ! p)) h r"
      using pre first_tick_le by (intro run_parallel_partition_post [OF r]) (auto simp: batch_pre_def wf_scheduler_def worker_env_def)
  qed
qed

lemma workers_batch_post:
  assumes pre: "batch_pre s h" and ready: "distinct ready" "\<forall>p \<in> set ready. p < partition_count s"
    and post: "list_all2 (\<lambda>p r. worker_post (worker_env s p)
        (sch_partitions s ! p) (first_tick (sch_partitions s ! p)) h r) ready results"
    and s1: "same_config s s1" "sch_timeline_revision s1 = sch_timeline_revision s"
      "\<forall>i. i \<notin> set ready \<longrightarrow> sch_partitions s1 ! i = sch_partitions s ! i"
  shows "batch_post s h ready (put_results s1 results) (concat (map ppr_remote_events results))"
    and "(\<forall>r \<in> set results. ppr_error r = None) \<Longrightarrow> p \<in> set ready \<Longrightarrow>
      due_work h (pq_pending (sch_partitions (put_results s1 results) ! p)) = {#}"
proof -
  let ?post = "\<lambda>p r. worker_post (worker_env s p) (sch_partitions s ! p) (first_tick (sch_partitions s ! p)) h r"
  let ?s = "put_results s1 results"
  have wf: "wf_scheduler s" using pre by (simp add: batch_pre_def)
  have idx: "map ppr_index results = ready"
    using post by (auto simp: list_all2_conv_all_nth worker_post_def worker_env_def intro: nth_equalityI)
  have res: "\<exists>r \<in> set results. ?post p r \<and> sch_partitions ?s ! p = ppr_queue r" if p: "p \<in> set ready" for p
  proof -
    obtain i where i: "i < length ready" "p = ready ! i" using p by (auto simp: in_set_conv_nth)
    have r: "results ! i \<in> set results" "?post p (results ! i)"
      using post i by (auto simp: list_all2_conv_all_nth)
    have "ppr_index (results ! i) = p" using r(2) by (simp add: worker_post_def worker_env_def)
    moreover have "p < partition_count s1" using ready(2) p s1(1) by (simp add: same_config_def)
    ultimately have "sch_partitions ?s ! p = ppr_queue (results ! i)"
      using put_results_at [of results "results ! i" s1] idx ready(1) r(1) by simp
    then show ?thesis using r by blast
  qed
  have src: "\<exists>p \<in> set ready. ?post p r" if "r \<in> set results" for r
  proof -
    obtain i where i: "i < length results" "r = results ! i" using \<open>r \<in> set results\<close> by (auto simp: in_set_conv_nth)
    then show ?thesis using post by (intro bexI [of _ "ready ! i"]) (auto simp: list_all2_conv_all_nth)
  qed
  have other: "sch_partitions ?s ! p = sch_partitions s ! p" if "p \<notin> set ready" for p
  proof -
    have "p \<notin> ppr_index ` set results" using idx that by (metis list.set_map)
    then show ?thesis using put_results_other [of p results s1] s1(3) that by simp
  qed
  have cfg: "same_config s ?s" "sch_timeline_revision ?s = sch_timeline_revision s"
    using put_results_config [of s1 results] s1(1,2) same_config_trans by auto
  have adv: "queue_advances h (sch_partitions s ! p) (sch_partitions ?s ! p) \<and> wf_queue p (sch_partitions ?s ! p)"
    if p: "p < partition_count s" for p
  proof (cases "p \<in> set ready")
    case True
    then obtain r where "?post p r" "sch_partitions ?s ! p = ppr_queue r" using res by blast
    then show ?thesis by (simp add: worker_post_def worker_env_def queue_advances_def)
  next
    case False
    then show ?thesis using other wf_schedulerD [OF wf p] by simp
  qed
  have msg: "message_ok s h ready e" if e: "r \<in> set results" "e \<in> set (ppr_remote_events r)" for r e
  proof -
    obtain p where p: "p \<in> set ready" "?post p r" using src [OF e(1)] by blast
    have ok: "remote_ok (worker_env s p) (first_tick (sch_partitions s ! p)) e" using p(2) e(2) by (simp add: worker_post_def)
    have pc: "p < partition_count s" using ready(2) p(1) by blast
    have "h \<le> pq_now (sch_partitions s ! p) + sch_min_remote_delay s" using pre pc by (simp add: batch_pre_def)
    then show ?thesis
      using ok p(1) first_tick_now [OF wf_schedulerD [OF wf pc]] by (auto simp: remote_ok_def message_ok_def worker_env_def)
  qed
  show "batch_post s h ready ?s (concat (map ppr_remote_events results))"
    using adv other cfg msg wf by (auto simp: batch_post_def wf_scheduler_def same_config_def)
  show "due_work h (pq_pending (sch_partitions ?s ! p)) = {#}"
    if "\<forall>r \<in> set results. ppr_error r = None" and "p \<in> set ready" for p
    using res [OF that(2)] that(1) by (auto simp: worker_post_def due_work_empty_iff)
qed

lemma batch_messages:
  assumes "batch_post s h ready s' es"
  shows "\<forall>e \<in> set es. rse_target e < partition_count s' \<and>
    pq_now (sch_partitions s' ! rse_target e) \<le> rse_tick e \<and> h \<le> rse_tick e"
proof
  fix e assume e: "e \<in> set es"
  have msg: "message_ok s h ready e" using assms e by (simp add: batch_post_def)
  then have "queue_advances h (sch_partitions s ! rse_target e) (sch_partitions s' ! rse_target e)"
    using assms by (simp add: batch_post_def message_ok_def)
  then show "rse_target e < partition_count s' \<and> pq_now (sch_partitions s' ! rse_target e) \<le> rse_tick e \<and> h \<le> rse_tick e"
    using msg assms by (auto simp: batch_post_def message_ok_def queue_advances_def same_config_def)
qed

definition all_advance :: "tick \<Rightarrow> 'c scheduler \<Rightarrow> 'c scheduler \<Rightarrow> bool" where
  "all_advance h s s' \<longleftrightarrow> same_config s s' \<and>
     (\<forall>p < partition_count s. queue_advances h (sch_partitions s ! p) (sch_partitions s' ! p))"

lemma all_advance_trans: "all_advance h s s' \<Longrightarrow> all_advance h s' s'' \<Longrightarrow> all_advance h s s''"
  unfolding all_advance_def by (auto simp: same_config_def intro: queue_advances_trans)

lemma all_advance_receive: "all_receive t s s' \<Longrightarrow> all_advance h s s'"
  unfolding all_advance_def all_receive_def using queue_advances_receives by blast

lemma all_advance_post: "batch_post s h ready s' es \<Longrightarrow> all_advance h s s'"
  by (simp add: all_advance_def batch_post_def)

text \<open>The outcomes of a batch.\<close>

lemma run_parallel_batch_cases:
  assumes pre: "batch_pre s h" and ready: "distinct ready" "\<forall>p \<in> set ready. p < partition_count s"
    and run: "run_parallel_batch code s h ready = Some (s', r)"
  obtains (overflow) p n d where "r = Inl (EpochHorizonOverflow p n d)"
  | (panic) p where "r = Inl (ParallelWorkerPanicked p)" "wf_scheduler s'" "all_advance h s s'"
  | (finish) b where "r = Inr b" "batch_post s h ready s' (pbr_remote_events b)" "sch_now s' = sch_now s"
      "\<forall>p \<in> set ready. due_work h (pq_pending (sch_partitions s' ! p)) = {#}"
      "ebr_remote_sends (pbr_record b) = map remote_send_of (pbr_remote_events b)"
proof (cases "take_queues s h 0 ready")
  case (Pair s1 w)
  show ?thesis
  proof (cases w)
    case (Inl e)
    then have "\<exists>p n d. e = EpochHorizonOverflow p n d" using take_queues_cases [OF ready(1), of s h 0] Pair by auto
    then show ?thesis using overflow run Pair Inl by (auto simp: run_parallel_batch_def)
  next
    case (Inr ws)
    have ws: "map snd ws = map (\<lambda>p. (p, sch_partitions s ! p)) ready" and cfg: "same_config s s1"
      and rest: "sch_now s1 = sch_now s" "sch_timeline_revision s1 = sch_timeline_revision s"
        "\<forall>i. i \<notin> set ready \<longrightarrow> sch_partitions s1 ! i = sch_partitions s ! i"
      using take_queues_cases [OF ready(1), of s h 0] Pair Inr by auto
    obtain results where results: "those (map (\<lambda>(_, p, q). run_parallel_partition code (worker_env s p) q h) ws) = Some results"
      using run Pair Inr by (auto simp: run_parallel_batch_def)
    let ?s = "put_results s1 results" let ?es = "concat (map ppr_remote_events results)"
    note post = workers_post [OF pre ready ws results]
    have bp: "batch_post s h ready ?s ?es"
      by (rule workers_batch_post(1) [OF pre ready post cfg rest(2,3)])
    have now: "sch_now ?s = sch_now s" using put_results_config [of s1 results] rest(1) by simp
    show ?thesis
    proof (cases "find_map ppr_error results")
      case None
      then have none: "\<forall>r \<in> set results. ppr_error r = None" by (simp add: find_map_None_iff)
      let ?b = "batch_record_of h (map fst ws) results"
      have r: "s' = ?s" "r = Inr ?b" using run Pair Inr results None by (simp_all add: run_parallel_batch_def Let_def)
      have evs: "pbr_remote_events ?b = sort_key remote_event_delivery_key ?es"
          "ebr_remote_sends (pbr_record ?b) = map remote_send_of (pbr_remote_events ?b)"
        by (simp_all add: batch_record_of_def Let_def)
      have "batch_post s h ready s' (pbr_remote_events ?b)" using bp unfolding r(1) evs(1) by (simp add: batch_post_def)
      then show ?thesis
        using finish [OF r(2)] now evs(2) workers_batch_post(2) [OF pre ready post cfg rest(2,3) none] r(1) by blast
    next
      case (Some e)
      obtain res where res: "res \<in> set results" "ppr_error res = Some e" using find_map_SomeD [OF Some] by blast
      then obtain i where i: "i < length results" "res = results ! i" by (auto simp: in_set_conv_nth)
      then have "worker_post (worker_env s (ready ! i)) (sch_partitions s ! (ready ! i))
          (first_tick (sch_partitions s ! (ready ! i))) h res"
        using post by (simp add: list_all2_conv_all_nth)
      then have e: "\<exists>p. e = ParallelWorkerPanicked p" using res(2) by (auto simp: worker_post_def)
      let ?s2 = "?s\<lparr>sch_now := foldl max (sch_now s) (map (\<lambda>r. pq_now (ppr_queue r)) results)\<rparr>"
      have wf2: "wf_scheduler ?s2" using bp by (simp add: batch_post_def wf_scheduler_def)
      have msgs: "\<forall>e \<in> set ?es. rse_target e < partition_count ?s2 \<and>
          pq_now (sch_partitions ?s2 ! rse_target e) \<le> rse_tick e \<and> h \<le> rse_tick e"
        using batch_messages [OF bp] by simp
      obtain s3 where s3: "merge_remote_parallel_events ?s2 ?es = (s3, Inr ())" "wf_scheduler s3" "all_receive h ?s2 s3"
        using merge_remote_ok [OF wf2 msgs, where h = h] by blast
      have "all_advance h s ?s2" using all_advance_post [OF bp] by (simp add: all_advance_def same_config_def)
      then have "all_advance h s s3" using all_advance_trans all_advance_receive [OF s3(3)] by blast
      moreover have "s' = s3" "r = Inl e" using run Pair Inr results Some s3(1) by (simp_all add: run_parallel_batch_def Let_def)
      ultimately show ?thesis using panic e s3(2) by blast
    qed
  qed
qed

section \<open>The epoch loop\<close>

definition due_partitions :: "'c scheduler \<Rightarrow> tick \<Rightarrow> PartitionId set" where
  "due_partitions s h = {p. p < partition_count s \<and> due_work h (pq_pending (sch_partitions s ! p)) \<noteq> {#}}"

lemma due_partitions_peek:
  "p \<in> due_partitions s h \<longleftrightarrow>
     p < partition_count s \<and> (\<exists>t. peek_tick (sch_partitions s ! p) = Some t \<and> t \<le> h)"
proof -
  have "due_work h (pq_pending q) \<noteq> {#} \<longleftrightarrow> (\<exists>t. peek_tick q = Some t \<and> t \<le> h)" for q :: "'a partition_queue"
  proof
    assume "due_work h (pq_pending q) \<noteq> {#}"
    then obtain e where e: "e \<in> set (pq_pending q)" "pe_tick e \<le> h" by (auto simp: due_work_empty_iff not_less)
    then obtain t where t: "peek_tick q = Some t" by (cases "peek_tick q") auto
    then show "\<exists>t. peek_tick q = Some t \<and> t \<le> h" using peek_tick_SomeD(2) [OF t e(1)] e(2) by auto
  next
    assume "\<exists>t. peek_tick q = Some t \<and> t \<le> h"
    then obtain t where "peek_tick q = Some t" "t \<le> h" by blast
    then show "due_work h (pq_pending q) \<noteq> {#}" using peek_tick_SomeD(1) by (auto simp: due_work_empty_iff not_less)
  qed
  then show ?thesis by (simp add: due_partitions_def)
qed

lemma distinct_pending_ticks: "distinct (map snd (pending_ticks s))"
proof -
  have "map snd (pending_ticks s) =
      map fst (filter (\<lambda>(p, q). peek_tick q \<noteq> None) (enumerate 0 (sch_partitions s)))"
    unfolding pending_ticks_def List.map_filter_def by (auto simp del: peek_tick_None intro!: map_cong filter_cong)
  then show ?thesis by (simp add: distinct_map_filter)
qed

lemma ready_partitions_ok:
  "distinct (ready_partitions_at_or_before s h)"
  "set (ready_partitions_at_or_before s h) = due_partitions s h"
proof -
  let ?due = "filter (\<lambda>(t, _). t \<le> h) (pending_ticks s)"
  have "distinct (map snd ?due)" using distinct_pending_ticks distinct_map_filter by blast
  then have "distinct (map fst (map prod.swap ?due))" by (simp add: comp_def)
  moreover have "mset (ready_partitions_at_or_before s h) = mset (map fst (map prod.swap ?due))"
    by (simp only: ready_partitions_at_or_before_def sort_ready_partitions_def mset_map mset_sort)
  ultimately show "distinct (ready_partitions_at_or_before s h)" using mset_eq_imp_distinct_iff by blast
  have "p \<in> set (ready_partitions_at_or_before s h) \<longleftrightarrow> p \<in> due_partitions s h" for p
  proof -
    have "p \<in> set (ready_partitions_at_or_before s h) \<longleftrightarrow> (\<exists>t. (t, p) \<in> set (pending_ticks s) \<and> t \<le> h)"
      by (force simp: ready_partitions_at_or_before_def sort_ready_partitions_def)
    then show ?thesis by (auto simp: pending_ticks_iff due_partitions_peek)
  qed
  then show "set (ready_partitions_at_or_before s h) = due_partitions s h" by blast
qed

lemma batch_pre_advance:
  assumes pre: "batch_pre s h" and wf: "wf_scheduler s'" and adv: "all_advance h s s'"
  shows "batch_pre s' h"
proof -
  have "h \<le> pq_now (sch_partitions s' ! p) + sch_min_remote_delay s' \<and>
      (\<forall>e \<in> set (serial_events (sch_partitions s' ! p)). h < pe_tick e)"
    if p: "p < partition_count s'" for p
  proof -
    have "p < partition_count s" and d: "sch_min_remote_delay s' = sch_min_remote_delay s"
      using adv p by (auto simp: all_advance_def same_config_def)
    then have "queue_advances h (sch_partitions s ! p) (sch_partitions s' ! p)"
        "h \<le> pq_now (sch_partitions s ! p) + sch_min_remote_delay s"
        "\<forall>e \<in> set (serial_events (sch_partitions s ! p)). h < pe_tick e"
      using adv pre by (auto simp: all_advance_def batch_pre_def)
    then show ?thesis using d by (auto simp: queue_advances_def)
  qed
  then show ?thesis using wf by (simp add: batch_pre_def)
qed

lemma no_serial_due:
  assumes "batch_pre s h"
  shows "first_serial_event_at_or_before s h = None"
proof -
  have "first_serial_tick_at_or_before q h = None" if "q \<in> set (sch_partitions s)" for q
  proof -
    have "\<forall>e \<in> set (serial_events q). h < pe_tick e"
      using assms that by (auto simp: batch_pre_def in_set_conv_nth [of q])
    then show ?thesis by (auto simp: first_serial_tick_at_or_before_def serial_events_def filter_empty_conv)
  qed
  then have "List.map_filter (\<lambda>(p, q). map_option (\<lambda>t. (t, p)) (first_serial_tick_at_or_before q h))
      (enumerate 0 (sch_partitions s)) = []"
    by (auto simp: List.map_filter_def filter_empty_conv set_enumerate)
  then show ?thesis by (simp add: first_serial_event_at_or_before_def)
qed

text \<open>
  The invariant of the epoch loop that started in \<open>s0\<close>: every partition that has a due event is ready, and
  every message sent so far is delivered at the horizon or later.
\<close>

definition epoch_inv :: "'c scheduler \<Rightarrow> tick \<Rightarrow> 'c epoch_state \<Rightarrow> bool" where
  "epoch_inv s0 h = (\<lambda>(ready, executed, dispatches, batches, s).
     batch_pre s h \<and> all_advance h s0 s \<and> sch_now s = sch_now s0 \<and>
     distinct ready \<and> set ready = due_partitions s h \<and>
     (\<forall>b \<in> set batches. \<forall>r \<in> set (ebr_remote_sends b). h \<le> rsr_tick r))"

lemma epoch_batch:
  assumes inv: "epoch_inv s0 h (ready, n, ds, bs, s)"
  shows "batch_pre s h" and "distinct (take k ready)" and "\<forall>p \<in> set (take k ready). p < partition_count s"
proof -
  show "batch_pre s h" and "distinct (take k ready)" using inv by (simp_all add: epoch_inv_def)
  have "set (take k ready) \<subseteq> set ready" by (rule set_take_subset)
  then show "\<forall>p \<in> set (take k ready). p < partition_count s" using inv by (auto simp: epoch_inv_def due_partitions_def)
qed

lemma parallel_epoch_cases:
  fixes code :: "'c parallel_code"
  assumes inv: "epoch_inv s0 h (ready, n, ds, bs, s)"
    and step: "parallel_epoch_body code h (ready, n, ds, bs, s) = Some r"
  obtains (stop) "ready = []" "r = Inr (s, Inr (n, ds, bs))"
  | (overflow) s' p m d where "r = Inr (s', Inl (EpochHorizonOverflow p m d))"
  | (panic) s' p where "r = Inr (s', Inl (ParallelWorkerPanicked p))" "wf_scheduler s'" "all_advance h s0 s'"
  | (batch) ready' n' ds' s1 s2 and b :: "'c parallel_batch_result" where "r = Inl (ready', n', ds', bs @ [pbr_record b], s2)"
      "epoch_inv s0 h (ready', n', ds', bs @ [pbr_record b], s2)"
      "batch_post s h (take (sch_max_parallel_workers s) ready) s1 (pbr_remote_events b)"
      "\<forall>p \<in> set (take (sch_max_parallel_workers s) ready). due_work h (pq_pending (sch_partitions s1 ! p)) = {#}"
      "merge_remote_parallel_events s1 (pbr_remote_events b) = (s2, Inr ())"
proof (cases "ready = []")
  case True
  moreover from this have "r = Inr (s, Inr (n, ds, bs))" using step by (simp add: parallel_epoch_body_def)
  ultimately show ?thesis by (rule stop)
next
  case False
  let ?k = "sch_max_parallel_workers s"
  note pre = epoch_batch(1) [OF inv] epoch_batch(2,3) [OF inv, where k = ?k]
  obtain s1 v where b: "run_parallel_batch code s h (take ?k ready) = Some (s1, v)"
    using step False by (auto simp: parallel_epoch_body_def)
  have adv0: "all_advance h s0 s" and now0: "sch_now s = sch_now s0" using inv by (simp_all add: epoch_inv_def)
  show ?thesis
  proof (rule run_parallel_batch_cases [OF pre b])
    fix p m d assume "v = Inl (EpochHorizonOverflow p m d)"
    then have "r = Inr (s1, Inl (EpochHorizonOverflow p m d))" using step False b by (simp add: parallel_epoch_body_def)
    then show ?thesis by (rule overflow)
  next
    fix p assume v: "v = Inl (ParallelWorkerPanicked p)" and s1: "wf_scheduler s1" "all_advance h s s1"
    have "r = Inr (s1, Inl (ParallelWorkerPanicked p))" using step False b v by (simp add: parallel_epoch_body_def)
    then show ?thesis using s1(1) all_advance_trans [OF adv0 s1(2)] by (rule panic)
  next
    fix b' assume v: "v = Inr b'" and bp: "batch_post s h (take ?k ready) s1 (pbr_remote_events b')"
      and now: "sch_now s1 = sch_now s"
      and drained: "\<forall>p \<in> set (take ?k ready). due_work h (pq_pending (sch_partitions s1 ! p)) = {#}"
      and sends: "ebr_remote_sends (pbr_record b') = map remote_send_of (pbr_remote_events b')"
    have wf1: "wf_scheduler s1" using bp by (simp add: batch_post_def)
    obtain s2 where s2: "merge_remote_parallel_events s1 (pbr_remote_events b') = (s2, Inr ())" "wf_scheduler s2"
        "all_receive h s1 s2"
      using merge_remote_ok [OF wf1 batch_messages [OF bp], where h = h] by blast
    have adv: "all_advance h s s2"
      using all_advance_trans [OF all_advance_post [OF bp] all_advance_receive [OF s2(3)]] .
    have pre2: "batch_pre s2 h" by (rule batch_pre_advance [OF pre(1) s2(2) adv])
    let ?ready = "ready_partitions_at_or_before s2 h"
    have r: "r = Inl (?ready, n + pbr_executed_events b', ds @ pbr_dispatches b', bs @ [pbr_record b'], s2)"
      using step False b v s2(1) no_serial_due [OF pre2] by (simp add: parallel_epoch_body_def)
    have now2: "sch_now s2 = sch_now s0" using s2(3) now now0 by (simp add: all_receive_def)
    have "h \<le> rsr_tick x" if "x \<in> set (ebr_remote_sends (pbr_record b'))" for x
      using that batch_messages [OF bp] by (auto simp: sends remote_send_of_def)
    then have "epoch_inv s0 h (?ready, n + pbr_executed_events b', ds @ pbr_dispatches b', bs @ [pbr_record b'], s2)"
      using pre2 all_advance_trans [OF adv0 adv] now2 inv unfolding epoch_inv_def
      by (simp add: ready_partitions_ok ball_Un)
    then show ?thesis by (rule batch [OF r _ bp drained s2(1)])
  qed
qed

end
