(* ===== verification/Scheduler_Runs.thy ===== *)
theory Scheduler_Runs
  imports Parallel_Epoch
begin

text \<open>
  Whole runs of the partitioned scheduler: what a plan promises, the outcomes of a parallel epoch, mixed events,
  the schedulers that the operations of \<^verbatim>\<open>PartitionedScheduler\<close> reach, and the properties of those.
\<close>

section \<open>Plans\<close>

lemma res_foldl_collect:
  assumes "\<And>acc x. f acc x = res_bind (g x) (\<lambda>y. Inr (acc @ [y]))"
  shows "res_foldl f acc xs = Inr ys \<longleftrightarrow> (\<exists>zs. ys = acc @ zs \<and> list_all2 (\<lambda>x z. g x = Inr z) xs zs)"
proof (induction xs arbitrary: acc)
  case (Cons x xs)
  show ?case
  proof (cases "g x")
    case (Inr y)
    then show ?thesis using Cons [of "acc @ [y]"] by (auto simp: assms list_all2_Cons1)
  qed (auto simp: assms list_all2_Cons1)
qed auto

lemma res_foldl_collect_error:
  assumes "\<And>acc x. f acc x = res_bind (g x) (\<lambda>y. Inr (acc @ [y]))" and "res_foldl f acc xs = Inl e"
  shows "\<exists>x \<in> set xs. g x = Inl e"
  using assms(2)
proof (induction xs arbitrary: acc)
  case (Cons x xs)
  then show ?case by (cases "g x") (auto simp: assms(1))
qed simp

lemma ball_enumerate: "(\<forall>x \<in> set (enumerate 0 xs). P (snd x)) \<longleftrightarrow> (\<forall>x \<in> set xs. P x)"
proof -
  have "set xs = snd ` set (enumerate 0 xs)" by (simp flip: set_map)
  then show ?thesis by simp
qed

definition frontier_of :: "tick \<Rightarrow> PartitionId \<times> 'c partition_queue \<Rightarrow> partition_frontier" where
  "frontier_of delay = (\<lambda>(p, q).
     \<lparr>pf_partition = p, pf_now = pq_now q, pf_safe_until = pq_now q + delay, pf_next_tick = peek_tick q,
      pf_pending_events = length (pq_pending q)\<rparr>)"

lemma parallel_epoch_frontiers_ok:
  "parallel_epoch_frontiers s = Inr fs \<longleftrightarrow>
     fs = map (frontier_of (sch_min_remote_delay s)) (enumerate 0 (sch_partitions s)) \<and>
     (\<forall>q \<in> set (sch_partitions s). pq_now q + sch_min_remote_delay s < U64_RANGE)"
  "parallel_epoch_frontiers s = Inl e \<Longrightarrow> \<exists>p n d. e = EpochHorizonOverflow p n d"
proof -
  let ?d = "sch_min_remote_delay s"
  let ?f = "\<lambda>frontiers (p, q). res_bind (ok_or (EpochHorizonOverflow p (pq_now q) ?d) (checked_add (pq_now q) ?d))
      (\<lambda>safe_until. Inr (frontiers @ [\<lparr>pf_partition = p, pf_now = pq_now q, pf_safe_until = safe_until,
         pf_next_tick = peek_tick q, pf_pending_events = length (pq_pending q)\<rparr>]))"
  let ?g = "\<lambda>(p, q). if pq_now q + ?d < U64_RANGE then Inr (frontier_of ?d (p, q))
      else Inl (EpochHorizonOverflow p (pq_now q) ?d)"
  have f: "?f acc x = res_bind (?g x) (\<lambda>y. Inr (acc @ [y]))" for acc x
    by (cases x) (simp add: checked_add_def frontier_of_def)
  have "list_all2 (\<lambda>x z. ?g x = Inr z) xs zs \<longleftrightarrow> zs = map (frontier_of ?d) xs \<and>
      (\<forall>x \<in> set xs. pq_now (snd x) + ?d < U64_RANGE)" for xs :: "(nat \<times> 'a partition_queue) list" and zs
    by (induction xs arbitrary: zs) (auto simp: list_all2_Cons1 split: if_splits)
  moreover note ball_enumerate [of "sch_partitions s" "\<lambda>q. pq_now q + ?d < U64_RANGE"]
  ultimately show "parallel_epoch_frontiers s = Inr fs \<longleftrightarrow>
     fs = map (frontier_of (sch_min_remote_delay s)) (enumerate 0 (sch_partitions s)) \<and>
     (\<forall>q \<in> set (sch_partitions s). pq_now q + sch_min_remote_delay s < U64_RANGE)"
    unfolding parallel_epoch_frontiers_def res_foldl_collect [of ?f ?g, OF f] by simp
  show "\<exists>p n d. e = EpochHorizonOverflow p n d" if "parallel_epoch_frontiers s = Inl e"
    using res_foldl_collect_error [of ?f ?g, OF f that [unfolded parallel_epoch_frontiers_def]]
    by (auto split: if_splits)
qed

lemma planned_ready:
  "map fst (sort_ready_partitions (List.map_filter (\<lambda>f. case pf_next_tick f of None \<Rightarrow> None
      | Some t \<Rightarrow> if t \<le> h then Some (pf_partition f, t) else None)
     (map (frontier_of d) (enumerate 0 (sch_partitions s))))) = ready_partitions_at_or_before s h"
proof -
  have "List.map_filter (\<lambda>f. case pf_next_tick f of None \<Rightarrow> None
        | Some t \<Rightarrow> if t \<le> h then Some (pf_partition f, t) else None) (map (frontier_of d) xs) =
      map prod.swap (filter (\<lambda>(t, _). t \<le> h) (List.map_filter (\<lambda>(p, q). map_option (\<lambda>t. (t, p)) (peek_tick q)) xs))"
    for xs :: "(nat \<times> 'a partition_queue) list"
    by (induction xs) (auto simp: List.map_filter_simps frontier_of_def split: option.splits simp del: peek_tick_None)
  then show ?thesis by (simp add: ready_partitions_at_or_before_def pending_ticks_def)
qed

lemma sort_key_Nil: "sort_key f xs = [] \<longleftrightarrow> xs = []"
  using set_sort [of f xs] by (auto simp flip: set_empty)

lemma no_blockers:
  "serial_blockers_with_tokens_at_or_before s h = [] \<longleftrightarrow>
     (\<forall>q \<in> set (sch_partitions s). \<forall>e \<in> set (serial_events q). h < pe_tick e)"
proof -
  let ?due = "\<lambda>q. filter (\<lambda>e. pe_tick e \<le> h \<and> is_serial e) (pq_pending q)"
  have "serial_blockers_with_tokens_at_or_before s h = [] \<longleftrightarrow>
      (\<forall>x \<in> set (enumerate 0 (sch_partitions s)). ?due (snd x) = [])"
    unfolding serial_blockers_with_tokens_at_or_before_def queue_serial_blockers_def
    by (simp add: sort_key_Nil split_beta)
  also have "\<dots> \<longleftrightarrow> (\<forall>q \<in> set (sch_partitions s). ?due q = [])" by (rule ball_enumerate)
  also have "\<dots> \<longleftrightarrow> (\<forall>q \<in> set (sch_partitions s). \<forall>e \<in> set (serial_events q). h < pe_tick e)"
    by (auto simp: serial_events_def filter_empty_conv not_le)
  finally show ?thesis .
qed

text \<open>
  The horizon of a plan lies within the lookahead of every partition, its ready partitions are those with due
  events, and it is free of serial blockers only if no serial event is due.
\<close>

lemma plan_ok:
  assumes wf: "wf_scheduler s" and plan: "plan_next_parallel_epoch_with_limit s limit = Inr plan"
  shows "map fst (pep_ready_partitions plan) = ready_partitions_at_or_before s (pep_horizon plan)"
    and "pep_serial_blockers plan = [] \<Longrightarrow> batch_pre s (pep_horizon plan)"
    and "(\<And>q. q \<in> set (sch_partitions s) \<Longrightarrow> t \<le> pq_now q) \<Longrightarrow> (\<And>l. limit = Some l \<Longrightarrow> t \<le> l) \<Longrightarrow> t \<le> pep_horizon plan"
proof -
  define fs where "fs = map (frontier_of (sch_min_remote_delay s)) (enumerate 0 (sch_partitions s))"
  have safe_until: "map pf_safe_until fs = map (\<lambda>q. pq_now q + sch_min_remote_delay s) (sch_partitions s)"
    unfolding fs_def by (rule nth_equalityI) (simp_all add: frontier_of_def nth_enumerate_eq)
  have "map pf_safe_until fs \<noteq> []" using wf unfolding safe_until by (auto simp: wf_scheduler_def)
  then obtain safe where safe: "min_list_option (map pf_safe_until fs) = Some safe"
    using min_list_option_None by (metis not_None_eq)
  obtain fs' where "parallel_epoch_frontiers s = Inr fs'"
    using plan by (cases "parallel_epoch_frontiers s") (simp_all add: plan_next_parallel_epoch_with_limit_def)
  then have fs: "parallel_epoch_frontiers s = Inr fs" using parallel_epoch_frontiers_ok(1) [of s fs'] by (simp add: fs_def)
  define h where "h = (case limit of None \<Rightarrow> the (min_list_option (map pf_safe_until fs))
    | Some l \<Rightarrow> min (the (min_list_option (map pf_safe_until fs))) l)"
  have h_cases: "h = (case limit of None \<Rightarrow> safe | Some l \<Rightarrow> min safe l)" using safe by (cases limit) (simp_all add: h_def)
  have "pep_horizon plan = h \<and> map fst (pep_ready_partitions plan) = ready_partitions_at_or_before s h \<and>
      pep_serial_blockers plan = map fst (serial_blockers_with_tokens_at_or_before s h)"
    using plan [unfolded plan_next_parallel_epoch_with_limit_def fs res_bind_Inr Let_def, folded h_def]
      planned_ready [of h "sch_min_remote_delay s" s, folded fs_def]
    by (auto simp: plan_with_runtime_provenance_def)
  then have h: "pep_horizon plan = h" and ready: "map fst (pep_ready_partitions plan) = ready_partitions_at_or_before s h"
      and blockers: "pep_serial_blockers plan = map fst (serial_blockers_with_tokens_at_or_before s h)"
    by simp_all
  show "map fst (pep_ready_partitions plan) = ready_partitions_at_or_before s (pep_horizon plan)"
    unfolding h by (rule ready)
  have "safe \<le> pq_now q + sch_min_remote_delay s" if "q \<in> set (sch_partitions s)" for q
    using min_list_option_SomeD(2) [OF safe, unfolded safe_until] that by simp
  then have bound: "h \<le> pq_now q + sch_min_remote_delay s" if "q \<in> set (sch_partitions s)" for q
    using that unfolding h_cases by (force split: option.split)
  show "batch_pre s (pep_horizon plan)" if "pep_serial_blockers plan = []"
    using that wf bound no_blockers [of s h] unfolding batch_pre_def h blockers by (auto dest: nth_mem)
  obtain q where q: "q \<in> set (sch_partitions s)" "safe = pq_now q + sch_min_remote_delay s"
    using min_list_option_SomeD(1) [OF safe, unfolded safe_until] by auto
  show "t \<le> pep_horizon plan" if "\<And>q. q \<in> set (sch_partitions s) \<Longrightarrow> t \<le> pq_now q" "\<And>l. limit = Some l \<Longrightarrow> t \<le> l"
    using that(1) [OF q(1)] that(2) q(2) unfolding h h_cases by (auto split: option.split)
qed

lemma plan_next_cases:
  "plan_next_parallel_epoch s = Inr (Some plan) \<Longrightarrow> plan_next_parallel_epoch_with_limit s None = Inr plan"
  "plan_next_parallel_epoch_until s l = Inr (Some plan) \<Longrightarrow>
     plan_next_parallel_epoch_with_limit s (Some l) = Inr plan \<and> sch_now s < l"
  by (auto simp: plan_next_parallel_epoch_def plan_next_parallel_epoch_until_def map_ok_def
      split: if_splits sum.splits)

section \<open>Outcomes of a parallel epoch\<close>

lemma epoch_start:
  assumes "batch_pre s h"
  shows "epoch_inv s h (ready_partitions_at_or_before s h, 0, [], [], s)"
  using assms by (simp add: epoch_inv_def all_advance_def ready_partitions_ok)

lemma epoch_loop_cases:
  assumes inv: "epoch_inv s0 h x" and run: "loop (parallel_epoch_body code h) x = Some (s', r)"
  shows "case r of
      Inr (n, ds, bs) \<Rightarrow> epoch_inv s0 h ([], n, ds, bs, s')
    | Inl e \<Rightarrow> (\<exists>p m d. e = EpochHorizonOverflow p m d) \<or>
        (\<exists>p. e = ParallelWorkerPanicked p) \<and> wf_scheduler s' \<and> all_advance h s0 s'"
proof -
  let ?Q = "\<lambda>(s', r). case r of
      Inr (n, ds, bs) \<Rightarrow> epoch_inv s0 h ([], n, ds, bs, s')
    | Inl e \<Rightarrow> (\<exists>p m d. e = EpochHorizonOverflow p m d) \<or>
        (\<exists>p. e = ParallelWorkerPanicked p) \<and> wf_scheduler s' \<and> all_advance h s0 s'"
  have "?Q (s', r)"
  proof (rule loop_invariant [where I = "epoch_inv s0 h" and Q = ?Q, OF run inv])
    fix x x' assume I: "epoch_inv s0 h x" and step: "parallel_epoch_body code h x = Some (Inl x')"
    obtain ready n ds bs s where x: "x = (ready, n, ds, bs, s)" by (cases x)
    show "epoch_inv s0 h x'" by (rule parallel_epoch_cases [OF I [unfolded x] step [unfolded x]]) simp_all
  next
    fix x v assume I: "epoch_inv s0 h x" and step: "parallel_epoch_body code h x = Some (Inr v)"
    obtain ready n ds bs s where x: "x = (ready, n, ds, bs, s)" by (cases x)
    show "?Q v"
      by (rule parallel_epoch_cases [OF I [unfolded x] step [unfolded x]]) (use I x in simp_all)
  qed
  then show ?thesis by simp
qed

lemma epoch_drained:
  assumes "epoch_inv s0 h ([], n, ds, bs, s)" and "q \<in> set (sch_partitions s)" and "e \<in> set (pq_pending q)"
  shows "h < pe_tick e"
  using assms by (auto simp: epoch_inv_def due_partitions_def due_work_empty_iff in_set_conv_nth [of q])

lemma run_plan_cases:
  assumes wf: "wf_scheduler s" and plan: "plan_next_parallel_epoch_with_limit s limit = Inr plan"
    and run: "run_parallel_epoch_plan_recorded code s plan = Some (s', r)"
  obtains (blocked) p t where "r = Inl (SerialEventInParallelEpoch p t)" "s' = s"
  | (overflow) p m d where "r = Inl (EpochHorizonOverflow p m d)"
  | (panic) p where "r = Inl (ParallelWorkerPanicked p)" "wf_scheduler s'" "all_advance (pep_horizon plan) s s'"
  | (finish) s1 n ds recorded where "r = Inr recorded" "s' = advance_partitions_to s1 (pep_horizon plan)"
      "epoch_inv s (pep_horizon plan) ([], n, ds, rrs_batches recorded, s1)"
      "rs_final_tick (rrs_summary recorded) = pep_horizon plan"
proof (cases "pep_serial_blockers plan")
  case (Cons b bs)
  then show ?thesis using blocked run by (auto simp: run_parallel_epoch_plan_recorded_def)
next
  case Nil
  let ?h = "pep_horizon plan"
  note start = epoch_start [OF plan_ok(2) [OF wf plan Nil]]
  obtain s1 v where l: "loop (parallel_epoch_body code ?h) (ready_partitions_at_or_before s ?h, 0, [], [], s) = Some (s1, v)"
    using run Nil by (auto simp: run_parallel_epoch_plan_recorded_def plan_ok(1) [OF wf plan])
  show ?thesis
  proof (cases v)
    case (Inl e)
    then have r: "s' = s1" "r = Inl e"
      using run Nil l by (simp_all add: run_parallel_epoch_plan_recorded_def plan_ok(1) [OF wf plan])
    show ?thesis using epoch_loop_cases [OF start l] overflow panic Inl r by auto
  next
    case (Inr x)
    obtain n ds bs where x: "x = (n, ds, bs)" by (cases x)
    let ?s = "advance_partitions_to s1 ?h"
    have inv: "epoch_inv s ?h ([], n, ds, bs, s1)" using epoch_loop_cases [OF start l] Inr x by simp
    show ?thesis
    proof (cases "parallel_epoch_frontiers ?s")
      case (Inl e)
      then have "r = Inl e"
        using run Nil l Inr x by (simp add: run_parallel_epoch_plan_recorded_def plan_ok(1) [OF wf plan] Let_def)
      then show ?thesis using parallel_epoch_frontiers_ok(2) [OF Inl] overflow by blast
    next
      case fs: (Inr fs)
      have now: "sch_now ?s = ?h" by (simp add: advance_partitions_to_def)
      obtain recorded where "s' = ?s" "r = Inr recorded" "rrs_batches recorded = bs"
          "rs_final_tick (rrs_summary recorded) = ?h"
        using run Nil l Inr x fs now
        by (fastforce simp: run_parallel_epoch_plan_recorded_def plan_ok(1) [OF wf plan] Let_def)
      then show ?thesis using finish inv by blast
    qed
  qed
qed

lemma epoch_finish:
  assumes inv: "epoch_inv s h ([], n, ds, bs, s1)" and clocks: "\<And>q. q \<in> set (sch_partitions s) \<Longrightarrow> pq_now q \<le> h"
    and s': "s' = advance_partitions_to s1 h"
  shows "wf_scheduler s'" and "synced s'" and "same_config s s'" and "sch_now s' = h"
    and "q \<in> set (sch_partitions s') \<Longrightarrow> e \<in> set (pq_pending q) \<Longrightarrow> h < pe_tick e"
proof -
  have adv: "all_advance h s s1" and wf: "wf_scheduler s1" using inv by (simp_all add: epoch_inv_def batch_pre_def)
  have now: "pq_now q \<le> h" if q: "q \<in> set (sch_partitions s1)" for q
  proof -
    obtain p where p: "p < partition_count s1" "q = sch_partitions s1 ! p" using q by (auto simp: in_set_conv_nth)
    then have "pq_now (sch_partitions s ! p) \<le> h" using adv clocks by (auto simp: all_advance_def same_config_def)
    then show ?thesis using adv p by (auto simp: all_advance_def same_config_def queue_advances_def)
  qed
  have late: "h \<le> pe_tick e" if "q \<in> set (sch_partitions s1)" "e \<in> set (pq_pending q)" for q e
    using epoch_drained [OF inv that] by simp
  note keep = advance_keeps [of s1 h, OF wf now late]
  show "wf_scheduler s'" "synced s'" "sch_now s' = h" using keep by (simp_all add: s')
  show "same_config s s'" using keep adv same_config_trans [of s s1] by (simp add: s' all_advance_def)
  show "h < pe_tick e" if q: "q \<in> set (sch_partitions s')" "e \<in> set (pq_pending q)"
  proof -
    obtain q1 where "q1 \<in> set (sch_partitions s1)" "pq_pending q = pq_pending q1"
      using q(1) by (auto simp: s' advance_partitions_to_def)
    then show ?thesis using epoch_drained [OF inv] q(2) by simp
  qed
qed

lemma serial_events_advance:
  "map serial_events (sch_partitions (advance_partitions_to s t)) = map serial_events (sch_partitions s)"
  by (simp add: advance_partitions_to_def serial_events_def)

lemma serial_events_all_advance:
  "all_advance h s s' \<Longrightarrow> map serial_events (sch_partitions s') = map serial_events (sch_partitions s)"
  by (rule nth_equalityI) (auto simp: all_advance_def same_config_def queue_advances_def)

section \<open>A parallel epoch ends\<close>

lemma sched_work_sum: "sched_work h s = (\<Sum>p < partition_count s. due_work h (pq_pending (sch_partitions s ! p)))"
  by (simp add: sched_work_def sum_list_sum_nth atLeast0LessThan)

lemma first_tick_due:
  assumes "p \<in> due_partitions s h"
  shows "h - first_tick (sch_partitions s ! p) \<in># due_work h (pq_pending (sch_partitions s ! p))"
proof -
  obtain t where t: "peek_tick (sch_partitions s ! p) = Some t" "t \<le> h" using assms by (auto simp: due_partitions_peek)
  then show ?thesis using peek_tick_SomeD(1) [OF t(1)] by (auto simp: due_work_def first_tick_def)
qed

text \<open>
  A batch takes the due work of its partitions away.  The messages add work only at the horizon itself, and
  only when a partition of the batch had an event before it.
\<close>

lemma epoch_work_decreases:
  assumes inv: "epoch_inv s0 h (ready, n, ds, bs, s)" and ne: "ready \<noteq> []"
    and post: "batch_post s h (take (sch_max_parallel_workers s) ready) s1 es"
    and drained: "\<forall>p \<in> set (take (sch_max_parallel_workers s) ready). due_work h (pq_pending (sch_partitions s1 ! p)) = {#}"
    and merge: "merge_remote_parallel_events s1 es = (s2, Inr ())"
  shows "(sched_work h s2, sched_work h s) \<in> mult less_than"
proof -
  define B where "B = set (take (sch_max_parallel_workers s) ready)"
  let ?w = "\<lambda>s p. due_work h (pq_pending (sch_partitions s ! p))"
  let ?J = "\<Sum>p \<in> B. ?w s p" let ?R = "\<Sum>p \<in> {..<partition_count s} - B. ?w s p"
  let ?K = "{# h - rse_tick e. e \<in># filter_mset (\<lambda>e. rse_tick e \<le> h) (mset es) #}"
  have due: "B \<subseteq> due_partitions s h" using inv set_take_subset [of _ ready] unfolding B_def epoch_inv_def by auto
  then have sub: "B \<subseteq> {..<partition_count s}" by (auto simp: due_partitions_def)
  have count: "partition_count s1 = partition_count s" using post by (simp add: batch_post_def same_config_def)
  have ws: "sched_work h s = ?R + ?J" unfolding sched_work_sum by (rule sum.subset_diff [OF sub]) simp
  have "sched_work h s1 = (\<Sum>p \<in> {..<partition_count s} - B. ?w s1 p) + (\<Sum>p \<in> B. ?w s1 p)"
    unfolding sched_work_sum count by (rule sum.subset_diff [OF sub]) simp
  also have "(\<Sum>p \<in> {..<partition_count s} - B. ?w s1 p) = ?R"
    by (rule sum.cong) (use post in \<open>auto simp: batch_post_def B_def\<close>)
  also have "(\<Sum>p \<in> B. ?w s1 p) = {#}" using drained by (simp add: B_def)
  finally have w1: "sched_work h s1 = ?R" by simp
  have wf1: "wf_scheduler s1" using post by (simp add: batch_post_def)
  have w2: "sched_work h s2 = ?R + ?K" using merge_remote_ok [OF wf1 batch_messages [OF post], of h] merge w1 by auto
  have fin: "finite B" by (simp add: B_def)
  have part: "k \<in># ?J" if "p \<in> B" "k \<in># ?w s p" for p k using that fin by (auto simp: sum.remove [of B p])
  have "B \<noteq> {}" using ne inv by (simp add: B_def epoch_inv_def batch_pre_def wf_scheduler_def)
  then obtain p where p: "p \<in> B" by blast
  have J: "?J \<noteq> {#}" using part [OF p first_tick_due] p due by auto
  have "\<exists>j \<in># ?J. (k, j) \<in> less_than" if k: "k \<in># ?K" for k
  proof -
    obtain e where e: "e \<in> set es" "rse_tick e \<le> h" "k = h - rse_tick e" using k by auto
    then have m: "message_ok s h (take (sch_max_parallel_workers s) ready) e" using post by (simp add: batch_post_def)
    have "0 < sch_min_remote_delay s" using inv by (simp add: epoch_inv_def batch_pre_def wf_scheduler_def)
    then have "rse_source e \<in> B" and "k < h - first_tick (sch_partitions s ! rse_source e)"
      using m e by (auto simp: message_ok_def B_def)
    then show ?thesis using part [of "rse_source e", OF _ first_tick_due] due by auto
  qed
  then show ?thesis unfolding ws w2 using one_step_implies_mult [OF J] by blast
qed

lemma run_parallel_batch_returns:
  assumes "forward_parallel_code code"
  shows "run_parallel_batch code s h ready \<noteq> None"
proof -
  have "those (map (\<lambda>(_, p, q). run_parallel_partition code (worker_env s p) q h) ws) \<noteq> None" for ws :: "(worker_record \<times> _ \<times> _) list"
  proof (induction ws)
    case (Cons w ws)
    obtain x p q where w: "w = (x, p, q)" by (cases w)
    obtain res where "run_parallel_partition code (worker_env s p) q h = Some res"
      using run_parallel_partition_returns [OF assms] by blast
    then show ?case using Cons by (simp add: w)
  qed simp
  then show ?thesis by (simp add: run_parallel_batch_def split: prod.split sum.split del: not_None_eq)
qed

interpretation parallel_epoch: decreasing_loop "parallel_epoch_body code h"
  "\<lambda>x. forward_parallel_code code \<and> epoch_inv s0 h x" "\<lambda>(ready, n, ds, bs, s). sched_work h s" for code h s0
proof
  fix x :: "'a epoch_state" assume I: "forward_parallel_code code \<and> epoch_inv s0 h x"
  then show "parallel_epoch_body code h x \<noteq> None"
    using run_parallel_batch_returns by (cases x) (auto simp: parallel_epoch_body_def)
next
  fix x x' :: "'a epoch_state"
  assume I: "forward_parallel_code code \<and> epoch_inv s0 h x" and step: "parallel_epoch_body code h x = Some (Inl x')"
  obtain ready n ds bs s where x: "x = (ready, n, ds, bs, s)" by (cases x)
  have ne: "ready \<noteq> []" using step by (auto simp: x parallel_epoch_body_def)
  have inv: "epoch_inv s0 h (ready, n, ds, bs, s)" using I x by simp
  have "epoch_inv s0 h x' \<and> ((\<lambda>(ready, n, ds, bs, s). sched_work h s) x', sched_work h s) \<in> mult less_than"
  proof (rule parallel_epoch_cases [OF inv step [unfolded x]])
    fix ready' n' ds' s1 s2 and b :: "'a parallel_batch_result"
    assume x': "Inl x' = Inl (ready', n', ds', bs @ [pbr_record b], s2)"
      and inv': "epoch_inv s0 h (ready', n', ds', bs @ [pbr_record b], s2)"
      and b: "batch_post s h (take (sch_max_parallel_workers s) ready) s1 (pbr_remote_events b)"
        "\<forall>p \<in> set (take (sch_max_parallel_workers s) ready). due_work h (pq_pending (sch_partitions s1 ! p)) = {#}"
        "merge_remote_parallel_events s1 (pbr_remote_events b) = (s2, Inr ())"
    then show ?thesis using epoch_work_decreases [OF inv ne b] by simp
  qed simp_all
  then show "forward_parallel_code code \<and> epoch_inv s0 h x'"
      and "((\<lambda>(ready, n, ds, bs, s). sched_work h s) x', (\<lambda>(ready, n, ds, bs, s). sched_work h s) x) \<in> mult less_than"
    using I x by simp_all
qed

lemma run_plan_returns:
  assumes "forward_parallel_code code" and wf: "wf_scheduler s"
    and plan: "plan_next_parallel_epoch_with_limit s limit = Inr plan"
  shows "run_parallel_epoch_plan_recorded code s plan \<noteq> None"
proof (cases "pep_serial_blockers plan")
  case Nil
  note start = epoch_start [OF plan_ok(2) [OF wf plan Nil]]
  obtain v where "loop (parallel_epoch_body code (pep_horizon plan))
      (ready_partitions_at_or_before s (pep_horizon plan), 0, [], [], s) = Some v"
    using parallel_epoch.loop_returns [of code s "pep_horizon plan", OF conjI [OF assms(1) start]] by blast
  then show ?thesis using Nil by (simp add: run_parallel_epoch_plan_recorded_def plan_ok(1) [OF wf plan])
qed (simp add: run_parallel_epoch_plan_recorded_def)

section \<open>Properties of parallel epochs\<close>

lemma plan_limit_error:
  assumes "plan_next_parallel_epoch_with_limit s limit = Inl e"
  shows "\<exists>p m d. e = EpochHorizonOverflow p m d"
proof (cases "parallel_epoch_frontiers s")
  case (Inl e')
  then have "e' = e" using assms by (simp add: plan_next_parallel_epoch_with_limit_def)
  then show ?thesis using parallel_epoch_frontiers_ok(2) [OF Inl] by simp
next
  case (Inr fs)
  then show ?thesis using assms unfolding plan_next_parallel_epoch_with_limit_def Let_def by simp
qed

lemma run_next_epoch_parallel_cases:
  assumes wf: "wf_scheduler s" and run: "run_next_epoch_parallel_recorded code s = Some (s', r)"
  obtains (idle) "is_idle s" "s' = s" "r = Inr (empty_recorded_parallel_summary s)"
  | (planned) plan where "plan_next_parallel_epoch_with_limit s None = Inr plan"
      "run_parallel_epoch_plan_recorded code s plan = Some (s', r)"
  | (overflow) p m d where "s' = s" "r = Inl (EpochHorizonOverflow p m d)"
proof (cases "plan_next_parallel_epoch s")
  case (Inl e)
  then have "plan_next_parallel_epoch_with_limit s None = Inl e"
    by (cases "plan_next_parallel_epoch_with_limit s None") (simp_all add: plan_next_parallel_epoch_def split: if_splits)
  from plan_limit_error [OF this] show ?thesis using run Inl overflow by (auto simp: run_next_epoch_parallel_recorded_def)
next
  case (Inr x)
  show ?thesis
  proof (cases x)
    case None
    have "is_idle s"
      using Inr None by (cases "plan_next_parallel_epoch_with_limit s None") (simp_all add: plan_next_parallel_epoch_def split: if_splits)
    moreover have "s' = s" "r = Inr (empty_recorded_parallel_summary s)"
      using run Inr None by (auto simp: run_next_epoch_parallel_recorded_def)
    ultimately show ?thesis by (rule idle)
  next
    case (Some plan)
    have "run_parallel_epoch_plan_recorded code s plan = Some (s', r)"
      using run Inr Some by (simp add: run_next_epoch_parallel_recorded_def)
    with plan_next_cases(1) [OF Inr [unfolded Some]] show ?thesis by (rule planned)
  qed
qed

lemma synced_horizon:
  assumes wf: "wf_scheduler s" and sy: "synced s" and plan: "plan_next_parallel_epoch_with_limit s None = Inr plan"
  shows "sch_now s \<le> pep_horizon plan" and "q \<in> set (sch_partitions s) \<Longrightarrow> pq_now q \<le> pep_horizon plan"
proof -
  show "sch_now s \<le> pep_horizon plan" using plan_ok(3) [OF wf plan, of "sch_now s"] sy by (simp add: synced_def)
  then show "q \<in> set (sch_partitions s) \<Longrightarrow> pq_now q \<le> pep_horizon plan" using sy by (simp add: synced_def)
qed

text \<open>
  C0. Conservative parallel simulation is safe.  A parallel epoch of a well-formed scheduler whose clocks agree
  fails only because a serial event is due, a callback panicked or a tick leaves the \<open>u64\<close> range; merging
  the messages never fails.  When it succeeds, every clock is at the final tick, no event at or before it is
  left, and no message that crossed a partition boundary was delivered before the final tick.
\<close>

theorem parallel_epoch_lookahead:
  assumes wf: "wf_scheduler s" and sy: "synced s" and run: "run_next_epoch_parallel_recorded code s = Some (s', r)"
  shows "case r of
      Inl e \<Rightarrow> (\<exists>p t. e = SerialEventInParallelEpoch p t) \<or> (\<exists>p. e = ParallelWorkerPanicked p) \<or>
        (\<exists>p m d. e = EpochHorizonOverflow p m d)
    | Inr recorded \<Rightarrow>
        sch_now s' = rs_final_tick (rrs_summary recorded) \<and>
        list_all (\<lambda>q. pq_now q = sch_now s' \<and> list_all (\<lambda>e. sch_now s' < pe_tick e) (pq_pending q)) (sch_partitions s') \<and>
        list_all (\<lambda>b. list_all (\<lambda>m. sch_now s' \<le> rsr_tick m) (ebr_remote_sends b)) (rrs_batches recorded)"
proof (rule run_next_epoch_parallel_cases [OF wf run])
  assume "is_idle s" "s' = s" "r = Inr (empty_recorded_parallel_summary s)"
  then show ?thesis using sy by (simp add: empty_recorded_parallel_summary_def is_idle_def synced_def list_all_iff)
next
  fix plan assume plan: "plan_next_parallel_epoch_with_limit s None = Inr plan"
    and run': "run_parallel_epoch_plan_recorded code s plan = Some (s', r)"
  show ?thesis
  proof (rule run_plan_cases [OF wf plan run'])
    fix s1 n ds recorded
    assume r: "r = Inr recorded" "rs_final_tick (rrs_summary recorded) = pep_horizon plan"
      and s': "s' = advance_partitions_to s1 (pep_horizon plan)"
      and inv: "epoch_inv s (pep_horizon plan) ([], n, ds, rrs_batches recorded, s1)"
    have "\<forall>b \<in> set (rrs_batches recorded). \<forall>m \<in> set (ebr_remote_sends b). pep_horizon plan \<le> rsr_tick m"
      using inv by (simp add: epoch_inv_def)
    then show ?thesis
      using r epoch_finish [OF inv synced_horizon(2) [OF wf sy plan] s'] by (auto simp: list_all_iff synced_def)
  qed auto
qed auto

text \<open>Two partitions; the callback \<open>0\<close> sends a message that arrives exactly at the horizon.\<close>

definition message_code :: "nat parallel_code" where
  "message_code c p t =
     (if c = 0 then ParallelRemoteAfter 1 10 1 (\<lambda>_. ParallelLocalAfter 2 1 (\<lambda>_. ParallelDone)) else ParallelDone)"

definition message_scheduler :: "nat scheduler" where
  "message_scheduler =
     \<lparr>sch_instance_id = 1, sch_timeline_revision = 0, sch_now = 0, sch_min_remote_delay = 10,
      sch_max_parallel_workers = 1,
      sch_partitions = [fst (schedule_event_at partition_queue_new 0 0 (ParallelCallback 0)),
                        fst (schedule_event_at partition_queue_new 1 50 (SerialCallback 2))]\<rparr>"

lemma message_scheduler_ok: "wf_scheduler message_scheduler" "synced message_scheduler"
  by (simp_all add: message_scheduler_def wf_scheduler_def synced_def wf_queue_schedule less_Suc_eq
      schedule_event_at_def partition_queue_new_def wf_queue_def Let_def)

lemma message_epoch:
  obtains s' recorded where "run_next_epoch_parallel_recorded message_code message_scheduler = Some (s', Inr recorded)"
    "rs_executed_events (rrs_summary recorded) = 3"
proof -
  have "case run_next_epoch_parallel_recorded message_code message_scheduler of
      Some (s', Inr recorded) \<Rightarrow> rs_executed_events (rrs_summary recorded) = 3 | _ \<Rightarrow> False"
    by code_simp
  then show ?thesis using that by (auto split: option.splits prod.splits sum.splits)
qed

theorem parallel_epoch_lookahead_witness:
  "\<exists>s' recorded. run_next_epoch_parallel_recorded message_code message_scheduler = Some (s', Inr recorded) \<and>
    rs_executed_events (rrs_summary recorded) = 3 \<and> sch_now s' = rs_final_tick (rrs_summary recorded) \<and>
    list_all (\<lambda>q. pq_now q = sch_now s' \<and> list_all (\<lambda>e. sch_now s' < pe_tick e) (pq_pending q)) (sch_partitions s') \<and>
    list_all (\<lambda>b. list_all (\<lambda>m. sch_now s' \<le> rsr_tick m) (ebr_remote_sends b)) (rrs_batches recorded)"
proof (rule message_epoch)
  fix s' recorded
  assume run: "run_next_epoch_parallel_recorded message_code message_scheduler = Some (s', Inr recorded)"
    "rs_executed_events (rrs_summary recorded) = 3"
  then show ?thesis using parallel_epoch_lookahead [OF message_scheduler_ok run(1)] by auto
qed

text \<open>
  C0. Parallel epochs do not touch serial events.  Whether the epoch succeeds, is refused or stops because a
  callback panicked, every partition has afterwards exactly the serial events it had before, in the same order,
  unless a tick leaves the \<open>u64\<close> range.
\<close>

theorem parallel_epoch_keeps_serial:
  assumes wf: "wf_scheduler s" and run: "run_next_epoch_parallel_recorded code s = Some (s', r)"
    and no_overflow: "\<And>p m d. r \<noteq> Inl (EpochHorizonOverflow p m d)"
  shows "map serial_events (sch_partitions s') = map serial_events (sch_partitions s)"
proof (rule run_next_epoch_parallel_cases [OF wf run])
  fix plan assume plan: "plan_next_parallel_epoch_with_limit s None = Inr plan"
    and run': "run_parallel_epoch_plan_recorded code s plan = Some (s', r)"
  show ?thesis
  proof (rule run_plan_cases [OF wf plan run'])
    fix s1 n ds recorded assume s': "s' = advance_partitions_to s1 (pep_horizon plan)"
      and inv: "epoch_inv s (pep_horizon plan) ([], n, ds, rrs_batches recorded, s1)"
    have "all_advance (pep_horizon plan) s s1" using inv by (simp add: epoch_inv_def)
    then show ?thesis unfolding s' serial_events_advance by (rule serial_events_all_advance)
  qed (use no_overflow serial_events_all_advance in auto)
qed (use no_overflow in auto)

theorem parallel_epoch_keeps_serial_witness:
  "\<exists>s' recorded. run_next_epoch_parallel_recorded message_code message_scheduler = Some (s', Inr recorded) \<and>
    map (\<lambda>q. map pe_tick (serial_events q)) (sch_partitions s') = [[], [50]]"
proof (rule message_epoch)
  fix s' recorded
  assume run: "run_next_epoch_parallel_recorded message_code message_scheduler = Some (s', Inr recorded)"
  have "map (map pe_tick) (map serial_events (sch_partitions s')) = [[], [50]]"
    unfolding parallel_epoch_keeps_serial [OF message_scheduler_ok(1) run sum.distinct(2)]
    by (simp add: message_scheduler_def schedule_event_at_def partition_queue_new_def serial_events_def is_serial_def
        callback_kind_def Let_def)
  then show ?thesis using run by (auto simp: comp_def)
qed

text \<open>
  C0. A parallel epoch ends.  When every callback schedules with positive delays, the next parallel epoch of a
  well-formed scheduler returns: its batches leave less and less work before the horizon, although messages may
  make partitions ready again.
\<close>

theorem parallel_epoch_returns:
  assumes code: "forward_parallel_code code" and wf: "wf_scheduler s"
  shows "\<exists>s' r. run_next_epoch_parallel_recorded code s = Some (s', r)"
proof (cases "plan_next_parallel_epoch s")
  case (Inr x)
  show ?thesis
  proof (cases x)
    case (Some plan)
    have "run_parallel_epoch_plan_recorded code s plan \<noteq> None"
      by (rule run_plan_returns [OF code wf plan_next_cases(1) [OF Inr [unfolded Some]]])
    then show ?thesis using Inr Some by (auto simp: run_next_epoch_parallel_recorded_def)
  qed (simp add: run_next_epoch_parallel_recorded_def Inr)
qed (simp add: run_next_epoch_parallel_recorded_def)

theorem parallel_epoch_returns_witness:
  "\<exists>s' r. run_next_epoch_parallel_recorded message_code message_scheduler = Some (s', r)"
  by (rule parallel_epoch_returns [OF _ message_scheduler_ok(1)]) (simp add: forward_parallel_code_def message_code_def)

section \<open>Snapshots\<close>

lemma idle_pending:
  assumes "is_idle s"
  shows "snapshot_pending_events (scheduler_snapshot_of s) = 0" and "total_pending_events s = 0"
proof -
  have none: "pq_pending q = []" if "q \<in> set (sch_partitions s)" for q using assms that by (auto simp: is_idle_def list_all_iff)
  then show "total_pending_events s = 0" by (simp add: total_pending_events_def)
  show "snapshot_pending_events (scheduler_snapshot_of s) = 0"
    using none by (auto simp: snapshot_pending_events_def scheduler_snapshot_of_def queue_snapshot_def set_enumerate)
qed

lemma snapshot_partitions_nth:
  "p < partition_count s \<Longrightarrow> sn_partitions (scheduler_snapshot_of s) ! p = queue_snapshot p (sch_partitions s ! p)"
  by (simp add: scheduler_snapshot_of_def nth_enumerate_eq)

text \<open>
  C0. A quiescent snapshot can be restored.  The snapshot of an idle scheduler whose clocks agree is accepted by
  every idle scheduler of the same configuration, which then has the clocks and all counters of the first one.
\<close>

theorem snapshot_restore_roundtrip:
  assumes idle: "is_idle s" "is_idle t" and sy: "synced s" and config: "same_config s t"
  shows "\<exists>sn t'. quiescent_snapshot s = Inr sn \<and> restore_quiescent t sn = (t', Inr ()) \<and>
    scheduler_snapshot_of t' = scheduler_snapshot_of s"
proof -
  let ?sn = "scheduler_snapshot_of s"
  have n: "partition_count t = partition_count s" "length (sn_partitions ?sn) = partition_count s"
    using config by (simp_all add: same_config_def scheduler_snapshot_of_def)
  have "\<forall>p < partition_count s. ps_partition (sn_partitions ?sn ! p) = p \<and> ps_now (sn_partitions ?sn ! p) = sn_now ?sn"
    using sy by (simp add: snapshot_partitions_nth queue_snapshot_def synced_def) (simp add: scheduler_snapshot_of_def)
  then have "validate_quiescent_restore t ?sn = Inr ()"
    using config n idle_pending [OF idle(1)] idle_pending(2) [OF idle(2)]
    by (simp add: validate_quiescent_restore_def snapshot_compatible_iff same_config_def)
       (simp add: scheduler_snapshot_of_def)
  moreover define t' where "t' = revise_timeline (t\<lparr>sch_now := sn_now ?sn,
    sch_partitions := map2 queue_restore_quiescent (sch_partitions t) (sn_partitions ?sn)\<rparr>)"
  ultimately have r: "restore_quiescent t ?sn = (t', Inr ())" by (simp add: restore_quiescent_def)
  have "sn_partitions (scheduler_snapshot_of t') ! p = sn_partitions ?sn ! p" if p: "p < partition_count s" for p
  proof -
    have "pq_pending (sch_partitions s ! p) = []" "pq_pending (sch_partitions t ! p) = []"
      using idle p n by (simp_all add: is_idle_def list_all_length)
    then show ?thesis
      using p n by (simp add: snapshot_partitions_nth t'_def queue_snapshot_def queue_restore_quiescent_def)
  qed
  then have "sn_partitions (scheduler_snapshot_of t') = sn_partitions ?sn"
    using n by (intro nth_equalityI) (simp_all add: scheduler_snapshot_of_def t'_def)
  then have "scheduler_snapshot_of t' = ?sn"
    using config by (simp add: scheduler_snapshot_of_def t'_def same_config_def revise_timeline_def)
  then show ?thesis using r idle_pending(1) [OF idle(1)] by (simp add: quiescent_snapshot_def Let_def)
qed

section \<open>Mixed events\<close>

text \<open>One partition has run an event of the least pending tick \<open>t\<close>; all clocks are then moved to \<open>t\<close>.\<close>

lemma mixed_settles:
  assumes wf: "wf_scheduler s2" and sy: "synced s" and now: "sch_now s \<le> t"
    and late: "\<And>q x. q \<in> set (sch_partitions s) \<Longrightarrow> x \<in> set (pq_pending q) \<Longrightarrow> t \<le> pe_tick x"
    and q': "pq_now q' = t" "\<forall>x \<in> set (pq_pending q'). t \<le> pe_tick x"
    and recv: "all_receive t ((set_partition s p q')\<lparr>sch_now := n\<rparr>) s2"
  shows "wf_scheduler (advance_partitions_to s2 t) \<and> synced (advance_partitions_to s2 t) \<and>
    same_config s (advance_partitions_to s2 t)"
proof -
  have part: "pq_now q \<le> t \<and> (\<forall>e \<in> set (pq_pending q). t \<le> pe_tick e)" if q: "q \<in> set (sch_partitions s2)" for q
  proof -
    obtain i where i: "i < partition_count s2" "q = sch_partitions s2 ! i" using q by (auto simp: in_set_conv_nth)
    then have n: "i < partition_count s" and r: "receives t ((sch_partitions s)[p := q'] ! i) q"
      using recv by (auto simp: all_receive_def same_config_def)
    then have "pq_now ((sch_partitions s)[p := q'] ! i) \<le> t \<and>
        (\<forall>e \<in> set (pq_pending ((sch_partitions s)[p := q'] ! i)). t \<le> pe_tick e)"
      using late [OF nth_mem [OF n]] q' now sy by (cases "p = i") (auto simp: synced_def)
    then show ?thesis using r by (auto simp: receives_def)
  qed
  have "same_config s s2" using recv by (simp add: all_receive_def same_config_def)
  then show ?thesis using advance_keeps [of s2 t, OF wf] part same_config_trans [of s s2] by blast
qed

lemma mixed_parallel_keeps:
  assumes wf: "wf_scheduler s" and sy: "synced s" and p: "p < partition_count s"
    and pop: "pop_next (sch_partitions s ! p) = Some (e, q)"
    and least: "\<And>q x. q \<in> set (sch_partitions s) \<Longrightarrow> x \<in> set (pq_pending q) \<Longrightarrow> pe_tick e \<le> pe_tick x"
  shows "wf_scheduler (fst (dispatch_next_parallel_in_partition code s p plan e q c)) \<and>
    synced (fst (dispatch_next_parallel_in_partition code s p plan e q c)) \<and>
    same_config s (fst (dispatch_next_parallel_in_partition code s p plan e q c))"
proof -
  let ?t = "pe_tick e" let ?env = "worker_env s p"
  let ?ctx = "\<lparr>pc_queue = q\<lparr>pq_now := ?t\<rparr>, pc_remote_events = [], pc_next_remote_order = pq_next_remote_order q,
     pc_progress_transitions = [], pc_next_progress_order = pq_next_progress_order q\<rparr>"
  obtain ctx2 b where run: "run_parallel_script ?env ?t (code c p ?t) ?ctx = (ctx2, b)" by fastforce
  have grows: "ctx_grows ?env ?t 0 ?ctx ctx2" using run_parallel_script_grows [of 0 "code c p ?t" ?env ?t ?ctx] run by simp
  have env: "env_partition ?env = p" by (simp add: worker_env_def)
  have wfq: "wf_queue p (q\<lparr>pq_now := ?t\<rparr>)" by (rule wf_queue_pop [OF wf_schedulerD [OF wf p] pop])
  have now: "sch_now s \<le> ?t"
    using timelineD(2) [OF timeline_wf_synced [OF wf sy] p] pop_next_SomeD(1) [OF pop] by simp
  have late: "\<forall>x \<in> set (pq_pending q). ?t \<le> pe_tick x" using wfq by (simp add: wf_queue_def)
  show ?thesis
  proof (cases b)
    case True
    let ?q = "ppr_queue (worker_result ?env 0 [] (rollback_context ?ctx ctx2) None)"
    have "rollback_context ?ctx ctx2 =
        ?ctx\<lparr>pc_queue := (pc_queue ?ctx)\<lparr>pq_next_runtime_token := pq_next_runtime_token (pc_queue ctx2)\<rparr>\<rparr>"
      using grows wfq by (intro rollback_context_restores) (simp_all add: env)
    then have q: "pq_now ?q = ?t" "pq_pending ?q = pq_pending q" "wf_queue p ?q"
      using wfq by (simp_all add: worker_result_def wf_queue_def)
    have s2: "wf_scheduler (set_partition s p ?q)" by (rule wf_scheduler_set [OF wf q(3)])
    have "all_receive ?t ((set_partition s p ?q)\<lparr>sch_now := sch_now s\<rparr>) (set_partition s p ?q)"
      by (simp add: all_receive_def same_config_def)
    from mixed_settles [OF s2 sy now least q(1) _ this] show ?thesis
      using True run q(2) late by (simp add: dispatch_next_parallel_in_partition_def Let_def)
  next
    case False
    let ?q = "ppr_queue (worker_result ?env 1 [] ctx2 None)"
    let ?s1 = "(set_partition s p ?q)\<lparr>sch_now := ?t\<rparr>"
    have wfc: "wf_queue p (pc_queue ctx2)" using ctx_growsD(1) [OF grows] wfq by (simp add: env)
    have qnow: "pq_now (pc_queue ctx2) = ?t" using ctx_growsD(2) [OF grows] by (simp add: queue_grows_def)
    then have q: "pq_now ?q = ?t" "\<forall>x \<in> set (pq_pending ?q). ?t \<le> pe_tick x" "wf_queue p ?q"
      using wfc by (simp_all add: worker_result_def wf_queue_def)
    have s1: "wf_scheduler ?s1" using wf_scheduler_set [OF wf q(3)] by (simp add: wf_scheduler_def)
    have "rse_target r < partition_count ?s1 \<and> pq_now (sch_partitions ?s1 ! rse_target r) \<le> rse_tick r \<and> ?t \<le> rse_tick r"
      if "r \<in> set (pc_remote_events ctx2)" for r
    proof -
      have "remote_ok ?env ?t r \<and> rse_source_tick r = ?t" using ctx_growsD(4) [OF grows] that by auto
      then show ?thesis by (auto simp: remote_ok_def worker_env_def)
    qed
    then obtain s2 where s2: "merge_remote_parallel_events ?s1 (pc_remote_events ctx2) = (s2, Inr ())" "wf_scheduler s2"
        "all_receive ?t ?s1 s2"
      using merge_remote_ok [OF s1, of "pc_remote_events ctx2" ?t] by blast
    have "sch_now s2 = ?t" using s2(3) by (simp add: all_receive_def)
    then have "fst (dispatch_next_parallel_in_partition code s p plan e q c) = advance_partitions_to s2 ?t"
      using False run s2(1) by (simp add: dispatch_next_parallel_in_partition_def Let_def st_try_def split: sum.split)
    then show ?thesis using mixed_settles [OF s2(2) sy now least q(1,2) s2(3)] by simp
  qed
qed

lemma run_next_mixed_event_keeps:
  assumes run: "run_next_mixed_event code pcode s w plan = (sw, Inr r)" and wf: "wf_scheduler s" and sy: "synced s"
  shows "wf_scheduler (fst sw) \<and> synced (fst sw) \<and> same_config s (fst sw)"
proof (cases "sw = (s, w)")
  case False
  obtain u where v: "validate_parallel_epoch_plan s plan = Inr u"
    using run False by (cases "validate_parallel_epoch_plan s plan") (auto simp: run_next_mixed_event_def)
  obtain p where n: "next_partition_with_event s = Some p"
    using run False v by (cases "next_partition_with_event s") (auto simp: run_next_mixed_event_def)
  obtain t where t: "p < partition_count s" "peek_tick (sch_partitions s ! p) = Some t"
      "\<And>q e. q \<in> set (sch_partitions s) \<Longrightarrow> e \<in> set (pq_pending q) \<Longrightarrow> t \<le> pe_tick e"
    by (rule next_partitionD [OF n]) (rule that, assumption+)
  obtain e q where pop: "pop_next (sch_partitions s ! p) = Some (e, q)" and e: "pe_tick e = t"
    using peek_tick_pop [OF t(2)] by blast
  show ?thesis
  proof (cases "pe_callback e")
    case (SerialCallback c)
    obtain s1 w1 x where d: "dispatch_next_in_partition code s w p = ((s1, w1), x)" by (metis surj_pair)
    have sw: "fst sw = advance_partitions_to s1 (sch_now s1)"
      using run False v n pop SerialCallback d
      by (cases x) (auto simp: run_next_mixed_event_def Let_def split: if_splits)
    have "callback_inv s1 t" "same_config s s1"
      using dispatch_keeps [OF wf timeline_wf_synced [OF wf sy] t d] by simp_all
    then show ?thesis using advance_keeps [of s1 "sch_now s1"] same_config_trans [of s s1]
      unfolding sw callback_inv_def timeline_def by blast
  next
    case (ParallelCallback c)
    have "fst sw = fst (dispatch_next_parallel_in_partition pcode s p plan e q c)"
      using run False v n pop ParallelCallback by (auto simp: run_next_mixed_event_def split: if_splits prod.splits)
    then show ?thesis using mixed_parallel_keeps [OF wf sy t(1) pop, of pcode plan c] t(3) e by simp
  qed
qed (use wf sy in simp)

section \<open>The schedulers the operations reach\<close>

definition sched_inv :: "'c scheduler \<Rightarrow> bool" where
  "sched_inv s \<longleftrightarrow> wf_scheduler s \<and> synced s"

lemma sched_inv_with_partition:
  assumes inv: "sched_inv s" and wf: "\<And>q. wf_queue p q \<Longrightarrow> wf_queue p (fst (f q))" and now: "\<And>q. pq_now (fst (f q)) = pq_now q"
  shows "sched_inv (fst (with_partition s p f))"
proof (rule with_partition_induct [where P = sched_inv, OF inv])
  fix q assume q: "p < partition_count s" "q = sch_partitions s ! p"
  then have "pq_now (fst (f q)) = sch_now s" using inv now by (simp add: sched_inv_def synced_def)
  then show "sched_inv (set_partition s p (fst (f q)))"
    using inv q wf [OF wf_schedulerD [of s p]] by (auto simp: sched_inv_def intro: wf_scheduler_set synced_set)
qed

lemma queue_ops_now [simp]:
  "pq_now (fst (schedule_event_at q p t c)) = pq_now q" "pq_now (fst (queue_cancel_event q i)) = pq_now q"
  "pq_now (fst (queue_reschedule_event q i t)) = pq_now q"
  by (auto simp: schedule_event_at_def queue_cancel_event_def queue_reschedule_event_def remove_event_def Let_def
      split: prod.splits option.splits)

lemma sched_inv_schedule: "sched_inv s \<Longrightarrow> sched_inv (fst (with_partition s p (\<lambda>q. schedule_event_at q p t c)))"
  by (rule sched_inv_with_partition) (simp_all add: wf_queue_schedule)

lemma sched_inv_callback: "sched_inv s \<Longrightarrow> callback_inv s (sch_now s)"
  by (simp add: sched_inv_def callback_inv_def timeline_wf_synced)

lemma sched_inv_new: "with_parallel_worker_limit inst n d w = Inr s \<Longrightarrow> sched_inv s"
  by (auto simp: with_parallel_worker_limit_def sched_inv_def wf_scheduler_def synced_def partition_queue_new_def
      wf_queue_def split: if_splits)

lemma run_plan_keeps:
  assumes run: "run_parallel_epoch_plan_recorded code s plan = Some (s', Inr recorded)" and inv: "sched_inv s"
    and plan: "plan_next_parallel_epoch_with_limit s limit = Inr plan" and limit: "\<And>l. limit = Some l \<Longrightarrow> sch_now s \<le> l"
  shows "sched_inv s'"
proof -
  have wf: "wf_scheduler s" and sy: "synced s" using inv by (simp_all add: sched_inv_def)
  have h: "sch_now s \<le> pep_horizon plan" using plan_ok(3) [OF wf plan, of "sch_now s"] sy limit by (simp add: synced_def)
  then have clocks: "pq_now q \<le> pep_horizon plan" if "q \<in> set (sch_partitions s)" for q using sy that by (simp add: synced_def)
  show ?thesis
  proof (rule run_plan_cases [OF wf plan run])
    fix s1 n ds recorded' assume s': "s' = advance_partitions_to s1 (pep_horizon plan)"
      and e: "epoch_inv s (pep_horizon plan) ([], n, ds, rrs_batches recorded', s1)"
    then show ?thesis using epoch_finish(1,2) [OF e clocks s'] by (simp add: sched_inv_def)
  qed simp_all
qed

lemma run_next_epoch_parallel_keeps:
  assumes run: "run_next_epoch_parallel_recorded code s = Some (s', Inr recorded)" and inv: "sched_inv s"
  shows "sched_inv s'"
proof -
  have "wf_scheduler s" using inv by (simp add: sched_inv_def)
  from run_next_epoch_parallel_cases [OF this run] show ?thesis using run_plan_keeps [OF _ inv, of code _ s' recorded None] inv
    by cases simp_all
qed

lemma run_next_epoch_parallel_until_keeps:
  assumes run: "run_next_epoch_parallel_recorded_until code s l = Some (s', Inr r)" and inv: "sched_inv s"
  shows "sched_inv s'"
proof (cases "plan_next_parallel_epoch_until s l")
  case (Inr x)
  show ?thesis
  proof (cases x)
    case (Some plan)
    note plan = plan_next_cases(2) [OF Inr [unfolded Some]]
    obtain recorded where "run_parallel_epoch_plan_recorded code s plan = Some (s', Inr recorded)"
      using run Inr Some by (auto simp: run_next_epoch_parallel_recorded_until_def map_ok_eq_Inr)
    then show ?thesis by (rule run_plan_keeps [OF _ inv conjunct1 [OF plan]]) (use plan in simp)
  qed (use run inv Inr in \<open>simp add: run_next_epoch_parallel_recorded_until_def\<close>)
qed (use run in \<open>simp add: run_next_epoch_parallel_recorded_until_def\<close>)

lemma parallel_idle_cases:
  assumes step: "parallel_idle_body code (es, n, pr, s) = Some r"
  obtains (error) s' e where "r = Inr (s', Inl e)"
  | (stop) x where "r = Inr (s, Inr x)"
  | (epoch) s' e where "run_next_epoch_parallel_recorded code s = Some (s', Inr e)"
      "(\<exists>x. r = Inr (s', Inr x)) \<or> (\<exists>es' n' pr'. r = Inl (es', n', pr', s'))"
proof (cases "plan_next_parallel_epoch s")
  case (Inl e)
  then show ?thesis using error step by (auto simp: parallel_idle_body_def Let_def)
next
  case (Inr x)
  show ?thesis
  proof (cases x)
    case None
    then show ?thesis using stop step Inr by (auto simp: parallel_idle_body_def Let_def)
  next
    case (Some plan)
    obtain s' v where run: "run_next_epoch_parallel_recorded code s = Some (s', v)"
      using step Inr Some by (auto simp: parallel_idle_body_def Let_def)
    show ?thesis
    proof (cases v)
      case (Inl e)
      then show ?thesis using error step Inr Some run by (auto simp: parallel_idle_body_def Let_def)
    next
      case v: (Inr e)
      have "(\<exists>x. r = Inr (s', Inr x)) \<or> (\<exists>es' n' pr'. r = Inl (es', n', pr', s'))"
        using step Inr Some run v by (auto simp: parallel_idle_body_def Let_def split: if_splits)
      with run [unfolded v] show ?thesis by (rule epoch)
    qed
  qed
qed

lemma run_until_idle_parallel_keeps:
  assumes run: "run_until_idle_parallel_recorded code s = Some (s', Inr r)" and inv: "sched_inv s"
  shows "sched_inv s'"
proof (rule outcome_loop_invariant [OF run [unfolded run_until_idle_parallel_recorded_def],
      where I = "\<lambda>(es, n, pr, s). sched_inv s"])
  show "case ([], 0, profile_default, s) of (es, n, pr, s) \<Rightarrow> sched_inv s" using inv by simp
next
  fix x x' assume I: "case x of (es, n, pr, s) \<Rightarrow> sched_inv s" and step: "parallel_idle_body code x = Some (Inl x')"
  obtain es n pr s where x: "x = (es, n, pr, s)" by (cases x)
  show "case x' of (es, n, pr, s) \<Rightarrow> sched_inv s"
    by (rule parallel_idle_cases [OF step [unfolded x]]) (use run_next_epoch_parallel_keeps I x in auto)
next
  fix x s' r assume I: "case x of (es, n, pr, s) \<Rightarrow> sched_inv s" and step: "parallel_idle_body code x = Some (Inr (s', Inr r))"
  obtain es n pr s where x: "x = (es, n, pr, s)" by (cases x)
  show "sched_inv s'"
    by (rule parallel_idle_cases [OF step [unfolded x]]) (use run_next_epoch_parallel_keeps I x in auto)
qed

text \<open>With every clock at least \<open>0\<close>, the invariant of a running callback of tick \<open>0\<close> says that the clocks agree.\<close>

lemma sched_inv_iff: "sched_inv s \<longleftrightarrow> callback_inv s 0"
proof
  assume "callback_inv s 0"
  then have "wf_scheduler s" and "sch_now s = 0 \<and> timeline s \<or> synced s" by (auto simp: callback_inv_def)
  then show "sched_inv s" by (auto simp: sched_inv_def synced_def timeline_def)
qed (auto simp: sched_inv_def callback_inv_def timeline_wf_synced)

text \<open>
  The schedulers that arise from a new one by the public operations, in any order, with the serial callbacks
  \<open>code\<close> and the parallel callbacks \<open>pcode\<close>.  Runs count when they return without a panic; a mixed event also
  when its parallel callback panicked.
\<close>

inductive scheduler_reach :: "('c, 'w) serial_code \<Rightarrow> 'c parallel_code \<Rightarrow> 'c scheduler \<Rightarrow> bool"
  for code pcode where
  reach_new: "with_parallel_worker_limit inst n d k = Inr s \<Longrightarrow> scheduler_reach code pcode s"
| reach_schedule: "scheduler_reach code pcode s \<Longrightarrow> scheduler_reach code pcode (fst (schedule_at s p t c))"
| reach_after: "scheduler_reach code pcode s \<Longrightarrow> scheduler_reach code pcode (fst (schedule_after s p t c))"
| reach_parallel: "scheduler_reach code pcode s \<Longrightarrow> scheduler_reach code pcode (fst (schedule_parallel_at s p t c))"
| reach_cancel: "scheduler_reach code pcode s \<Longrightarrow> scheduler_reach code pcode (fst (cancel_event s i))"
| reach_reschedule: "scheduler_reach code pcode s \<Longrightarrow> scheduler_reach code pcode (fst (reschedule_event s i t))"
| reach_restore: "scheduler_reach code pcode s \<Longrightarrow> scheduler_reach code pcode (fst (restore_quiescent s sn))"
| reach_projection: "scheduler_reach code pcode s \<Longrightarrow>
    scheduler_reach code pcode (fst (restore_checkpoint_projection s sn discarded preserved))"
| reach_discard: "scheduler_reach code pcode s \<Longrightarrow> scheduler_reach code pcode (fst (discard_exact_events s es))"
| reach_idle: "scheduler_reach code pcode s \<Longrightarrow> run_until_idle code s w = Some (sw, Inr rs) \<Longrightarrow>
    scheduler_reach code pcode (fst sw)"
| reach_epoch: "scheduler_reach code pcode s \<Longrightarrow> run_next_epoch code s w = Some (sw, Inr rs) \<Longrightarrow>
    scheduler_reach code pcode (fst sw)"
| reach_epoch_until: "scheduler_reach code pcode s \<Longrightarrow> run_next_epoch_until code s w l = Some (sw, Inr rs') \<Longrightarrow>
    scheduler_reach code pcode (fst sw)"
| reach_conservative: "scheduler_reach code pcode s \<Longrightarrow>
    run_until_idle_conservative code s w = Some (sw, Inr crs) \<Longrightarrow> scheduler_reach code pcode (fst sw)"
| reach_parallel_epoch: "scheduler_reach code pcode s \<Longrightarrow>
    run_next_epoch_parallel_recorded pcode s = Some (s', Inr recorded) \<Longrightarrow> scheduler_reach code pcode s'"
| reach_parallel_until: "scheduler_reach code pcode s \<Longrightarrow>
    run_next_epoch_parallel_recorded_until pcode s l = Some (s', Inr x) \<Longrightarrow> scheduler_reach code pcode s'"
| reach_parallel_idle: "scheduler_reach code pcode s \<Longrightarrow>
    run_until_idle_parallel_recorded pcode s = Some (s', Inr y) \<Longrightarrow> scheduler_reach code pcode s'"
| reach_mixed: "scheduler_reach code pcode s \<Longrightarrow> run_next_mixed_event code pcode s w plan = (sw, Inr z) \<Longrightarrow>
    scheduler_reach code pcode (fst sw)"

lemma reach_sched_inv:
  assumes "scheduler_reach code pcode s" and b: "bounded_code code"
  shows "sched_inv s"
  using assms(1)
proof induction
  case (reach_restore s sn)
  then show ?case using callback_inv_restore [of s 0 sn] by (simp add: sched_inv_iff)
next
  case (reach_projection s sn discarded preserved)
  then show ?case using callback_inv_projection [of s 0 sn discarded preserved] by (simp add: sched_inv_iff)
next
  case (reach_discard s es)
  then show ?case using callback_inv_discard [of s 0 es] by (simp add: sched_inv_iff)
next
  case (reach_idle s w sw rs)
  then show ?case
    using run_until_idle_keeps [OF reach_idle.hyps(2)] timeline_wf_synced [of s] by (simp add: sched_inv_def)
next
  case (reach_mixed s w plan sw z)
  then show ?case using run_next_mixed_event_keeps [OF reach_mixed.hyps(2)] by (simp add: sched_inv_def)
next
  case (reach_epoch s w sw rs)
  then show ?case using run_next_epoch_keeps [OF reach_epoch.hyps(2) _ _ b] by (simp add: sched_inv_def)
next
  case (reach_epoch_until s w l sw rs')
  then show ?case using run_next_epoch_until_keeps [OF reach_epoch_until.hyps(2) _ _ b] by (simp add: sched_inv_def)
next
  case (reach_conservative s w sw crs)
  then show ?case using run_until_idle_conservative_keeps [OF reach_conservative.hyps(2) _ _ b] by (simp add: sched_inv_def)
qed (simp_all add: sched_inv_new schedule_at_def schedule_parallel_at_def cancel_event_def reschedule_event_def
    schedule_after_def st_try_def sched_inv_schedule sched_inv_with_partition wf_queue_cancel wf_queue_reschedule
    run_next_epoch_parallel_keeps run_next_epoch_parallel_until_keeps run_until_idle_parallel_keeps split: sum.split)

text \<open>
  C0. The invariant of the scheduler.  Whatever public operations build a scheduler and in whatever order -
  scheduling, cancelling, checkpoint restores, serial, conservative and parallel runs, mixed events - every
  partition clock equals the global clock, no pending event lies in the past, and no two pending events of
  a partition have the same id.  Serial callbacks may do anything but restore the timeline \<open>2 ^ 64\<close> times in one call.
\<close>

theorem scheduler_invariant:
  assumes reach: "scheduler_reach code pcode s" and b: "bounded_code code"
  shows "list_all (\<lambda>q. pq_now q = sch_now s \<and> list_all (\<lambda>e. sch_now s \<le> pe_tick e) (pq_pending q) \<and>
    distinct (map pe_id (pq_pending q))) (sch_partitions s)"
proof -
  have wf: "wf_scheduler s" and sy: "synced s" using reach_sched_inv [OF reach b] by (simp_all add: sched_inv_def)
  then show ?thesis
    using timeline_wf_synced [OF wf sy] wf_schedulerD [OF wf]
    by (auto simp: list_all_length timeline_def synced_def list_all_iff wf_queue_def)
qed

theorem scheduler_invariant_witness:
  "\<exists>s' recorded. run_next_epoch_parallel_recorded message_code message_scheduler = Some (s', Inr recorded) \<and>
    scheduler_reach periodic_code message_code s' \<and>
    list_all (\<lambda>q. pq_now q = sch_now s' \<and> list_all (\<lambda>e. sch_now s' \<le> pe_tick e) (pq_pending q) \<and>
      distinct (map pe_id (pq_pending q))) (sch_partitions s')"
proof (rule message_epoch)
  fix s' recorded assume run: "run_next_epoch_parallel_recorded message_code message_scheduler = Some (s', Inr recorded)"
  let ?s0 = "\<lparr>sch_instance_id = 1, sch_timeline_revision = 0, sch_now = 0, sch_min_remote_delay = 10,
    sch_max_parallel_workers = 1, sch_partitions = replicate 2 partition_queue_new\<rparr> :: nat scheduler"
  have "with_parallel_worker_limit 1 2 10 1 = Inr ?s0" by (simp add: with_parallel_worker_limit_def)
  then have "scheduler_reach periodic_code message_code (fst (schedule_at (fst (schedule_parallel_at ?s0 0 0 0)) 1 50 2))"
    by (intro reach_schedule reach_parallel reach_new)
  also have "fst (schedule_at (fst (schedule_parallel_at ?s0 0 0 0)) 1 50 2) = message_scheduler"
    by (simp add: schedule_at_def schedule_parallel_at_def with_partition_def get_partition_def set_partition_def
        message_scheduler_def numeral_2_eq_2)
  finally have reach: "scheduler_reach periodic_code message_code s'" using run by (rule reach_parallel_epoch)
  moreover have "bounded_code periodic_code" by (simp add: bounded_code_def periodic_code_def)
  ultimately show ?thesis using scheduler_invariant [OF reach] run by blast
qed

definition failing_scheduler :: "nat scheduler" where
  "failing_scheduler =
     \<lparr>sch_instance_id = 1, sch_timeline_revision = 0, sch_now = 0, sch_min_remote_delay = 10,
      sch_max_parallel_workers = 4,
      sch_partitions = [fst (schedule_event_at partition_queue_new 0 3 (ParallelCallback 8)), partition_queue_new]\<rparr>"

lemma failing_epoch:
  "case run_next_epoch_parallel_recorded panicking_code failing_scheduler of
     Some (s', Inl e) \<Rightarrow> e = ParallelWorkerPanicked 0 \<and> is_idle s' \<and> sch_now s' = 3 \<and>
       map pq_now (sch_partitions s') = [3, 0]
   | _ \<Rightarrow> False"
  by code_simp

lemma restore_refused:
  assumes "p < length (sn_partitions sn)" and "ps_now (sn_partitions sn ! p) \<noteq> sn_now sn"
  shows "\<exists>e. restore_quiescent s sn = (s, Inl e)"
proof (cases "validate_quiescent_restore s sn")
  case (Inr u)
  then have "validate_quiescent_snapshot_compatibility s sn = Inr ()"
    by (simp add: validate_quiescent_restore_def split: if_splits)
  then show ?thesis using assms by (simp add: snapshot_compatible_iff)
qed (simp add: restore_quiescent_def)

text \<open>
  C0. After a failed parallel epoch the quiescent snapshot cannot be restored.  When a parallel callback panics, the
  global clock moves to the tick of the partition that ran furthest and the other partitions stay behind.  With no
  events left, the quiescent snapshot is still taken without an error, but every scheduler refuses to restore it.
\<close>

theorem failed_epoch_snapshot_refused:
  "\<exists>s' sn. run_next_epoch_parallel_recorded panicking_code failing_scheduler = Some (s', Inl (ParallelWorkerPanicked 0)) \<and>
    quiescent_snapshot s' = Inr sn \<and> (\<forall>s :: nat scheduler. \<exists>e. restore_quiescent s sn = (s, Inl e))"
proof -
  obtain s' where s': "run_next_epoch_parallel_recorded panicking_code failing_scheduler = Some (s', Inl (ParallelWorkerPanicked 0))"
      "is_idle s'" "sch_now s' = 3" and nows: "map pq_now (sch_partitions s') = [3, 0]"
    using failing_epoch by (auto split: option.splits prod.splits sum.splits)
  have "map pq_now (sch_partitions s') ! 1 = 0" unfolding nows by simp
  moreover have n: "partition_count s' = 2" using arg_cong [OF nows, of length] by simp
  ultimately have "ps_now (sn_partitions (scheduler_snapshot_of s') ! 1) \<noteq> sn_now (scheduler_snapshot_of s')"
    using s'(3) snapshot_partitions_nth [of 1 s'] by (simp add: queue_snapshot_def) (simp add: scheduler_snapshot_of_def)
  moreover have "1 < length (sn_partitions (scheduler_snapshot_of s'))" using n by (simp add: scheduler_snapshot_of_def)
  ultimately have "\<forall>s :: nat scheduler. \<exists>e. restore_quiescent s (scheduler_snapshot_of s') = (s, Inl e)"
    using restore_refused by blast
  then show ?thesis using s'(1) idle_pending(1) [OF s'(2)] by (auto simp: quiescent_snapshot_def Let_def)
qed

text \<open>An idle scheduler at tick \<open>10\<close> and a new one of the same configuration.\<close>

theorem snapshot_restore_roundtrip_witness:
  "\<exists>sn t'. quiescent_snapshot (advance_partitions_to (failing_scheduler\<lparr>sch_partitions := [partition_queue_new]\<rparr>) 10) = Inr sn \<and>
    restore_quiescent (failing_scheduler\<lparr>sch_partitions := [partition_queue_new]\<rparr>) sn = (t', Inr ()) \<and>
    scheduler_snapshot_of t' =
      scheduler_snapshot_of (advance_partitions_to (failing_scheduler\<lparr>sch_partitions := [partition_queue_new]\<rparr>) 10)"
  by (rule snapshot_restore_roundtrip)
     (simp_all add: failing_scheduler_def advance_partitions_to_def partition_queue_new_def is_idle_def synced_def same_config_def)

end
