(* ===== verification/Spec2Isabelle.thy ===== *)
theory Spec2Isabelle
  imports
    Rem6_Prelude
    Line_Protocol Protocol_Msi Protocol_Mesi Protocol_Moesi Protocol_Chi
    Memory_Types Memory_Request Address_Map Memory_Store Memory_Device Partitioned_Store
    Line_Directory Directory_Msi Directory_Mesi Directory_Moesi Directory_Chi
    Clock Event_Queue Wait_For Partition_Queue
    Loops Scheduler Scheduler_Inv Scheduler_Serial Parallel_Worker Parallel_Inv Scheduler_Parallel Parallel_Epoch
    Scheduler_Runs
begin

text \<open>
  Verification of parts of rem6, a multi-partition computer-system simulator written in Rust.
\<close>

end
